(* ===== verification/Prelude.thy ===== *)
theory Prelude
  imports Main "HOL-Library.Word" "HOL-Library.Char_ord" "HOL-Library.Sublist"
begin

section \<open>Prelude: the types and the list, map and word lemmas the components share\<close>

text \<open>
  The machine types of the Rust sources (\<open>u64\<close>, byte strings), the results of fallible and of
  possibly panicking code, slices, the cutting of a file into chunks (\<open>slice::chunks\<close>), and
  ordered maps (\<open>BTreeMap\<close>) as association lists with strictly increasing keys, which is the
  order the sources iterate them in.
\<close>

named_theorems result_simps \<open>unfolding the result combinators\<close>
named_theorems wordpos \<open>reading u64 arithmetic as arithmetic on natural numbers\<close>

subsection \<open>Machine types\<close>

type_synonym u8 = "8 word"
type_synonym u64 = "64 word"
type_synonym bytes = "u8 list"

text \<open>Rust allocations hold at most \<open>isize::MAX\<close> bytes, so every slice length is below this.\<close>

definition isize_max :: nat where
  "isize_max = 2 ^ 63 - 1"

text \<open>\<open>u64::checked_add\<close>.\<close>

definition checked_add :: "u64 \<Rightarrow> u64 \<Rightarrow> u64 option" where
  "checked_add a b = (if unat a + unat b < 2 ^ 64 then Some (a + b) else None)"

text \<open>Subtraction of \<open>usize\<close> values: \<open>None\<close> where the Rust code would panic.\<close>

definition usize_sub :: "nat \<Rightarrow> nat \<Rightarrow> nat option" where
  "usize_sub a b = (if b \<le> a then Some (a - b) else None)"

lemma checked_add_Some [wordpos]:
  "checked_add a b = Some c \<longleftrightarrow> unat a + unat b < 2 ^ 64 \<and> c = a + b"
  by (auto simp: checked_add_def)

lemma checked_add_None [wordpos]:
  "checked_add a b = None \<longleftrightarrow> 2 ^ 64 \<le> unat a + unat b"
  by (auto simp: checked_add_def)

lemma unat_add_small [wordpos]:
  "unat (a::u64) + unat b < 2 ^ 64 \<Longrightarrow> unat (a + b) = unat a + unat b"
  by (simp add: unat_word_ariths)

lemma unat_lt_2p64 [simp]: "unat (a::u64) < 2 ^ 64"
  using unsigned_less [of a, where 'a = nat] by simp

lemma unat_of_nat_u64 [wordpos]: "n < 2 ^ 64 \<Longrightarrow> unat (word_of_nat n :: u64) = n"
  by (simp add: unat_of_nat)

lemma u64_eq_iff: "(a::u64) = b \<longleftrightarrow> unat a = unat b"
  by (rule word_unat_eq_iff)

subsection \<open>Results\<close>

text \<open>
  A fallible call that does not panic is a sum, \<open>Inl\<close> the error. Where the sources claim that
  code cannot panic, the model keeps the panics (a slice out of range, a division by zero, a
  subtraction below zero) as a third outcome, so that the claim can be proved.
\<close>

datatype ('e, 'a) outcome = Ok 'a | Err 'e | Panic

definition map_err :: "('e \<Rightarrow> 'f) \<Rightarrow> 'e + 'a \<Rightarrow> 'f + 'a" where
  "map_err f r = (case r of Inl e \<Rightarrow> Inl (f e) | Inr a \<Rightarrow> Inr a)"

lemma map_err_simps [simp, result_simps]:
  "map_err f (Inl e) = Inl (f e)"
  "map_err f (Inr a) = Inr a"
  by (simp_all add: map_err_def)

lemma map_err_Inr_iff [simp]: "map_err f r = Inr a \<longleftrightarrow> r = Inr a"
  by (cases r) simp_all

lemma map_err_Inl_iff: "map_err f r = Inl e \<longleftrightarrow> (\<exists>e'. r = Inl e' \<and> e = f e')"
  by (cases r) auto

subsection \<open>Slices\<close>

text \<open>\<open>xs[a..b]\<close>: \<open>None\<close> where Rust panics.\<close>

definition slice :: "nat \<Rightarrow> nat \<Rightarrow> 'a list \<Rightarrow> 'a list option" where
  "slice a b xs = (if a \<le> b \<and> b \<le> length xs then Some (take (b - a) (drop a xs)) else None)"

text \<open>
  \<open>dst[d..d + n].copy_from_slice(&src[s..s + n])\<close>: \<open>None\<close> where Rust panics.
\<close>

definition copy_slice :: "'a list \<Rightarrow> nat \<Rightarrow> nat \<Rightarrow> 'a list \<Rightarrow> nat \<Rightarrow> 'a list option" where
  "copy_slice dst d n src s =
     (case (slice d (d + n) dst, slice s (s + n) src) of
        (Some _, Some xs) \<Rightarrow> Some (take d dst @ xs @ drop (d + n) dst)
      | _ \<Rightarrow> None)"

lemma slice_Some [simp]:
  "slice a b xs = Some ys \<longleftrightarrow> a \<le> b \<and> b \<le> length xs \<and> ys = take (b - a) (drop a xs)"
  by (auto simp: slice_def)

lemma copy_slice_Some:
  "copy_slice dst d n src s = Some r \<longleftrightarrow>
     d + n \<le> length dst \<and> s + n \<le> length src \<and>
     r = take d dst @ take n (drop s src) @ drop (d + n) dst"
  by (auto simp: copy_slice_def slice_def)

lemma copy_slice_None:
  "copy_slice dst d n src s = None \<longleftrightarrow> length dst < d + n \<or> length src < s + n"
  by (auto simp: copy_slice_def slice_def)

subsection \<open>Cutting a list into chunks\<close>

text \<open>
  \<open>xs.chunks(n)\<close>: consecutive pieces of \<open>n\<close> elements, the last one shorter when \<open>n\<close> does not
  divide the length. Rust panics on \<open>n = 0\<close>; here that case gives no chunk, and its callers
  model the panic.
\<close>

function chunks :: "nat \<Rightarrow> 'a list \<Rightarrow> 'a list list" where
  "chunks n xs = (if n = 0 \<or> xs = [] then [] else take n xs # chunks n (drop n xs))"
  by pat_completeness auto
termination
  by (relation "measure (\<lambda>(n, xs). length xs)") auto

declare chunks.simps [simp del]

lemma chunks_Nil [simp]: "chunks n [] = []"
  by (simp add: chunks.simps)

lemma chunks_step: "0 < n \<Longrightarrow> xs \<noteq> [] \<Longrightarrow> chunks n xs = take n xs # chunks n (drop n xs)"
  by (simp add: chunks.simps [of n xs])

lemma concat_chunks [simp]: "0 < n \<Longrightarrow> concat (chunks n xs) = xs"
proof (induction n xs rule: chunks.induct)
  case (1 n xs)
  then show ?case by (cases "xs = []") (simp_all add: chunks_step)
qed

lemma chunks_eq_Nil [simp]: "0 < n \<Longrightarrow> chunks n xs = [] \<longleftrightarrow> xs = []"
  by (cases "xs = []") (simp_all add: chunks_step)

lemma length_chunks: "0 < n \<Longrightarrow> length (chunks n xs) = (length xs + n - 1) div n"
proof (induction n xs rule: chunks.induct)
  case (1 n xs)
  show ?case
  proof (cases "xs = []")
    case True
    with "1.prems" show ?thesis by simp
  next
    case False
    with 1 have IH: "length (chunks n (drop n xs)) = (length xs - n + n - 1) div n"
      by simp
    show ?thesis
    proof (cases "n \<le> length xs")
      case True
      then have "length xs + n - 1 = (length xs - n + n - 1) + n"
        using "1.prems" by linarith
      then have "(length xs + n - 1) div n = Suc ((length xs - n + n - 1) div n)"
        using "1.prems" by (metis Suc_eq_plus1 div_add_self2 less_numeral_extra(3))
      with False "1.prems" IH show ?thesis by (simp add: chunks_step)
    next
      case short: False
      with False "1.prems" have "length xs + n - 1 = (length xs - 1) + n"
        by (cases xs) auto
      moreover have "(length xs - 1) div n = 0"
        using short by (intro div_less) linarith
      ultimately have "(length xs + n - 1) div n = 1"
        using "1.prems" by (simp only: div_add_self2 [OF gr_implies_not0])
      with False short "1.prems" show ?thesis by (simp add: chunks_step)
    qed
  qed
qed

lemma nth_chunks:
  "0 < n \<Longrightarrow> i < length (chunks n xs) \<Longrightarrow> chunks n xs ! i = take n (drop (i * n) xs)"
proof (induction n xs arbitrary: i rule: chunks.induct)
  case (1 n xs)
  then have ne: "xs \<noteq> []" by (cases "xs = []") simp_all
  show ?case
  proof (cases i)
    case 0
    with ne "1.prems" show ?thesis by (simp add: chunks_step)
  next
    case (Suc j)
    with "1.prems" ne have "j < length (chunks n (drop n xs))"
      by (simp add: chunks_step)
    with "1.IH" "1.prems" ne have "chunks n (drop n xs) ! j = take n (drop (j * n) (drop n xs))"
      by simp
    with ne Suc "1.prems" show ?thesis
      by (simp add: chunks_step add.commute)
  qed
qed

lemma chunks_nth_offset_lt:
  "0 < n \<Longrightarrow> i < length (chunks n xs) \<longleftrightarrow> i * n < length xs"
proof -
  assume n: "0 < n"
  have "i < (length xs + n - 1) div n \<longleftrightarrow> Suc i * n \<le> length xs + n - 1"
    using n by (simp add: less_eq_div_iff_mult_less_eq flip: Suc_le_eq)
  also have "\<dots> \<longleftrightarrow> i * n < length xs"
    using n by auto
  finally show ?thesis using n by (simp add: length_chunks)
qed

subsection \<open>Ordered maps\<close>

text \<open>
  A \<open>BTreeMap\<close> as the association list its iterator yields: keys strictly increasing.
  \<open>bt_insert\<close> is \<open>BTreeMap::insert\<close>.
\<close>

definition bt_ok :: "('k::linorder \<times> 'v) list \<Rightarrow> bool" where
  "bt_ok m \<longleftrightarrow> sorted_wrt (<) (map fst m)"

fun bt_insert :: "'k::linorder \<Rightarrow> 'v \<Rightarrow> ('k \<times> 'v) list \<Rightarrow> ('k \<times> 'v) list" where
  "bt_insert k v [] = [(k, v)]"
| "bt_insert k v ((k', v') # m) =
     (if k < k' then (k, v) # (k', v') # m
      else if k = k' then (k, v) # m
      else (k', v') # bt_insert k v m)"

lemma bt_ok_Nil [simp]: "bt_ok []"
  by (simp add: bt_ok_def)

lemma bt_ok_Cons: "bt_ok ((k, v) # m) \<longleftrightarrow> (\<forall>k' \<in> fst ` set m. k < k') \<and> bt_ok m"
  by (auto simp: bt_ok_def)

lemma keys_bt_insert [simp]: "fst ` set (bt_insert k v m) = insert k (fst ` set m)"
  by (induction k v m rule: bt_insert.induct) auto

lemma bt_ok_insert [simp, intro]: "bt_ok m \<Longrightarrow> bt_ok (bt_insert k v m)"
  by (induction k v m rule: bt_insert.induct) (auto simp: bt_ok_Cons)

lemma map_of_bt_insert [simp]: "map_of (bt_insert k v m) = (map_of m)(k \<mapsto> v)"
  by (induction k v m rule: bt_insert.induct) (auto simp: fun_eq_iff)

lemma bt_ok_distinct: "bt_ok m \<Longrightarrow> distinct (map fst m)"
  by (simp add: bt_ok_def strict_sorted_iff)

lemma bt_ok_map_of_eq:
  "bt_ok m \<Longrightarrow> bt_ok m' \<Longrightarrow> map_of m = map_of m' \<Longrightarrow> m = m'"
proof (induction m arbitrary: m')
  case Nil
  then show ?case by (cases m') (auto dest: fun_cong split: if_splits)
next
  case (Cons kv m)
  obtain k v where kv: "kv = (k, v)" by fastforce
  from Cons.prems(3) have "map_of m' k = Some v" by (auto simp: kv dest: fun_cong [where x = k])
  then obtain k2 v2 m2 where m': "m' = (k2, v2) # m2" by (cases m') auto
  have "k \<in> fst ` set m'" using \<open>map_of m' k = Some v\<close> by (metis domI dom_map_of_conv_image_fst)
  moreover have "map_of (kv # m) k2 = Some v2" by (subst Cons.prems(3)) (simp add: m')
  then have "k2 \<in> fst ` set (kv # m)" by (metis domI dom_map_of_conv_image_fst)
  ultimately have k: "k2 = k" using Cons.prems(1,2)
    by (fastforce simp: kv m' bt_ok_Cons dest: order_less_asym)
  with \<open>map_of m' k = Some v\<close> have v: "v2 = v" by (simp add: m')
  have "map_of m x = map_of m2 x" for x
  proof (cases "x = k")
    case True
    have "map_of m k = None" using Cons.prems(1) by (auto simp: kv bt_ok_Cons map_of_eq_None_iff)
    moreover have "map_of m2 k = None"
      using Cons.prems(2) k by (auto simp: m' bt_ok_Cons map_of_eq_None_iff)
    ultimately show ?thesis using True by simp
  next
    case False
    with Cons.prems(3) show ?thesis by (auto simp: kv m' k dest: fun_cong [where x = x])
  qed
  then have "m = m2" using Cons.prems(1,2) by (intro Cons.IH) (auto simp: kv m' bt_ok_Cons)
  with k v kv m' show ?case by simp
qed

end
