(* ===== verification/Vfs_Source.thy ===== *)
theory Vfs_Source
  imports Prelude
begin

section \<open>The page source: what the read boundary faults pages from\<close>

text \<open>
  \<open>crates/flock-vfs/src/error.rs\<close> and \<open>source.rs\<close>: the error enum of the read path and the
  \<open>PageSource\<close> trait. A source is a record of the trait's methods over a state: the trait takes
  \<open>&self\<close>, and every implementation has interior state (a page cache, a recorded trace), so each
  method that can touch it returns the next state. Substrate's own errors are opaque messages.

  The two locales state the contract of the trait's documentation. \<open>page_source_safe\<close> is what a
  misbehaving store still owes a reader: a page that comes back is the page of the file that was
  asked for. \<open>page_source_live\<close> adds that a page of the file does come back.
\<close>

type_synonym pager_error = string
type_synonym store_error = string

datatype vfs_error =
    ZeroPageSize
  | OffsetOverflow u64
  | OversizePage u64 nat u64
  | ShortPage u64 nat nat
  | Fault u64 pager_error
  | Wake store_error
  | Runtime string
  | TierConfig string
  | BadFfiArgument string string

record 's page_source =
  src_page_size :: "'s \<Rightarrow> u64"
  src_read_page :: "'s \<Rightarrow> u64 \<Rightarrow> (vfs_error + bytes) \<times> 's"
  src_prefetch :: "'s \<Rightarrow> u64 list \<Rightarrow> 's"

text \<open>
  The trait's default \<open>prefetch\<close>: fault each page in turn and drop the result, errors included.
\<close>

fun default_prefetch ::
  "('s \<Rightarrow> u64 \<Rightarrow> (vfs_error + bytes) \<times> 's) \<Rightarrow> 's \<Rightarrow> u64 list \<Rightarrow> 's" where
  "default_prefetch rd st [] = st"
| "default_prefetch rd st (page_no # pages) = default_prefetch rd (snd (rd st page_no)) pages"

text \<open>Logical page \<open>n\<close> of a file: bytes \<open>[n * ps, (n + 1) * ps)\<close>, cut off at the end of the file.\<close>

definition page_of :: "nat \<Rightarrow> bytes \<Rightarrow> nat \<Rightarrow> bytes" where
  "page_of ps f n = take ps (drop (n * ps) f)"

lemma length_page_of [simp]: "length (page_of ps f n) = min ps (length f - n * ps)"
  by (simp add: page_of_def min.commute)

lemma page_of_eq_Nil [simp]: "page_of ps f n = [] \<longleftrightarrow> ps = 0 \<or> length f \<le> n * ps"
  by (auto simp: page_of_def)

lemma nth_page_of: "i < ps \<Longrightarrow> n * ps + i < length f \<Longrightarrow> page_of ps f n ! i = f ! (n * ps + i)"
  by (simp add: page_of_def)

lemma chunks_page_of: "0 < ps \<Longrightarrow> n < length (chunks ps f) \<Longrightarrow> chunks ps f ! n = page_of ps f n"
  by (simp add: nth_chunks page_of_def)

locale page_source_safe =
  fixes S :: "'s page_source" and good :: "'s \<Rightarrow> bool" and content :: "'s \<Rightarrow> bytes"
  assumes size_pos: "good st \<Longrightarrow> 0 < src_page_size S st"
    and read_true: "good st \<Longrightarrow> src_read_page S st p = (Inr page, st') \<Longrightarrow>
      page = page_of (unat (src_page_size S st)) (content st) (unat p)"
    and read_frame: "good st \<Longrightarrow> src_read_page S st p = (r, st') \<Longrightarrow>
      good st' \<and> content st' = content st \<and> src_page_size S st' = src_page_size S st"
    and prefetch_frame: "good st \<Longrightarrow>
      good (src_prefetch S st pages) \<and> content (src_prefetch S st pages) = content st \<and>
      src_page_size S (src_prefetch S st pages) = src_page_size S st"
begin

lemma default_prefetch_frame:
  "good st \<Longrightarrow> good (default_prefetch (src_read_page S) st pages) \<and>
     content (default_prefetch (src_read_page S) st pages) = content st \<and>
     src_page_size S (default_prefetch (src_read_page S) st pages) = src_page_size S st"
proof (induction pages arbitrary: st)
  case Nil
  then show ?case by simp
next
  case (Cons p pages)
  obtain r st' where "src_read_page S st p = (r, st')" by fastforce
  with Cons show ?case by (simp add: read_frame [OF Cons.prems])
qed

end

locale page_source_live = page_source_safe +
  assumes read_live: "good st \<Longrightarrow> unat p * unat (src_page_size S st) < length (content st) \<Longrightarrow>
    \<exists>page st'. src_read_page S st p = (Inr page, st')"

end
