(* ===== verification/Vfs_Read.thy ===== *)
theory Vfs_Read
  imports Vfs_Source
begin

section \<open>The read boundary\<close>

text \<open>
  \<open>crates/flock-vfs/src/read.rs\<close>: \<open>serve_read\<close> turns one \<open>pread\<close> of a virtual file of \<open>total_len\<close>
  bytes into page faults. \<open>offset\<close>, \<open>total_len\<close> and page numbers are u64; quantities bounded by
  the length of a slice (\<open>done\<close>, \<open>want\<close>, \<open>take\<close>) are natural numbers, and the subtraction and the
  slicing on them keep their panics. \<open>serve_step\<close> is one iteration of the while loop.

  Results: the call never panics and writes inside the requested window only, for any source
  (\<open>serve_read_no_panic\<close>, \<open>serve_read_frame\<close>); a byte it reports comes from the page and the
  offset its position names, for any source without state, however hostile
  (\<open>serve_read_bytes_from_pages\<close>); over a source that honours the contract it is \<open>pread\<close> of the
  file (\<open>serve_read_safe\<close>, \<open>serve_read_live\<close> of the locales, used by every interpretation).
\<close>

datatype 's read_step =
    Continue nat bytes 's
  | Stop "(vfs_error, nat) outcome" bytes 's

definition serve_step ::
  "'s page_source \<Rightarrow> u64 \<Rightarrow> u64 \<Rightarrow> nat \<Rightarrow> nat \<Rightarrow> bytes \<Rightarrow> 's \<Rightarrow> 's read_step" where
  "serve_step S page_size offset want done buf st =
     (case checked_add offset (word_of_nat done) of
        None \<Rightarrow> Stop (Err (OffsetOverflow offset)) buf st
      | Some file_pos \<Rightarrow>
          if page_size = 0 then Stop Panic buf st
          else
            (let page_no = file_pos div page_size;
                 page_off = unat (file_pos mod page_size)
             in case src_read_page S st page_no of
                  (Inl e, st') \<Rightarrow> Stop (Err e) buf st'
                | (Inr page, st') \<Rightarrow>
                    if unat page_size < length page then
                      Stop (Err (OversizePage page_no (length page) page_size)) buf st'
                    else if length page \<le> page_off then
                      Stop (Err (ShortPage page_no page_off (length page))) buf st'
                    else
                      (case (usize_sub (length page) page_off, usize_sub want done) of
                         (Some available, Some needed) \<Rightarrow>
                           (let take = min available needed
                            in case copy_slice buf done take page page_off of
                                 None \<Rightarrow> Stop Panic buf st'
                               | Some buf' \<Rightarrow> Continue (done + take) buf' st')
                       | _ \<Rightarrow> Stop Panic buf st')))"

text \<open>What a completed iteration did: it took at least one byte of the page it faulted.\<close>

lemma serve_step_Continue:
  assumes "serve_step S ps offset want done buf st = Continue done' buf' st'"
  obtains page n where
    "unat offset + unat (word_of_nat done :: u64) < 2 ^ 64" "ps \<noteq> 0"
    "src_read_page S st ((offset + word_of_nat done) div ps) = (Inr page, st')"
    "length page \<le> unat ps" "unat ((offset + word_of_nat done) mod ps) < length page"
    "n = min (length page - unat ((offset + word_of_nat done) mod ps)) (want - done)"
    "done \<le> want" "done' = done + n" "done + n \<le> length buf"
    "buf' = take done buf @ take n (drop (unat ((offset + word_of_nat done) mod ps)) page)
       @ drop (done + n) buf"
proof -
  let ?pos = "offset + word_of_nat done"
  have fits: "unat offset + unat (word_of_nat done :: u64) < 2 ^ 64"
    using assms by (cases "checked_add offset (word_of_nat done)")
      (simp_all add: serve_step_def checked_add_Some)
  then have add: "checked_add offset (word_of_nat done) = Some ?pos"
    by (simp add: checked_add_Some)
  have ps: "ps \<noteq> 0" using assms by (auto simp: serve_step_def add)
  obtain page s where page: "src_read_page S st (?pos div ps) = (Inr page, s)"
  proof (cases "src_read_page S st (?pos div ps)")
    case (Pair r s)
    with assms that show ?thesis by (cases r) (simp_all add: serve_step_def add ps)
  qed
  note run = assms [unfolded serve_step_def add option.case Let_def page prod.case sum.case]
  have small: "length page \<le> unat ps" and off: "unat (?pos mod ps) < length page"
    using run ps by (simp_all split: if_splits)
  have le: "done \<le> want" using run ps small off by (simp add: usize_sub_def split: if_splits)
  define n where "n = min (length page - unat (?pos mod ps)) (want - done)"
  have "(case copy_slice buf done n page (unat (?pos mod ps)) of None \<Rightarrow> Stop Panic buf s
      | Some b \<Rightarrow> Continue (done + n) b s) = Continue done' buf' st'"
    unfolding n_def using run ps small off le by (simp add: usize_sub_def split: if_splits)
  then have copy: "copy_slice buf done n page (unat (?pos mod ps)) = Some buf'"
    and d': "done' = done + n" and s: "s = st'"
    by (auto split: option.splits)
  show ?thesis
    using copy by (intro that [OF fits ps page [unfolded s] small off n_def le d'])
      (simp_all add: copy_slice_Some)
qed

lemma serve_step_frame:
  "serve_step S ps offset want done buf st = Continue done' buf' st' \<Longrightarrow>
     length buf' = length buf \<and> take done buf' = take done buf \<and> drop done' buf' = drop done' buf"
  by (erule serve_step_Continue) auto

lemma serve_step_progress:
  "serve_step S ps offset want done buf st = Continue done' buf' st' \<Longrightarrow> done < want \<Longrightarrow>
     done < done' \<and> done' \<le> want"
  by (erule serve_step_Continue) auto

function serve_loop ::
  "'s page_source \<Rightarrow> u64 \<Rightarrow> u64 \<Rightarrow> nat \<Rightarrow> nat \<Rightarrow> bytes \<Rightarrow> 's \<Rightarrow>
   (vfs_error, nat) outcome \<times> bytes \<times> 's" where
  "serve_loop S page_size offset want done buf st =
     (if done < want then
        (case serve_step S page_size offset want done buf st of
           Continue done' buf' st' \<Rightarrow> serve_loop S page_size offset want done' buf' st'
         | Stop r buf' st' \<Rightarrow> (r, buf', st'))
      else (Ok done, buf, st))"
  by pat_completeness auto
termination
  by (relation "measure (\<lambda>(S, ps, offset, want, done, buf, st). want - done)")
    (auto dest: serve_step_progress)

declare serve_loop.simps [simp del]

text \<open>\<open>total_len - offset\<close> cannot wrap, because the read at or past the end has returned.\<close>

definition serve_read ::
  "'s page_source \<Rightarrow> u64 \<Rightarrow> u64 \<Rightarrow> bytes \<Rightarrow> 's \<Rightarrow> (vfs_error, nat) outcome \<times> bytes \<times> 's" where
  "serve_read S total_len offset buf st =
     (if total_len \<le> offset then (Ok 0, buf, st)
      else
        (let remaining = total_len - offset;
             want = unat (min remaining (word_of_nat (length buf)))
         in if want = 0 then (Ok 0, buf, st)
            else
              (let page_size = src_page_size S st
               in if page_size = 0 then (Err ZeroPageSize, buf, st)
                  else serve_loop S page_size offset want 0 buf st)))"

subsection \<open>The loop rule\<close>

text \<open>
  Every loop head satisfies what the first one does, if the completed iterations keep it; the
  loop ends at such a head, either because it is done or because the iteration there stopped.
\<close>

lemma serve_loop_rule:
  assumes run: "serve_loop S ps offset want done buf st = (r, buf', st')"
    and init: "I done buf st"
    and step: "\<And>done buf st done' buf' st'. I done buf st \<Longrightarrow> done < want \<Longrightarrow>
      serve_step S ps offset want done buf st = Continue done' buf' st' \<Longrightarrow> I done' buf' st'"
  obtains (finished) d where "r = Ok d" "want \<le> d" "I d buf' st'"
    | (stopped) d b s where "d < want" "I d b s"
        "serve_step S ps offset want d b s = Stop r buf' st'"
proof -
  have "(\<exists>d. r = Ok d \<and> want \<le> d \<and> I d buf' st') \<or>
    (\<exists>d b s. d < want \<and> I d b s \<and> serve_step S ps offset want d b s = Stop r buf' st')"
    using run init
  proof (induction "want - done" arbitrary: "done" buf st rule: less_induct)
    case less
    note run = less.prems(1) [unfolded serve_loop.simps [of S ps offset want "done" buf st]]
    show ?case
    proof (cases "done < want")
      case False
      with run less.prems(2) show ?thesis by auto
    next
      case True
      show ?thesis
      proof (cases "serve_step S ps offset want done buf st")
        case (Continue d' b' s')
        with run True have "serve_loop S ps offset want d' b' s' = (r, buf', st')" by simp
        moreover have "want - d' < want - done"
          using serve_step_progress [OF Continue True] True by linarith
        ultimately show ?thesis
          using less.hyps step [OF less.prems(2) True Continue] by blast
      next
        case (Stop r' b' s')
        with run True less.prems(2) show ?thesis by auto
      qed
    qed
  qed
  then show ?thesis using finished stopped by blast
qed

subsection \<open>Safety for any source\<close>

lemma serve_step_no_panic:
  "ps \<noteq> 0 \<Longrightarrow> done < want \<Longrightarrow> want \<le> length buf \<Longrightarrow>
     serve_step S ps offset want done buf st \<noteq> Stop Panic buf' st'"
  by (auto simp: serve_step_def Let_def usize_sub_def copy_slice_None
      split: option.splits prod.splits sum.splits)

lemma serve_loop_no_panic:
  assumes "serve_loop S ps offset want done buf st = (r, buf', st')" "ps \<noteq> 0" "want \<le> length buf"
  shows "r \<noteq> Panic"
  using assms(1)
proof (rule serve_loop_rule [where I = "\<lambda>d b s. length b = length buf"])
  fix d b s d' b' s'
  assume "length b = length buf" "serve_step S ps offset want d b s = Continue d' b' s'"
  then show "length b' = length buf" by (auto elim!: serve_step_Continue)
next
  fix d b s
  assume "d < want" "length b = length buf" "serve_step S ps offset want d b s = Stop r buf' st'"
  then show ?thesis using assms(2,3) serve_step_no_panic [of ps d want b S offset s buf' st'] by auto
qed simp_all

lemma serve_step_Stop_buf: "serve_step S ps offset want done buf st = Stop r buf' st' \<Longrightarrow> buf' = buf"
  by (auto simp: serve_step_def Let_def split: option.splits if_splits prod.splits sum.splits)

lemma serve_step_Stop_not_Ok: "serve_step S ps offset want done buf st = Stop r buf' st' \<Longrightarrow> r \<noteq> Ok n"
  by (auto simp: serve_step_def Let_def split: option.splits if_splits prod.splits sum.splits)

lemma serve_step_Stop_state:
  assumes "serve_step S ps offset want done buf st = Stop r buf' st'"
  shows "st' = st \<or> st' = snd (src_read_page S st ((offset + word_of_nat done) div ps))"
proof (cases "checked_add offset (word_of_nat done)")
  case None
  with assms show ?thesis by (simp add: serve_step_def)
next
  case (Some pos)
  then have pos: "pos = offset + word_of_nat done" by (simp add: checked_add_Some)
  obtain q s where q: "src_read_page S st (pos div ps) = (q, s)" by fastforce
  have "st' = st \<or> st' = s"
    using assms by (auto simp: serve_step_def Some q Let_def split: if_splits sum.splits option.splits)
  with q pos show ?thesis by auto
qed

lemma serve_loop_frame:
  assumes "serve_loop S ps offset want done buf st = (r, buf', st')" "done \<le> want"
  shows "length buf' = length buf \<and> take done buf' = take done buf \<and> drop want buf' = drop want buf"
  using assms(1)
proof (rule serve_loop_rule [where I = "\<lambda>d b s. d \<le> want \<and> done \<le> d \<and> length b = length buf \<and>
    take done b = take done buf \<and> drop want b = drop want buf"])
  fix d b s d' b' s'
  assume I: "d \<le> want \<and> done \<le> d \<and> length b = length buf \<and>
      take done b = take done buf \<and> drop want b = drop want buf"
    and lt: "d < want"
    and step: "serve_step S ps offset want d b s = Continue d' b' s'"
  from step have f: "length b' = length b" "take d b' = take d b" "drop d' b' = drop d' b"
    by (simp_all add: serve_step_frame)
  from serve_step_progress [OF step lt] have d': "d < d'" "d' \<le> want" by simp_all
  have "take done b' = take done (take d b')" using I by (simp add: min_absorb1)
  moreover have "drop want b' = drop (want - d') (drop d' b')" using d' by simp
  ultimately show "d' \<le> want \<and> done \<le> d' \<and> length b' = length buf \<and>
      take done b' = take done buf \<and> drop want b' = drop want buf"
    using I f d' by (simp add: min_absorb1)
qed (use assms(2) in \<open>auto dest: serve_step_Stop_buf\<close>)

lemma serve_loop_Ok:
  assumes "serve_loop S ps offset want done buf st = (Ok n, buf', st')" "done \<le> want"
  shows "n = want"
  using assms(1)
  by (rule serve_loop_rule [where I = "\<lambda>d b s. d \<le> want"])
    (use assms(2) in \<open>auto dest: serve_step_Stop_not_Ok serve_step_progress\<close>)

text \<open>The number of bytes a read of \<open>len\<close> bytes at \<open>offset\<close> of a file of \<open>flen\<close> bytes serves.\<close>

definition clamp :: "nat \<Rightarrow> nat \<Rightarrow> nat \<Rightarrow> nat" where
  "clamp flen offset len = min (flen - offset) len"

lemma want_eq_clamp:
  assumes "offset < total_len" "len < 2 ^ 64"
  shows "unat (min (total_len - offset) (word_of_nat len :: u64)) =
    clamp (unat total_len) (unat offset) len"
proof -
  have "unat (total_len - offset) = unat total_len - unat offset"
    using assms(1) by (simp add: unat_sub order_less_imp_le)
  then show ?thesis using assms(2)
    by (simp add: clamp_def min_def word_le_nat_alt unat_of_nat_u64)
qed

lemma clamp_fits:
  fixes offset total_len :: u64
  assumes "offset < total_len"
  shows "unat offset + clamp (unat total_len) (unat offset) n < 2 ^ 64"
proof -
  have "unat offset < unat total_len" using assms by (simp add: word_less_nat_alt)
  then have "unat offset + clamp (unat total_len) (unat offset) n \<le> unat total_len"
    by (simp add: clamp_def)
  then show ?thesis using unat_lt_2p64 [of total_len] by (rule le_less_trans)
qed

lemma want_le_length: "unat (min r (word_of_nat n :: u64)) \<le> n"
proof -
  have "unat (word_of_nat n :: u64) \<le> n" by (simp add: unat_of_nat)
  then show ?thesis by (simp add: min_def word_le_nat_alt)
qed

lemma serve_read_cases:
  assumes "serve_read S total_len offset buf st = (r, buf', st')" "length buf < 2 ^ 64"
  obtains (none) "clamp (unat total_len) (unat offset) (length buf) = 0" "r = Ok 0" "buf' = buf" "st' = st"
    | (zero) "r = Err ZeroPageSize" "src_page_size S st = 0" "buf' = buf" "st' = st" "offset < total_len"
    | (loop) "src_page_size S st \<noteq> 0" "offset < total_len" 
        "0 < clamp (unat total_len) (unat offset) (length buf)"
        "serve_loop S (src_page_size S st) offset (clamp (unat total_len) (unat offset) (length buf)) 0 buf st
           = (r, buf', st')"
proof (cases "total_len \<le> offset")
  case True
  then have "clamp (unat total_len) (unat offset) (length buf) = 0"
    by (simp add: clamp_def word_le_nat_alt)
  moreover have "r = Ok 0" "buf' = buf" "st' = st"
    using assms(1) True by (simp_all add: serve_read_def)
  ultimately show ?thesis by (rule none)
next
  case False
  then have lt: "offset < total_len" by simp
  note run = assms(1) [unfolded serve_read_def Let_def want_eq_clamp [OF lt assms(2)]]
  consider "clamp (unat total_len) (unat offset) (length buf) = 0"
    | "0 < clamp (unat total_len) (unat offset) (length buf)" "src_page_size S st = 0"
    | "0 < clamp (unat total_len) (unat offset) (length buf)" "src_page_size S st \<noteq> 0"
    by blast
  then show ?thesis
  proof cases
    case 1
    with run False show ?thesis by (intro none) simp_all
  next
    case 2
    with run False lt show ?thesis by (intro zero) simp_all
  next
    case 3
    with run False lt show ?thesis by (intro loop) simp_all
  qed
qed

lemma serve_read_no_panic: "fst (serve_read S total_len offset buf st) \<noteq> Panic"
proof -
  obtain r buf' st' where run: "serve_read S total_len offset buf st = (r, buf', st')"
    by (cases "serve_read S total_len offset buf st") auto
  have "r \<noteq> Panic"
    using run
    by (auto simp: serve_read_def Let_def split: if_splits
        dest: serve_loop_no_panic [OF _ _ want_le_length])
  with run show ?thesis by simp
qed

lemma serve_read_frame:
  assumes "serve_read S total_len offset buf st = (r, buf', st')" "length buf < 2 ^ 64"
  shows "length buf' = length buf \<and>
    drop (clamp (unat total_len) (unat offset) (length buf)) buf' =
    drop (clamp (unat total_len) (unat offset) (length buf)) buf"
  using assms
  by (rule serve_read_cases) (auto dest: serve_loop_frame)

lemma serve_read_Ok:
  assumes "serve_read S total_len offset buf st = (Ok n, buf', st')" "length buf < 2 ^ 64"
  shows "n = clamp (unat total_len) (unat offset) (length buf)"
  using assms
  by (rule serve_read_cases) (auto dest: serve_loop_Ok)

subsection \<open>Where a served byte comes from, in natural numbers\<close>

lemma step_position:
  fixes offset ps :: u64
  assumes "unat offset + unat (word_of_nat done :: u64) < 2 ^ 64" "done < 2 ^ 64"
  shows "unat ((offset + word_of_nat done) div ps) = (unat offset + done) div unat ps"
    and "unat ((offset + word_of_nat done) mod ps) = (unat offset + done) mod unat ps"
proof -
  have "unat (offset + word_of_nat done) = unat offset + done"
    using unat_add_small [OF assms(1)] unat_of_nat_u64 [OF assms(2)] by simp
  then show "unat ((offset + word_of_nat done) div ps) = (unat offset + done) div unat ps"
    and "unat ((offset + word_of_nat done) mod ps) = (unat offset + done) mod unat ps"
    by (simp_all only: unat_div_distrib unat_mod_distrib)
qed

text \<open>Appending to a window of a list the piece that follows it.\<close>

lemma window_append:
  assumes "take d b = take d (drop off f)" "d + n \<le> length b" "d + n \<le> length f - off"
    and "xs = take n (drop (off + d) f)"
  shows "take (d + n) (take d b @ xs @ drop (d + n) b) = take (d + n) (drop off f)"
proof -
  have "length xs = n" using assms(3,4) by simp
  then have "take (d + n) (take d b @ xs @ drop (d + n) b) = take d b @ xs"
    using assms(2) by simp
  also have "\<dots> = take (d + n) (drop off f)"
    using assms(1,4) by (simp add: take_add add.commute)
  finally show ?thesis .
qed

lemma page_window:
  assumes "0 < ps" "n \<le> length (page_of ps f (pos div ps)) - pos mod ps"
  shows "take n (drop (pos mod ps) (page_of ps f (pos div ps))) = take n (drop pos f)"
proof -
  have "n \<le> ps - pos mod ps" using assms(2) by simp
  moreover have "pos div ps * ps + pos mod ps = pos" by simp
  ultimately show ?thesis
    by (simp add: page_of_def drop_take min_absorb1 add.commute)
qed

subsection \<open>Reading through a source that honours the contract\<close>

context page_source_safe
begin

lemma serve_step_good:
  assumes "good st" "serve_step S ps offset want done buf st = Continue done' buf' st'"
  shows "good st' \<and> content st' = content st \<and> src_page_size S st' = src_page_size S st"
  using assms(2) by (rule serve_step_Continue) (use assms(1) read_frame in blast)

lemma serve_step_true:
  assumes good: "good st" and ps: "src_page_size S st = ps"
    and step: "serve_step S ps offset want done buf st = Continue done' buf' st'"
    and window: "take done buf = take done (drop (unat offset) (content st))"
    and lt: "done < want" "want < 2 ^ 64"
  shows "take done' buf' = take done' (drop (unat offset) (content st))"
  using step
proof (rule serve_step_Continue)
  fix page n
  let ?pos = "unat offset + done"
  assume fits: "unat offset + unat (word_of_nat done :: u64) < 2 ^ 64"
    and page: "src_read_page S st ((offset + word_of_nat done) div ps) = (Inr page, st')"
    and n: "n = min (length page - unat ((offset + word_of_nat done) mod ps)) (want - done)"
    and done': "done' = done + n" "done + n \<le> length buf"
    and buf': "buf' = take done buf @ take n (drop (unat ((offset + word_of_nat done) mod ps)) page)
       @ drop (done + n) buf"
  have pos: "unat ((offset + word_of_nat done) div ps) = ?pos div unat ps"
    "unat ((offset + word_of_nat done) mod ps) = ?pos mod unat ps"
    using step_position [OF fits] lt by simp_all
  have page': "page = page_of (unat ps) (content st) (?pos div unat ps)"
    using read_true [OF good page] ps pos(1) by simp
  have pos0: "0 < unat ps" using size_pos [OF good] ps by (simp add: word_less_nat_alt)
  have "n \<le> length page - ?pos mod unat ps" using n pos(2) by simp
  then have xs: "take n (drop (?pos mod unat ps) page) = take n (drop ?pos (content st))"
    unfolding page' by (rule page_window [OF pos0])
  have "done \<le> length (content st) - unat offset"
    using arg_cong [OF window, of length] done'(2) by simp
  moreover have "n \<le> length (content st) - ?pos"
  proof -
    have "n \<le> length (page_of (unat ps) (content st) (?pos div unat ps)) - ?pos mod unat ps"
      using \<open>n \<le> length page - ?pos mod unat ps\<close> page' by simp
    also have "\<dots> \<le> length (content st) - ?pos"
    proof -
      have "min (unat ps) (length (content st) - a * unat ps) - m \<le> length (content st) - (a * unat ps + m)"
        for a m by auto
      from this [of "?pos div unat ps" "?pos mod unat ps"] show ?thesis
        by (simp only: length_page_of div_mult_mod_eq)
    qed
    finally show ?thesis .
  qed
  ultimately have "done + n \<le> length (content st) - unat offset" by auto
  from window_append [OF window done'(2) this xs] show ?thesis
    by (simp add: buf' done'(1) pos(2))
qed

lemma serve_loop_true:
  assumes "serve_loop S ps offset want 0 buf st = (r, buf', st')"
    and "good st" "src_page_size S st = ps" "want < 2 ^ 64"
  shows "good st' \<and> content st' = content st \<and>
    (\<forall>n. r = Ok n \<longrightarrow> take n buf' = take n (drop (unat offset) (content st)))"
  using assms(1)
proof (rule serve_loop_rule [where I = "\<lambda>d b s. good s \<and> content s = content st \<and>
    src_page_size S s = ps \<and> take d b = take d (drop (unat offset) (content st))"])
  fix d b s d' b' s'
  assume I: "good s \<and> content s = content st \<and> src_page_size S s = ps \<and>
      take d b = take d (drop (unat offset) (content st))" and lt: "d < want"
    and step: "serve_step S ps offset want d b s = Continue d' b' s'"
  have "take d' b' = take d' (drop (unat offset) (content s))"
    using I lt assms(4) by (intro serve_step_true [OF _ _ step]) simp_all
  with I serve_step_good [OF _ step]
  show "good s' \<and> content s' = content st \<and> src_page_size S s' = ps \<and>
      take d' b' = take d' (drop (unat offset) (content st))" by simp
next
  fix d b s
  assume I: "good s \<and> content s = content st \<and> src_page_size S s = ps \<and>
      take d b = take d (drop (unat offset) (content st))"
    and stop: "serve_step S ps offset want d b s = Stop r buf' st'"
  have "good (snd (src_read_page S s p)) \<and> content (snd (src_read_page S s p)) = content s" for p
    using I read_frame [of s p] by (cases "src_read_page S s p") simp
  with serve_step_Stop_state [OF stop] have "good st' \<and> content st' = content st"
    using I by auto
  moreover have "r \<noteq> Ok n" for n using stop by (rule serve_step_Stop_not_Ok)
  ultimately show ?thesis by simp
qed (use assms in auto)

lemma serve_read_safe:
  assumes "serve_read S total_len offset buf st = (Ok n, buf', st')"
    and "good st" "length buf < 2 ^ 64"
  shows "buf' = take n (drop (unat offset) (content st)) @ drop n buf"
    and "good st' \<and> content st' = content st"
proof -
  let ?w = "clamp (unat total_len) (unat offset) (length buf)"
  have n: "n = ?w" by (rule serve_read_Ok [OF assms(1,3)])
  have "take n buf' = take n (drop (unat offset) (content st)) \<and> good st' \<and> content st' = content st"
    using assms(1,3)
  proof (cases rule: serve_read_cases)
    case none
    with n assms(2) show ?thesis by simp
  next
    case zero
    then show ?thesis by simp
  next
    case loop
    have "?w < 2 ^ 64" using assms(3) by (simp add: clamp_def)
    then show ?thesis using serve_loop_true [OF loop(4) assms(2)] by auto
  qed
  moreover have "drop n buf' = drop n buf"
    using serve_read_frame [OF assms(1,3)] n by simp
  ultimately show "buf' = take n (drop (unat offset) (content st)) @ drop n buf"
    and "good st' \<and> content st' = content st"
    by (metis append_take_drop_id)+
qed

end

context page_source_live
begin

lemma serve_step_live:
  assumes good: "good st" and ps: "src_page_size S st = ps"
    and len: "unat offset + want \<le> length (content st)" "unat offset + want < 2 ^ 64"
    and lt: "done < want" "want \<le> length buf"
  shows "serve_step S ps offset want done buf st \<noteq> Stop r buf' st'"
proof -
  let ?pos = "unat offset + done"
  have d64: "done < 2 ^ 64" using len lt by linarith
  have fits: "unat offset + unat (word_of_nat done :: u64) < 2 ^ 64"
    using unat_of_nat_u64 [OF d64] len lt by linarith
  note pos = step_position [OF fits d64, of ps]
  have "0 < ps" using size_pos [OF good] ps by simp
  then have ps0: "ps \<noteq> 0" "0 < unat ps" by (auto simp: word_less_nat_alt)
  have "?pos div unat ps * unat ps \<le> ?pos" by simp
  also have "?pos < length (content st)" using len(1) lt(1) by linarith
  finally obtain page s where page:
    "src_read_page S st ((offset + word_of_nat done) div ps) = (Inr page, s)"
    using read_live [OF good, of "(offset + word_of_nat done) div ps"] ps pos(1) by auto
  have page': "page = page_of (unat ps) (content st) (?pos div unat ps)"
    using read_true [OF good page] ps pos(1) by simp
  have "?pos mod unat ps + ?pos div unat ps * unat ps < length (content st)"
    using len(1) lt(1) by simp
  then have off: "unat ((offset + word_of_nat done) mod ps) < length page"
    unfolding page' pos(2) length_page_of min_less_iff_conj using ps0(2) by (simp add: less_diff_conv)
  have "length page \<le> unat ps" by (simp add: page')
  with ps0 off lt fits show ?thesis
    by (auto simp: serve_step_def checked_add_def page usize_sub_def Let_def copy_slice_None
        split: option.splits)
qed

lemma serve_read_live:
  assumes "good st" "unat total_len \<le> length (content st)" "length buf < 2 ^ 64"
  shows "fst (serve_read S total_len offset buf st) =
    Ok (clamp (unat total_len) (unat offset) (length buf))"
proof -
  let ?w = "clamp (unat total_len) (unat offset) (length buf)"
  obtain r buf' st' where run: "serve_read S total_len offset buf st = (r, buf', st')"
    by (cases "serve_read S total_len offset buf st") auto
  have "r = Ok ?w"
    using run assms(3)
  proof (cases rule: serve_read_cases)
    case none
    then show ?thesis by simp
  next
    case zero
    then show ?thesis using size_pos [OF assms(1)] by simp
  next
    case loop
    have lt: "unat offset < unat total_len" using loop(2) by (simp add: word_less_nat_alt)
    then have len: "unat offset + ?w \<le> unat total_len" by (simp add: clamp_def)
    have w: "?w \<le> length buf" by (simp add: clamp_def)
    show ?thesis using loop(4)
    proof (rule serve_loop_rule [where I = "\<lambda>d b s. good s \<and> content s = content st \<and>
        src_page_size S s = src_page_size S st \<and> d \<le> ?w \<and> length b = length buf"])
      fix d b s d' b' s'
      assume "good s \<and> content s = content st \<and> src_page_size S s = src_page_size S st \<and>
          d \<le> ?w \<and> length b = length buf" "d < ?w"
        and step: "serve_step S (src_page_size S st) offset ?w d b s = Continue d' b' s'"
      then show "good s' \<and> content s' = content st \<and> src_page_size S s' = src_page_size S st \<and>
          d' \<le> ?w \<and> length b' = length buf"
        using serve_step_good [OF _ step] serve_step_frame [OF step] serve_step_progress [OF step]
        by simp
    next
      fix d b s
      assume I: "good s \<and> content s = content st \<and> src_page_size S s = src_page_size S st \<and>
          d \<le> ?w \<and> length b = length buf" "d < ?w"
        and stop: "serve_step S (src_page_size S st) offset ?w d b s = Stop r buf' st'"
      have "serve_step S (src_page_size S st) offset ?w d b s \<noteq> Stop r buf' st'"
        using I len w assms(2) le_less_trans [OF len unat_lt_2p64]
        by (intro serve_step_live) simp_all
      with stop show ?thesis by simp
    qed (use assms in auto)
  qed
  with run show ?thesis by simp
qed

end

subsection \<open>A source without state, however hostile\<close>

text \<open>A source whose answers depend on the page number only; nothing is said of the answers.\<close>

definition stateless :: "u64 \<Rightarrow> (u64 \<Rightarrow> vfs_error + bytes) \<Rightarrow> unit page_source" where
  "stateless ps rd =
     \<lparr>src_page_size = (\<lambda>_. ps), src_read_page = (\<lambda>st p. (rd p, st)), src_prefetch = (\<lambda>st _. st)\<rparr>"

lemma stateless_simps [simp]:
  "src_page_size (stateless ps rd) st = ps"
  "src_read_page (stateless ps rd) st p = (rd p, st)"
  by (simp_all add: stateless_def)

text \<open>
  Byte \<open>i\<close> of the window can be served: its page comes back, is not larger than a page, and holds
  the byte. \<open>page_byte\<close> is the byte that page holds there.
\<close>

definition servable :: "(u64 \<Rightarrow> vfs_error + bytes) \<Rightarrow> nat \<Rightarrow> nat \<Rightarrow> bool" where
  "servable rd ps pos =
     (case rd (word_of_nat (pos div ps)) of
        Inl _ \<Rightarrow> False
      | Inr page \<Rightarrow> length page \<le> ps \<and> pos mod ps < length page)"

definition page_byte :: "(u64 \<Rightarrow> vfs_error + bytes) \<Rightarrow> nat \<Rightarrow> nat \<Rightarrow> u8 option" where
  "page_byte rd ps pos =
     (case rd (word_of_nat (pos div ps)) of
        Inl _ \<Rightarrow> None
      | Inr page \<Rightarrow> if pos mod ps < length page then Some (page ! (pos mod ps)) else None)"

lemma word_div_eq_of_nat:
  fixes offset ps :: u64
  assumes "unat offset + d < 2 ^ 64"
  shows "(offset + word_of_nat d) div ps = word_of_nat ((unat offset + d) div unat ps)"
    and "unat ((offset + word_of_nat d) mod ps) = (unat offset + d) mod unat ps"
proof -
  have d: "d < 2 ^ 64" using assms by linarith
  then have fits: "unat offset + unat (word_of_nat d :: u64) < 2 ^ 64"
    using assms by (simp only: unat_of_nat_u64)
  note pos = step_position [OF fits d, of ps]
  have "(word_of_nat (unat ((offset + word_of_nat d) div ps)) :: u64) = (offset + word_of_nat d) div ps"
    by simp
  then show "(offset + word_of_nat d) div ps = word_of_nat ((unat offset + d) div unat ps)"
    by (simp only: pos(1))
  from pos(2) show "unat ((offset + word_of_nat d) mod ps) = (unat offset + d) mod unat ps" .
qed

lemma same_page:
  fixes ps :: nat
  assumes "pos mod ps + k < ps"
  shows "(pos + k) div ps = pos div ps" "(pos + k) mod ps = pos mod ps + k"
proof -
  have "pos + k = ps * (pos div ps) + (pos mod ps + k)" by simp
  with assms show "(pos + k) div ps = pos div ps" "(pos + k) mod ps = pos mod ps + k"
    by (metis div_less div_mult_self4 add_0_right bot_nat_0.not_eq_extremum less_nat_zero_code)
      (metis assms mod_add_left_eq mod_less)
qed

lemma serve_step_stateless:
  assumes step: "serve_step (stateless ps rd) ps offset want done buf st = Continue done' buf' st'"
    and fits: "unat offset + want < 2 ^ 64" and lt: "done < want"
    and i: "done \<le> i" "i < done'"
  shows "servable rd (unat ps) (unat offset + i)"
    and "page_byte rd (unat ps) (unat offset + i) = Some (buf' ! i)"
proof -
  have d: "unat offset + done < 2 ^ 64" using fits lt by linarith
  note pos = word_div_eq_of_nat [OF d, of ps]
  let ?pos = "unat offset + done"
  obtain page n where
    page: "rd (word_of_nat (?pos div unat ps)) = Inr page" and small: "length page \<le> unat ps"
    and n: "n = min (length page - ?pos mod unat ps) (want - done)" and d': "done' = done + n"
    and room: "done + n \<le> length buf"
    and b: "buf' = take done buf @ take n (drop (?pos mod unat ps) page) @ drop (done + n) buf"
    by (rule serve_step_Continue [OF step]) (rule that, simp_all only: pos stateless_simps prod.inject)
  define k where "k = i - done"
  have k: "i = done + k" "k < n" using i d' by (simp_all add: k_def)
  have "?pos mod unat ps + k < length page" using k(2) n by linarith
  note same = same_page [of ?pos "unat ps" k]
  have ik: "unat offset + i = ?pos + k" using k(1) by simp
  show "servable rd (unat ps) (unat offset + i)"
    unfolding ik servable_def using same \<open>?pos mod unat ps + k < length page\<close> small
    by (simp add: page)
  have "buf' ! i = page ! (?pos mod unat ps + k)"
    using k room less_diff_conv [THEN iffD2, of k "?pos mod unat ps" "length page"]
      \<open>?pos mod unat ps + k < length page\<close>
    by (simp add: b nth_append add.commute)
  then show "page_byte rd (unat ps) (unat offset + i) = Some (buf' ! i)"
    unfolding ik page_byte_def using same \<open>?pos mod unat ps + k < length page\<close> small
    by (simp add: page)
qed

lemma serve_loop_stateless:
  assumes run: "serve_loop (stateless ps rd) ps offset want 0 buf st = (Ok n, buf', st')"
    and fits: "unat offset + want < 2 ^ 64" and i: "i < want"
  shows "servable rd (unat ps) (unat offset + i) \<and>
    page_byte rd (unat ps) (unat offset + i) = Some (buf' ! i)"
  using run
proof (rule serve_loop_rule [where I = "\<lambda>d b s. \<forall>i<d. servable rd (unat ps) (unat offset + i) \<and>
    page_byte rd (unat ps) (unat offset + i) = Some (b ! i)"])
  fix d b s d' b' s'
  assume I: "\<forall>i<d. servable rd (unat ps) (unat offset + i) \<and>
      page_byte rd (unat ps) (unat offset + i) = Some (b ! i)"
    and lt: "d < want" and step: "serve_step (stateless ps rd) ps offset want d b s = Continue d' b' s'"
  have "take d b' = take d b" using serve_step_frame [OF step] by simp
  moreover have "d \<le> length b" using step by (rule serve_step_Continue) simp
  ultimately have "b' ! j = b ! j" if "j < d" for j using that by (metis nth_take)
  with I serve_step_stateless [OF step fits lt]
  show "\<forall>i<d'. servable rd (unat ps) (unat offset + i) \<and>
      page_byte rd (unat ps) (unat offset + i) = Some (b' ! i)"
    by (metis not_le)
qed (use i in \<open>auto dest: serve_step_Stop_not_Ok\<close>)

lemma serve_step_servable:
  assumes "servable rd (unat ps) (unat offset + done)" "ps \<noteq> 0" "done < want" "want \<le> length buf"
    and "unat offset + want < 2 ^ 64"
  shows "serve_step (stateless ps rd) ps offset want done buf st \<noteq> Stop r buf' st'"
proof -
  have d: "unat offset + done < 2 ^ 64" "done < 2 ^ 64" using assms(3,5) by linarith+
  have fits: "unat offset + unat (word_of_nat done :: u64) < 2 ^ 64"
    using d unat_of_nat_u64 by simp
  from assms(1) obtain page where
    "rd ((offset + word_of_nat done) div ps) = Inr page" "length page \<le> unat ps"
    "unat ((offset + word_of_nat done) mod ps) < length page"
    by (auto simp: servable_def word_div_eq_of_nat [OF d(1)] split: sum.splits)
  with fits assms(2-4) show ?thesis
    by (auto simp: serve_step_def checked_add_def usize_sub_def Let_def copy_slice_None
        split: option.splits)
qed

text \<open>
  The converse: if every byte of the window is servable, no iteration stops, so the loop serves
  the whole window.
\<close>

lemma serve_loop_servable:
  assumes run: "serve_loop (stateless ps rd) ps offset want 0 buf st = (r, buf', st')"
    and all: "\<And>i. i < want \<Longrightarrow> servable rd (unat ps) (unat offset + i)"
    and "ps \<noteq> 0" "want \<le> length buf" "unat offset + want < 2 ^ 64"
  shows "r = Ok want"
  using run
proof (rule serve_loop_rule [where I = "\<lambda>d b s. d \<le> want \<and> length b = length buf"])
  fix d b s
  assume "d < want" "d \<le> want \<and> length b = length buf"
    and stop: "serve_step (stateless ps rd) ps offset want d b s = Stop r buf' st'"
  then have "serve_step (stateless ps rd) ps offset want d b s \<noteq> Stop r buf' st'"
    using assms by (intro serve_step_servable) simp_all
  with stop show ?thesis by simp
next
  fix d b s d' b' s'
  assume "d < want" "d \<le> want \<and> length b = length buf"
    and step: "serve_step (stateless ps rd) ps offset want d b s = Continue d' b' s'"
  then show "d' \<le> want \<and> length b' = length buf"
    using serve_step_progress [OF step] serve_step_frame [OF step] by simp
qed simp_all

subsection \<open>The guarantees of the read boundary\<close>

text \<open>C7: for every source, however it misbehaves, and every offset, file length and buffer,
  \<open>serve_read\<close> does not panic, leaves the buffer's length and every byte past the requested window
  alone, and reports exactly the window's size when it reports success.\<close>

theorem serve_read_contained:
  assumes "serve_read S total_len offset buf st = (r, buf', st')" "length buf \<le> isize_max"
  shows "r \<noteq> Panic \<and> length buf' = length buf \<and>
    drop (clamp (unat total_len) (unat offset) (length buf)) buf' =
      drop (clamp (unat total_len) (unat offset) (length buf)) buf \<and>
    (\<forall>n. r = Ok n \<longrightarrow> n = clamp (unat total_len) (unat offset) (length buf))"
proof -
  have "length buf < 2 ^ 64" using assms(2) by (simp add: isize_max_def)
  then show ?thesis
    using serve_read_no_panic [of S total_len offset buf st] serve_read_frame [OF assms(1)]
      serve_read_Ok [of S total_len offset buf st _ buf' st'] assms(1)
    by auto
qed

lemma demo_loop:
  "serve_loop (stateless 4 (\<lambda>p. if p = 0 then Inr [1, 2, 3, 4] else Inr [5, 6])) 4 3 3 0 [0, 0, 0, 0] ()
     = (Ok 3, [4, 5, 6, 0], ())"
  by (simp add: serve_loop.simps serve_step_def checked_add_def usize_sub_def copy_slice_def slice_def)

lemma demo_read:
  "serve_read (stateless 4 (\<lambda>p. if p = 0 then Inr [1, 2, 3, 4] else Inr [5, 6])) 6 3 [0, 0, 0, 0] ()
     = (Ok 3, [4, 5, 6, 0], ())"
  by (simp add: serve_read_def Let_def demo_loop min_def)

lemma serve_read_contained_witness:
  "(Ok 3 :: (vfs_error, nat) outcome) \<noteq> Panic \<and> drop (clamp 6 3 4) [4, 5, 6, 0 :: u8] = drop (clamp 6 3 4) [0, 0, 0, 0]"
  using serve_read_contained [OF demo_read] by (simp add: isize_max_def clamp_def)

text \<open>Success over a source without state, byte by byte.\<close>

lemma serve_read_servable:
  assumes "ps \<noteq> 0" "length buf \<le> isize_max"
  shows "(\<exists>n. fst (serve_read (stateless ps rd) total_len offset buf st) = Ok n) \<longleftrightarrow>
    (\<forall>i < clamp (unat total_len) (unat offset) (length buf). servable rd (unat ps) (unat offset + i))"
proof -
  let ?w = "clamp (unat total_len) (unat offset) (length buf)"
  have len: "length buf < 2 ^ 64" using assms(2) by (simp add: isize_max_def)
  obtain r buf' st' where run: "serve_read (stateless ps rd) total_len offset buf st = (r, buf', st')"
    by (cases "serve_read (stateless ps rd) total_len offset buf st") auto
  from run len have "(\<exists>n. r = Ok n) \<longleftrightarrow> (\<forall>i < ?w. servable rd (unat ps) (unat offset + i))"
  proof (cases rule: serve_read_cases)
    case none
    then show ?thesis by simp
  next
    case zero
    with assms(1) show ?thesis by simp
  next
    case loop
    have fits: "unat offset + ?w < 2 ^ 64"
      using clamp_fits [OF loop(2)] by simp
    note loop' = loop(4) [unfolded stateless_simps]
    show ?thesis
    proof
      assume "\<exists>n. r = Ok n"
      then show "\<forall>i < ?w. servable rd (unat ps) (unat offset + i)"
        using serve_loop_stateless [of ps rd offset ?w buf st _ buf' st'] loop' fits by auto
    next
      assume "\<forall>i < ?w. servable rd (unat ps) (unat offset + i)"
      then show "\<exists>n. r = Ok n"
        using serve_loop_servable [OF loop' _ assms(1) _ fits] by (simp add: clamp_def)
    qed
  qed
  with run show ?thesis by simp
qed

text \<open>C29: a read over a source without state, honest or hostile, succeeds exactly when every byte
  of the window is on a page that comes back, is not oversized and reaches that byte; no other
  page can make it fail and no short, oversized or failed page is papered over.\<close>

theorem serve_read_succeeds_iff:
  assumes "ps \<noteq> 0" "length buf \<le> isize_max"
  shows "(\<exists>n. fst (serve_read (stateless ps rd) total_len offset buf st) = Ok n) \<longleftrightarrow>
    (\<forall>i < clamp (unat total_len) (unat offset) (length buf). servable rd (unat ps) (unat offset + i))"
  by (rule serve_read_servable [OF assms])

lemma serve_read_succeeds_iff_witness:
  "\<not> (\<exists>n. fst (serve_read (stateless 4 (\<lambda>_. Inr [1, 2, 3])) 6 2 [0, 0] ()) = Ok n)"
  by (subst serve_read_succeeds_iff)
    (auto simp: isize_max_def clamp_def servable_def intro!: exI [of _ "1::nat"])

text \<open>The bytes of a success.\<close>

lemma serve_read_page_bytes:
  assumes "serve_read (stateless ps rd) total_len offset buf st = (Ok n, buf', st')"
    and "length buf \<le> isize_max" "i < n"
  shows "page_byte rd (unat ps) (unat offset + i) = Some (buf' ! i)"
proof -
  let ?w = "clamp (unat total_len) (unat offset) (length buf)"
  have len: "length buf < 2 ^ 64" using assms(2) by (simp add: isize_max_def)
  have n: "n = ?w" by (rule serve_read_Ok [OF assms(1) len])
  show ?thesis
    using assms(1) len
  proof (cases rule: serve_read_cases)
    case loop
    then show ?thesis
      using serve_loop_stateless [OF loop(4) [unfolded stateless_simps] clamp_fits [OF loop(2)]] assms(3) n
      by simp
  qed (use assms(3) n in auto)
qed

text \<open>Whatever the pages hold, byte \<open>i\<close> of a successful read is the byte at offset
  \<open>(offset + i) mod page_size\<close> of page \<open>(offset + i) div page_size\<close>: never another page's byte.\<close>

theorem serve_read_bytes_from_pages:
  assumes "serve_read (stateless ps rd) total_len offset buf st = (Ok n, buf', st')"
    and "length buf \<le> isize_max" "i < n"
  shows "page_byte rd (unat ps) (unat offset + i) = Some (buf' ! i)"
  by (rule serve_read_page_bytes [OF assms])

lemma serve_read_bytes_from_pages_witness:
  "page_byte (\<lambda>p. if p = 0 then Inr [1, 2, 3, 4] else Inr [5, 6]) (unat (4 :: u64)) (unat (3 :: u64) + 1)
     = Some ([4, 5, 6, 0] ! 1)"
  by (rule serve_read_bytes_from_pages [OF demo_read]) (simp_all add: isize_max_def)

end
