(* ===== verification/Vfs_Tiered.thy ===== *)
theory Vfs_Tiered
  imports Vfs_Read "HOL-Library.Multiset"
begin

section \<open>The tiered page source\<close>

text \<open>
  \<open>crates/flock-vfs/src/tiered.rs\<close>: \<open>TieredPageSource\<close> faults pages through substrate's pager. The
  pager and the tiered store under it are not part of this repository, so they are a record of
  the calls the source makes, over a state of their own (cache and counters). What the source
  relies on is \<open>pager_serves\<close> (a page that comes back is the file's page, hash-verified by
  substrate) and \<open>pager_available\<close> (a page of the file does come back).

  Two models of \<open>prefetch\<close> are here. The page source's method takes the order in which the faults
  reach the store as an argument; the machine \<open>pf_step\<close> is the concurrent code itself, the cursor
  the workers share, the striped fault gates and the pages being filled, and shows that the order
  is always a permutation of the pages asked for.
\<close>

datatype manifest_id = ManifestId bytes

record 'x tiered_ops =
  to_page_size :: "'x \<Rightarrow> u64"
  to_head :: "'x \<Rightarrow> manifest_id"
  to_read :: "'x \<Rightarrow> manifest_id \<Rightarrow> u64 \<Rightarrow> (pager_error + bytes) \<times> 'x"
  to_misses :: "'x \<Rightarrow> u64"
  to_hits :: "'x \<Rightarrow> u64"

definition PREFETCH_FANOUT :: nat where
  "PREFETCH_FANOUT = 16"

definition FAULT_STRIPES :: nat where
  "FAULT_STRIPES = 1024"

record 'x tiered_page_source =
  ts_store :: 'x
  ts_total_len :: u64
  ts_fault_gates :: nat

definition new_tiered :: "'x \<Rightarrow> u64 \<Rightarrow> 'x tiered_page_source" where
  "new_tiered store total_len =
     \<lparr>ts_store = store, ts_total_len = total_len, ts_fault_gates = FAULT_STRIPES\<rparr>"

text \<open>The gate of a page; the array holds one gate per stripe.\<close>

definition gate_of :: "u64 \<Rightarrow> nat" where
  "gate_of page_no = unat page_no mod FAULT_STRIPES"

lemma gate_of_lt: "gate_of page_no < FAULT_STRIPES"
  by (simp add: gate_of_def FAULT_STRIPES_def)

text \<open>
  One fault: read the head, take the gate, read the page under it. The gate is released on
  return and guards no data, so it does not appear in the sequential result.
\<close>

definition tiered_read_page ::
  "'x tiered_ops \<Rightarrow> 'x tiered_page_source \<Rightarrow> u64 \<Rightarrow> (vfs_error + bytes) \<times> 'x tiered_page_source" where
  "tiered_read_page P t page_no =
     (let head = to_head P (ts_store t)
      in case to_read P (ts_store t) head page_no of
           (r, x) \<Rightarrow> (map_err (Fault page_no) r, t\<lparr>ts_store := x\<rparr>))"

definition tiered_prefetch ::
  "'x tiered_ops \<Rightarrow> (u64 list \<Rightarrow> u64 list) \<Rightarrow> 'x tiered_page_source \<Rightarrow> u64 list \<Rightarrow> 'x tiered_page_source" where
  "tiered_prefetch P order t pages =
     (if pages = [] then t else default_prefetch (tiered_read_page P) t (order pages))"

definition tiered_source ::
  "'x tiered_ops \<Rightarrow> (u64 list \<Rightarrow> u64 list) \<Rightarrow> 'x tiered_page_source page_source" where
  "tiered_source P order =
     \<lparr>src_page_size = (\<lambda>t. to_page_size P (ts_store t)),
      src_read_page = tiered_read_page P,
      src_prefetch = tiered_prefetch P order\<rparr>"

lemma tiered_source_simps [simp]:
  "src_page_size (tiered_source P order) t = to_page_size P (ts_store t)"
  "src_read_page (tiered_source P order) = tiered_read_page P"
  "src_prefetch (tiered_source P order) = tiered_prefetch P order"
  by (simp_all add: tiered_source_def)

subsection \<open>What the source relies on, and the contract it provides\<close>

text \<open>
  Substrate's documented behaviour at the head the store was woken at: a read leaves the page size
  and the head alone, keeps the store in the states the statement is about (\<open>I\<close>), and what it
  returns, if anything, is the page of the slept file.
\<close>

definition pager_serves :: "'x tiered_ops \<Rightarrow> ('x \<Rightarrow> bool) \<Rightarrow> bytes \<Rightarrow> bool" where
  "pager_serves P I f \<longleftrightarrow> (\<forall>x. I x \<longrightarrow> 0 < to_page_size P x \<and>
     (\<forall>p r x'. to_read P x (to_head P x) p = (r, x') \<longrightarrow>
        I x' \<and> to_page_size P x' = to_page_size P x \<and>
        (\<forall>b. r = Inr b \<longrightarrow> b = page_of (unat (to_page_size P x)) f (unat p))))"

definition pager_available :: "'x tiered_ops \<Rightarrow> ('x \<Rightarrow> bool) \<Rightarrow> bytes \<Rightarrow> bool" where
  "pager_available P I f \<longleftrightarrow> (\<forall>x p. I x \<longrightarrow> unat p * unat (to_page_size P x) < length f \<longrightarrow>
     (\<exists>b x'. to_read P x (to_head P x) p = (Inr b, x')))"

lemma tiered_read_page_frame:
  assumes "pager_serves P I f" "I (ts_store t)" "tiered_read_page P t p = (r, t')"
  shows "I (ts_store t') \<and> to_page_size P (ts_store t') = to_page_size P (ts_store t) \<and>
    ts_total_len t' = ts_total_len t \<and>
    (\<forall>b. r = Inr b \<longrightarrow> b = page_of (unat (to_page_size P (ts_store t))) f (unat p))"
proof -
  obtain q x where q: "to_read P (ts_store t) (to_head P (ts_store t)) p = (q, x)" by fastforce
  with assms(3) have "r = map_err (Fault p) q" "t' = t\<lparr>ts_store := x\<rparr>"
    by (auto simp: tiered_read_page_def Let_def)
  with assms(1,2) q show ?thesis by (simp add: pager_serves_def)
qed

lemma tiered_prefetch_frame:
  assumes "pager_serves P I f" "I (ts_store t)"
  shows "I (ts_store (default_prefetch (tiered_read_page P) t pages)) \<and>
    to_page_size P (ts_store (default_prefetch (tiered_read_page P) t pages)) = to_page_size P (ts_store t) \<and>
    ts_total_len (default_prefetch (tiered_read_page P) t pages) = ts_total_len t"
  using assms(2)
proof (induction pages arbitrary: t)
  case Nil
  then show ?case by simp
next
  case (Cons p pages)
  obtain r t' where rd: "tiered_read_page P t p = (r, t')" by fastforce
  from tiered_read_page_frame [OF assms(1) Cons.prems rd] Cons.IH [of t']
  show ?case by (simp add: rd)
qed

interpretation tiered_safe: page_source_safe "tiered_source P order"
  "\<lambda>t. pager_serves P I f \<and> I (ts_store t)" "\<lambda>_. f" for P order I f
proof
  fix st :: "'a tiered_page_source"
  assume "pager_serves P I f \<and> I (ts_store st)"
  then show "0 < src_page_size (tiered_source P order) st" by (simp add: pager_serves_def)
next
  fix st st' :: "'a tiered_page_source" and p page
  assume "pager_serves P I f \<and> I (ts_store st)"
    "src_read_page (tiered_source P order) st p = (Inr page, st')"
  then show "page = page_of (unat (src_page_size (tiered_source P order) st)) f (unat p)"
    by (auto dest: tiered_read_page_frame)
next
  fix st st' :: "'a tiered_page_source" and p r
  assume "pager_serves P I f \<and> I (ts_store st)"
    "src_read_page (tiered_source P order) st p = (r, st')"
  then show "(pager_serves P I f \<and> I (ts_store st')) \<and> f = f \<and>
      src_page_size (tiered_source P order) st' = src_page_size (tiered_source P order) st"
    by (auto dest: tiered_read_page_frame)
next
  fix st :: "'a tiered_page_source" and pages
  assume "pager_serves P I f \<and> I (ts_store st)"
  then show "(pager_serves P I f \<and> I (ts_store (src_prefetch (tiered_source P order) st pages))) \<and>
      f = f \<and> src_page_size (tiered_source P order) (src_prefetch (tiered_source P order) st pages) =
        src_page_size (tiered_source P order) st"
    using tiered_prefetch_frame [of P I f st "order pages"] by (auto simp: tiered_prefetch_def)
qed

interpretation tiered_live: page_source_live "tiered_source P order"
  "\<lambda>t. (pager_serves P I f \<and> pager_available P I f) \<and> I (ts_store t)" "\<lambda>_. f" for P order I f
proof (rule page_source_live.intro)
  note safe = tiered_safe.size_pos [of P I f _ order] tiered_safe.read_true [of P I f _ order]
    tiered_safe.read_frame [of P I f _ order] tiered_safe.prefetch_frame [of P I f _ order]
  show "page_source_safe (tiered_source P order)
    (\<lambda>t. (pager_serves P I f \<and> pager_available P I f) \<and> I (ts_store t)) (\<lambda>_. f)"
    by unfold_locales (use safe in auto)
next
  show "page_source_live_axioms (tiered_source P order)
    (\<lambda>t. (pager_serves P I f \<and> pager_available P I f) \<and> I (ts_store t)) (\<lambda>_. f)"
  proof
    fix st :: "'a tiered_page_source" and p :: u64
    assume "(pager_serves P I f \<and> pager_available P I f) \<and> I (ts_store st)"
      "unat p * unat (src_page_size (tiered_source P order) st) < length f"
    then show "\<exists>page st'. src_read_page (tiered_source P order) st p = (Inr page, st')"
      by (fastforce simp: pager_available_def tiered_read_page_def Let_def)
  qed
qed

subsection \<open>Reads of a woken database\<close>

text \<open>A pager over a small file, kept for the concrete instances.\<close>

definition demo_pager :: "bytes \<Rightarrow> nat tiered_ops" where
  "demo_pager f =
     \<lparr>to_page_size = (\<lambda>_. 4), to_head = (\<lambda>_. ManifestId []),
      to_read = (\<lambda>x h p. (Inr (page_of 4 f (unat p)), Suc x)),
      to_misses = word_of_nat, to_hits = (\<lambda>_. 0)\<rparr>"

lemma demo_pager_serves: "pager_serves (demo_pager f) (\<lambda>_. True) f"
  by (auto simp: pager_serves_def demo_pager_def)

lemma demo_pager_available: "pager_available (demo_pager f) (\<lambda>_. True) f"
  by (auto simp: pager_available_def demo_pager_def)

text \<open>C10: a woken database reads exactly as the slept file does. When substrate serves the file's
  pages, \<open>serve_read\<close> over the tiered source is \<open>pread\<close> of the file: the clamped count, those bytes
  of the file in the buffer's prefix, the rest of the buffer untouched, and the store still good.\<close>

theorem tiered_pread_exact:
  assumes "pager_serves P I f" "pager_available P I f" "I (ts_store t)"
    and "unat (ts_total_len t) = length f" "length buf \<le> isize_max"
    and "serve_read (tiered_source P order) (ts_total_len t) offset buf t = (r, buf', t')"
  shows "r = Ok (clamp (length f) (unat offset) (length buf)) \<and>
    buf' = take (clamp (length f) (unat offset) (length buf)) (drop (unat offset) f) @
      drop (clamp (length f) (unat offset) (length buf)) buf \<and> I (ts_store t')"
proof -
  have len: "length buf < 2 ^ 64" using assms(5) by (simp add: isize_max_def)
  have good: "(pager_serves P I f \<and> pager_available P I f) \<and> I (ts_store t)"
    using assms(1-3) by simp
  have r: "r = Ok (clamp (length f) (unat offset) (length buf))"
    using tiered_live.serve_read_live [OF good, of "ts_total_len t" buf order offset] assms(4,6) len by simp
  have safe: "pager_serves P I f \<and> I (ts_store t)" using assms(1,3) by simp
  from tiered_safe.serve_read_safe [OF assms(6) [unfolded r] safe len] r show ?thesis by simp
qed

lemma tiered_pread_exact_witness:
  "fst (serve_read (tiered_source (demo_pager [1, 2, 3, 4, 5, 6]) id) 6 3 [0, 0, 0, 0] (new_tiered 0 6)) = Ok 3"
proof -
  obtain r buf' t' where run:
    "serve_read (tiered_source (demo_pager [1, 2, 3, 4, 5, 6]) id) 6 3 [0, 0, 0, 0] (new_tiered 0 6) = (r, buf', t')"
    by (cases "serve_read (tiered_source (demo_pager [1, 2, 3, 4, 5, 6]) id) 6 3 [0, 0, 0, 0] (new_tiered 0 6)") auto
  with tiered_pread_exact [OF demo_pager_serves demo_pager_available, of "new_tiered 0 6"
      "[1, 2, 3, 4, 5, 6]" "[0, 0, 0, 0]" id 3 r buf' t']
  show ?thesis by (simp add: new_tiered_def isize_max_def clamp_def)
qed

text \<open>A wrong file length corrupts nothing. Whatever total length the source was given, a read
  that succeeds returned bytes of the slept file at the requested offset and no byte past its end.\<close>

theorem tiered_wrong_length_refused:
  assumes "pager_serves P I f" "I (ts_store t)" "length buf \<le> isize_max"
    and "serve_read (tiered_source P order) total_len offset buf t = (Ok n, buf', t')"
  shows "buf' = take n (drop (unat offset) f) @ drop n buf \<and> (0 < n \<longrightarrow> unat offset + n \<le> length f)"
proof -
  have len: "length buf < 2 ^ 64" using assms(3) by (simp add: isize_max_def)
  have safe: "pager_serves P I f \<and> I (ts_store t)" using assms(1,2) by simp
  have eq: "buf' = take n (drop (unat offset) f) @ drop n buf"
    by (rule tiered_safe.serve_read_safe(1) [OF assms(4) safe len])
  have "n \<le> length buf" using serve_read_Ok [OF assms(4) len] by (simp add: clamp_def)
  moreover have "length buf' = length buf" using serve_read_frame [OF assms(4) len] by simp
  ultimately have "0 < n \<longrightarrow> unat offset + n \<le> length f"
    using arg_cong [OF eq, of length] by (auto simp: min_def split: if_splits)
  with eq show ?thesis by simp
qed

lemma demo_short_file:
  "\<exists>t'. serve_read (tiered_source (demo_pager [1, 2, 3]) id) 9 1 [0, 0] (new_tiered 0 9) = (Ok 2, [2, 3], t')"
  by (simp add: serve_read_def serve_loop.simps serve_step_def checked_add_def usize_sub_def copy_slice_def
      slice_def tiered_source_def tiered_read_page_def demo_pager_def new_tiered_def page_of_def min_def)
    (simp add: word_le_nat_alt)

lemma tiered_wrong_length_refused_witness:
  "unat (1 :: u64) + 2 \<le> length [1, 2, 3 :: u8]"
proof -
  obtain t' where
    "serve_read (tiered_source (demo_pager [1, 2, 3]) id) 9 1 [0, 0] (new_tiered 0 9) = (Ok 2, [2, 3], t')"
    using demo_short_file by blast
  from tiered_wrong_length_refused [OF demo_pager_serves _ _ this] show ?thesis
    by (simp add: isize_max_def)
qed

end
