(* ===== verification/Vfs_Prefetch.thy ===== *)
theory Vfs_Prefetch
  imports Vfs_Tiered
begin

section \<open>Concurrent prefetch: the cursor, the workers and the fault gates\<close>

text \<open>
  \<open>TieredPageSource::prefetch\<close> of \<open>crates/flock-vfs/src/tiered.rs\<close> as the concurrent program it is.
  At most \<open>PREFETCH_FANOUT\<close> workers share an atomic cursor; each takes the next index
  (\<open>fetch_add\<close>), leaves when it is past the end, and otherwise runs \<open>read_page\<close>: read the head,
  take the page's gate, fault the page, release the gate. A step of \<open>pf_step\<close> is one of these
  actions of one worker, in any interleaving. \<open>pf_log\<close> is a history variable, the indices whose
  fault has completed, in order.

  Results: no page is faulted by two workers at once, whenever all workers have left every page
  was faulted exactly once, no reachable state is stuck, and every run is finite.
\<close>

datatype worker =
    Idle
  | Claimed nat
  | Waiting nat manifest_id
  | Filling nat manifest_id
  | Exited

record 'x pf_state =
  pf_cursor :: nat
  pf_workers :: "worker list"
  pf_gates :: "nat \<Rightarrow> nat option"
  pf_store :: 'x
  pf_log :: "nat list"

definition pf_init :: "'x \<Rightarrow> u64 list \<Rightarrow> 'x pf_state" where
  "pf_init x pages =
     \<lparr>pf_cursor = 0, pf_workers = replicate (min (length pages) PREFETCH_FANOUT) Idle,
      pf_gates = (\<lambda>_. None), pf_store = x, pf_log = []\<rparr>"

definition gate_at :: "u64 list \<Rightarrow> nat \<Rightarrow> nat" where
  "gate_at pages i = gate_of (pages ! i)"

inductive pf_step :: "'x tiered_ops \<Rightarrow> u64 list \<Rightarrow> 'x pf_state \<Rightarrow> 'x pf_state \<Rightarrow> bool"
  for P pages where
    pf_claim: "pf_step P pages s
      (s\<lparr>pf_cursor := Suc (pf_cursor s),
         pf_workers := (pf_workers s)[w :=
           (if pf_cursor s < length pages then Claimed (pf_cursor s) else Exited)]\<rparr>)"
    if "w < length (pf_workers s)" "pf_workers s ! w = Idle"
  | pf_head: "pf_step P pages s
      (s\<lparr>pf_workers := (pf_workers s)[w := Waiting i (to_head P (pf_store s))]\<rparr>)"
    if "w < length (pf_workers s)" "pf_workers s ! w = Claimed i"
  | pf_lock: "pf_step P pages s
      (s\<lparr>pf_gates := (pf_gates s)(gate_at pages i := Some w),
         pf_workers := (pf_workers s)[w := Filling i h]\<rparr>)"
    if "w < length (pf_workers s)" "pf_workers s ! w = Waiting i h"
      "pf_gates s (gate_at pages i) = None"
  | pf_fill: "pf_step P pages s
      (s\<lparr>pf_gates := (pf_gates s)(gate_at pages i := None),
         pf_workers := (pf_workers s)[w := Idle],
         pf_store := snd (to_read P (pf_store s) h (pages ! i)),
         pf_log := pf_log s @ [i]\<rparr>)"
    if "w < length (pf_workers s)" "pf_workers s ! w = Filling i h"

definition pf_reach :: "'x tiered_ops \<Rightarrow> u64 list \<Rightarrow> 'x \<Rightarrow> 'x pf_state \<Rightarrow> bool" where
  "pf_reach P pages x s \<longleftrightarrow> rtranclp (pf_step P pages) (pf_init x pages) s"

definition pf_done :: "'x pf_state \<Rightarrow> bool" where
  "pf_done s \<longleftrightarrow> (\<forall>k \<in> set (pf_workers s). k = Exited)"

subsection \<open>The invariant\<close>

text \<open>The index a worker holds, if any.\<close>

fun held :: "worker \<Rightarrow> nat list" where
  "held Idle = []"
| "held (Claimed i) = [i]"
| "held (Waiting i h) = [i]"
| "held (Filling i h) = [i]"
| "held Exited = []"

definition held_all :: "'x pf_state \<Rightarrow> nat multiset" where
  "held_all s = mset (concat (map held (pf_workers s)))"

text \<open>
  Every index below the cursor is held by one worker or completed once; a gate is owned by the
  worker filling a page of its stripe; a worker leaves only when the cursor is past the end.
\<close>

definition pf_inv :: "u64 list \<Rightarrow> 'x pf_state \<Rightarrow> bool" where
  "pf_inv pages s \<longleftrightarrow>
     mset (pf_log s) + held_all s = mset [0..<min (pf_cursor s) (length pages)] \<and>
     (\<forall>g w. pf_gates s g = Some w \<longleftrightarrow>
        (w < length (pf_workers s) \<and>
         (\<exists>i h. pf_workers s ! w = Filling i h \<and> gate_at pages i = g))) \<and>
     (Exited \<in> set (pf_workers s) \<longrightarrow> length pages \<le> pf_cursor s) \<and>
     length (pf_workers s) = min (length pages) PREFETCH_FANOUT"

lemma mset_concat_update:
  "w < length ks \<Longrightarrow>
     mset (concat (map held (ks[w := k]))) + mset (held (ks ! w)) =
     mset (concat (map held ks)) + mset (held k)"
  by (induction ks arbitrary: w) (auto split: nat.split simp: nth_Cons ac_simps)

lemma pf_inv_init: "pf_inv pages (pf_init x pages)"
proof -
  have "concat (map held (replicate n Idle)) = []" for n by (induction n) simp_all
  then show ?thesis by (auto simp: pf_inv_def pf_init_def held_all_def)
qed

lemma held_all_update:
  assumes "w < length (pf_workers s)" "pf_workers s' = (pf_workers s)[w := k]"
  shows "held_all s' + mset (held (pf_workers s ! w)) = held_all s + mset (held k)"
  using mset_concat_update [OF assms(1), of k] by (simp add: held_all_def assms(2))

lemma Exited_update: "Exited \<in> set (ks[w := k]) \<Longrightarrow> k \<noteq> Exited \<Longrightarrow> Exited \<in> set ks"
  using set_update_subset_insert [of ks w k] by auto

text \<open>A gate's owner is the only worker filling a page of its stripe.\<close>

lemma pf_inv_owner:
  "pf_inv pages s \<Longrightarrow> v < length (pf_workers s) \<Longrightarrow> pf_workers s ! v = Filling j k \<Longrightarrow>
     pf_gates s (gate_at pages j) = Some v"
  by (auto simp: pf_inv_def)

lemma pf_inv_step: "pf_step P pages s s' \<Longrightarrow> pf_inv pages s \<Longrightarrow> pf_inv pages s'"
proof (induction rule: pf_step.induct)
  case (pf_claim w s)
  let ?k = "if pf_cursor s < length pages then Claimed (pf_cursor s) else Exited"
  have "mset (concat (map held ((pf_workers s)[w := ?k]))) =
      mset (concat (map held (pf_workers s))) + mset (held ?k)"
    using mset_concat_update [of w "pf_workers s" ?k] pf_claim by simp
  with pf_claim show ?case
    by (auto simp: pf_inv_def held_all_def nth_list_update min_def not_less atLeast0_lessThan_Suc
        dest!: Exited_update split: if_splits)
next
  case (pf_head w s i)
  let ?k = "Waiting i (to_head P (pf_store s))"
  have "mset (concat (map held ((pf_workers s)[w := ?k]))) = mset (concat (map held (pf_workers s)))"
    using mset_concat_update [of w "pf_workers s" ?k] pf_head by simp
  with pf_head show ?case
    by (auto simp: pf_inv_def held_all_def nth_list_update dest!: Exited_update)
next
  case (pf_lock w s i h)
  let ?k = "Filling i h"
  have "mset (concat (map held ((pf_workers s)[w := ?k]))) = mset (concat (map held (pf_workers s)))"
    using mset_concat_update [of w "pf_workers s" ?k] pf_lock by simp
  moreover have "gate_at pages j \<noteq> gate_at pages i"
    if "v < length (pf_workers s)" "pf_workers s ! v = Filling j k" for v j k
    using pf_inv_owner [OF pf_lock.prems that] pf_lock.hyps(3) by auto
  ultimately show ?case using pf_lock
    by (auto simp: pf_inv_def held_all_def nth_list_update dest!: Exited_update)
next
  case (pf_fill w s i h)
  have "add_mset i (mset (concat (map held ((pf_workers s)[w := Idle])))) =
      mset (concat (map held (pf_workers s)))"
    using mset_concat_update [of w "pf_workers s" Idle] pf_fill by simp
  then have "mset (pf_log s @ [i]) + mset (concat (map held ((pf_workers s)[w := Idle]))) =
      mset (pf_log s) + held_all s"
    by (simp add: held_all_def)
  then have count: "mset (pf_log s @ [i]) + mset (concat (map held ((pf_workers s)[w := Idle]))) =
      mset [0..<min (pf_cursor s) (length pages)]"
    using pf_fill.prems by (simp only: pf_inv_def)
  have only: "v = w"
    if "v < length (pf_workers s)" "pf_workers s ! v = Filling j k" "gate_at pages j = gate_at pages i"
    for v j k
    using pf_inv_owner [OF pf_fill.prems that(1,2)] pf_inv_owner [OF pf_fill.prems pf_fill.hyps] that(3)
    by simp
  have gates: "((pf_gates s)(gate_at pages i := None)) g = Some v \<longleftrightarrow>
      v < length (pf_workers s) \<and>
      (\<exists>j k. (pf_workers s)[w := Idle] ! v = Filling j k \<and> gate_at pages j = g)" for g v
  proof (cases "g = gate_at pages i")
    case True
    then show ?thesis using only pf_fill.hyps(1)
      by (cases "v = w") (auto simp: nth_list_update)
  next
    case False
    then show ?thesis using pf_fill by (auto simp: pf_inv_def nth_list_update)
  qed
  show ?case using pf_fill.prems count gates
    by (auto simp: pf_inv_def held_all_def dest!: Exited_update)
qed

lemma pf_reach_inv: "pf_reach P pages x s \<Longrightarrow> pf_inv pages s"
  unfolding pf_reach_def
  by (induction rule: rtranclp_induct) (auto intro: pf_inv_init pf_inv_step)

subsection \<open>Exclusion, completeness, progress, termination\<close>

lemma pf_exclusive:
  assumes "pf_reach P pages x s" "v < length (pf_workers s)" "w < length (pf_workers s)"
    and "pf_workers s ! v = Filling i h" "pf_workers s ! w = Filling j k"
    and "pages ! i = pages ! j"
  shows "v = w"
proof -
  have inv: "pf_inv pages s" using assms(1) by (rule pf_reach_inv)
  have "pf_gates s (gate_at pages i) = Some v" "pf_gates s (gate_at pages j) = Some w"
    using inv assms(2-5) by (auto simp: pf_inv_def)
  with assms(6) show ?thesis by (simp add: gate_at_def)
qed

lemma pf_complete:
  assumes "pf_reach P pages x s" "pf_done s"
  shows "mset (map (nth pages) (pf_log s)) = mset pages"
proof -
  have inv: "pf_inv pages s" using assms(1) by (rule pf_reach_inv)
  have "concat (map held (pf_workers s)) = []" using assms(2) by (auto simp: pf_done_def)
  then have "held_all s = {#}" by (simp only: held_all_def mset.simps)
  then have log: "mset (pf_log s) = mset [0..<min (pf_cursor s) (length pages)]"
    using inv by (simp add: pf_inv_def)
  have "length pages \<le> pf_cursor s"
  proof (cases "pages = []")
    case False
    then have "pf_workers s \<noteq> []"
      using inv by (auto simp: pf_inv_def PREFETCH_FANOUT_def min_def split: if_splits)
    then have "Exited \<in> set (pf_workers s)"
      using assms(2) by (metis pf_done_def last_in_set)
    with inv show ?thesis by (simp add: pf_inv_def)
  qed simp
  with log have "mset (pf_log s) = mset [0..<length pages]" by (simp add: min_absorb2)
  then have "mset (map (nth pages) (pf_log s)) = mset (map (nth pages) [0..<length pages])"
    by (simp only: mset_map)
  then show ?thesis by (simp only: map_nth)
qed

lemma pf_progress:
  assumes "pf_reach P pages x s" "\<not> pf_done s"
  shows "\<exists>s'. pf_step P pages s s'"
proof -
  have inv: "pf_inv pages s" using assms(1) by (rule pf_reach_inv)
  from assms(2) obtain w where w: "w < length (pf_workers s)" "pf_workers s ! w \<noteq> Exited"
    by (auto simp: pf_done_def in_set_conv_nth)
  show ?thesis
  proof (cases "\<exists>v i h. v < length (pf_workers s) \<and> pf_workers s ! v = Filling i h")
    case True
    then show ?thesis by (blast intro: pf_fill)
  next
    case False
    then have "pf_gates s g = None" for g
      using inv by (cases "pf_gates s g") (auto simp: pf_inv_def)
    then show ?thesis
      using w False pf_claim [OF w(1)] pf_head [OF w(1)] pf_lock [OF w(1)]
      by (cases "pf_workers s ! w") blast+
  qed
qed

fun worker_rank :: "worker \<Rightarrow> nat" where
  "worker_rank Idle = 1"
| "worker_rank (Claimed i) = 5"
| "worker_rank (Waiting i h) = 4"
| "worker_rank (Filling i h) = 3"
| "worker_rank Exited = 0"

definition pf_rank :: "u64 list \<Rightarrow> 'x pf_state \<Rightarrow> nat" where
  "pf_rank pages s = 5 * (length pages - pf_cursor s) + sum_list (map worker_rank (pf_workers s))"

lemma rank_update:
  "w < length ks \<Longrightarrow> sum_list (map worker_rank (ks[w := k])) + worker_rank (ks ! w) =
     sum_list (map worker_rank ks) + worker_rank k"
  by (induction ks arbitrary: w) (auto split: nat.split simp: nth_Cons)

lemma pf_step_rank: "pf_step P pages s s' \<Longrightarrow> pf_rank pages s' < pf_rank pages s"
proof (induction rule: pf_step.induct)
  case (pf_claim w s)
  then show ?case
    using rank_update [of w "pf_workers s" "if pf_cursor s < length pages then Claimed (pf_cursor s) else Exited"]
    by (auto simp: pf_rank_def split: if_splits)
next
  case (pf_head w s i)
  then show ?case
    using rank_update [of w "pf_workers s" "Waiting i (to_head P (pf_store s))"]
    by (auto simp: pf_rank_def)
next
  case (pf_lock w s i h)
  then show ?case
    using rank_update [of w "pf_workers s" "Filling i h"] by (auto simp: pf_rank_def)
next
  case (pf_fill w s i h)
  then show ?case
    using rank_update [of w "pf_workers s" Idle] by (auto simp: pf_rank_def)
qed

text \<open>A run of \<open>n\<close> steps.\<close>

lemma pf_run_bounded:
  "(pf_step P pages ^^ n) s s' \<Longrightarrow> pf_rank pages s' + n \<le> pf_rank pages s"
proof (induction n arbitrary: s')
  case 0
  then show ?case by simp
next
  case (Suc n)
  then obtain u where "(pf_step P pages ^^ n) s u" "pf_step P pages u s'" by auto
  with Suc.IH [of u] pf_step_rank [of P pages u s'] show ?case by linarith
qed

lemma pf_rank_init: "pf_rank pages (pf_init x pages) = 5 * length pages + min (length pages) PREFETCH_FANOUT"
  by (simp add: pf_rank_def pf_init_def sum_list_replicate)

subsection \<open>The concurrent prefetch refines the sequential one\<close>

text \<open>Reads leave the head where it is: the woken database is read only.\<close>

definition head_stable :: "'x tiered_ops \<Rightarrow> bool" where
  "head_stable P \<longleftrightarrow> (\<forall>x h p. to_head P (snd (to_read P x h p)) = to_head P x)"

lemma default_prefetch_append:
  "default_prefetch rd st (ps @ qs) = default_prefetch rd (default_prefetch rd st ps) qs"
  by (induction rd st ps rule: default_prefetch.induct) simp_all

fun worker_head :: "worker \<Rightarrow> manifest_id option" where
  "worker_head (Waiting i h) = Some h"
| "worker_head (Filling i h) = Some h"
| "worker_head _ = None"

definition heads_are :: "manifest_id \<Rightarrow> worker list \<Rightarrow> bool" where
  "heads_are z ks \<longleftrightarrow> (\<forall>k \<in> set ks. \<forall>h. worker_head k = Some h \<longrightarrow> h = z)"

lemma heads_are_update:
  "heads_are z ks \<Longrightarrow> (\<And>h. worker_head k = Some h \<Longrightarrow> h = z) \<Longrightarrow> heads_are z (ks[w := k])"
  unfolding heads_are_def using set_update_subset_insert [of ks w k] by blast

lemma heads_are_nth:
  "heads_are z ks \<Longrightarrow> w < length ks \<Longrightarrow> worker_head (ks ! w) = Some h \<Longrightarrow> h = z"
  unfolding heads_are_def using nth_mem by blast

definition pf_sim :: "'x tiered_ops \<Rightarrow> u64 list \<Rightarrow> 'x tiered_page_source \<Rightarrow> 'x pf_state \<Rightarrow> bool" where
  "pf_sim P pages t s \<longleftrightarrow>
     pf_store s = ts_store (default_prefetch (tiered_read_page P) t (map (nth pages) (pf_log s))) \<and>
     heads_are (to_head P (pf_store s)) (pf_workers s)"

lemma pf_sim_heads: "pf_sim P pages t s \<Longrightarrow> heads_are (to_head P (pf_store s)) (pf_workers s)"
  unfolding pf_sim_def by (rule conjunct2)

lemma tiered_read_store:
  "ts_store (snd (tiered_read_page P t p)) = snd (to_read P (ts_store t) (to_head P (ts_store t)) p)"
  by (simp add: tiered_read_page_def Let_def split: prod.splits)

lemma pf_sim_step:
  assumes stable: "head_stable P" and step: "pf_step P pages s s'" and sim: "pf_sim P pages t s"
  shows "pf_sim P pages t s'"
  using step sim
proof (induction rule: pf_step.induct)
  case (pf_claim w s)
  then have "heads_are (to_head P (pf_store s)) ((pf_workers s)[w :=
      (if pf_cursor s < length pages then Claimed (pf_cursor s) else Exited)])"
    by (intro heads_are_update pf_sim_heads) (simp_all split: if_splits)
  with pf_claim.prems show ?case by (simp add: pf_sim_def)
next
  case (pf_head w s i)
  then have "heads_are (to_head P (pf_store s)) ((pf_workers s)[w := Waiting i (to_head P (pf_store s))])"
    by (intro heads_are_update pf_sim_heads) simp_all
  with pf_head.prems show ?case by (simp add: pf_sim_def)
next
  case (pf_lock w s i h)
  have "h = to_head P (pf_store s)"
    using pf_lock.prems pf_lock.hyps heads_are_nth [OF pf_sim_heads, of P pages t s w h] by simp
  then have "heads_are (to_head P (pf_store s)) ((pf_workers s)[w := Filling i h])"
    using pf_lock.prems \<open>h = to_head P (pf_store s)\<close> by (intro heads_are_update pf_sim_heads) simp_all
  then show ?case using pf_lock.prems by (simp add: pf_sim_def)
next
  case (pf_fill w s i h)
  have h: "h = to_head P (pf_store s)"
    using pf_fill.prems pf_fill.hyps heads_are_nth [OF pf_sim_heads, of P pages t s w h] by simp
  have "heads_are (to_head P (pf_store s)) ((pf_workers s)[w := Idle])"
    using pf_fill.prems by (intro heads_are_update pf_sim_heads) simp_all
  moreover have "to_head P (snd (to_read P (pf_store s) h (pages ! i))) = to_head P (pf_store s)"
    using stable by (simp add: head_stable_def)
  moreover have "snd (to_read P (pf_store s) h (pages ! i)) =
      ts_store (default_prefetch (tiered_read_page P) t (map (nth pages) (pf_log s @ [i])))"
    using pf_fill.prems h by (simp add: pf_sim_def default_prefetch_append tiered_read_store)
  ultimately show ?case by (simp add: pf_sim_def)
qed

lemma pf_sim_reach:
  assumes "head_stable P" "pf_reach P pages (ts_store t) s"
  shows "pf_sim P pages t s"
  using assms(2) unfolding pf_reach_def
proof (induction rule: rtranclp_induct)
  case base
  then show ?case by (auto simp: pf_sim_def pf_init_def heads_are_def)
next
  case (step s s')
  then show ?case using pf_sim_step [OF assms(1)] by blast
qed

subsection \<open>The guarantees of prefetch\<close>

text \<open>C17: in every interleaving of the prefetch workers, no two workers fill the same page at the
  same time, the race that the striped fault gates exist to exclude.\<close>

theorem prefetch_exclusive_fill:
  assumes "pf_reach P pages x s" "v < length (pf_workers s)" "w < length (pf_workers s)"
    and "pf_workers s ! v = Filling i h" "pf_workers s ! w = Filling j k" "pages ! i = pages ! j"
  shows "v = w"
  by (rule pf_exclusive [OF assms])

text \<open>A run of one worker over one page, up to the fill.\<close>

lemma demo_fill: "pf_reach P [7] x
  \<lparr>pf_cursor = 1, pf_workers = [Filling 0 (to_head P x)],
   pf_gates = (\<lambda>_. None)(gate_at [7] 0 := Some 0), pf_store = x, pf_log = []\<rparr>"
proof -
  have 1: "pf_step P [7] (pf_init x [7])
      \<lparr>pf_cursor = 1, pf_workers = [Claimed 0], pf_gates = (\<lambda>_. None), pf_store = x, pf_log = []\<rparr>"
    using pf_claim [of 0 "pf_init x [7]" P "[7]"] by (simp add: pf_init_def PREFETCH_FANOUT_def)
  have 2: "pf_step P [7]
      \<lparr>pf_cursor = 1, pf_workers = [Claimed 0], pf_gates = (\<lambda>_. None), pf_store = x, pf_log = []\<rparr>
      \<lparr>pf_cursor = 1, pf_workers = [Waiting 0 (to_head P x)], pf_gates = (\<lambda>_. None), pf_store = x, pf_log = []\<rparr>"
    using pf_head [of 0 "\<lparr>pf_cursor = 1, pf_workers = [Claimed 0], pf_gates = (\<lambda>_. None), pf_store = x, pf_log = []\<rparr>" 0 P "[7]"]
    by simp
  have 3: "pf_step P [7]
      \<lparr>pf_cursor = 1, pf_workers = [Waiting 0 (to_head P x)], pf_gates = (\<lambda>_. None), pf_store = x, pf_log = []\<rparr>
      \<lparr>pf_cursor = 1, pf_workers = [Filling 0 (to_head P x)],
        pf_gates = (\<lambda>_. None)(gate_at [7] 0 := Some 0), pf_store = x, pf_log = []\<rparr>"
    using pf_lock [of 0 "\<lparr>pf_cursor = 1, pf_workers = [Waiting 0 (to_head P x)], pf_gates = (\<lambda>_. None), pf_store = x, pf_log = []\<rparr>" 0 "to_head P x" "[7]" P]
    by simp
  show ?thesis unfolding pf_reach_def
    using 1 2 3 by (meson converse_rtranclp_into_rtranclp rtranclp.rtrancl_refl)
qed

text \<open>Two workers and two requests of the same page, the first worker filling it.\<close>

lemma demo_fill2: "pf_reach P [7, 7] x
  \<lparr>pf_cursor = 1, pf_workers = [Filling 0 (to_head P x), Idle],
   pf_gates = (\<lambda>_. None)(gate_at [7, 7] 0 := Some 0), pf_store = x, pf_log = []\<rparr>"
proof -
  have 1: "pf_step P [7, 7] (pf_init x [7, 7])
      \<lparr>pf_cursor = 1, pf_workers = [Claimed 0, Idle], pf_gates = (\<lambda>_. None), pf_store = x, pf_log = []\<rparr>"
    using pf_claim [of 0 "pf_init x [7, 7]" P "[7, 7]"]
    by (simp add: pf_init_def PREFETCH_FANOUT_def numeral_2_eq_2)
  have 2: "pf_step P [7, 7]
      \<lparr>pf_cursor = 1, pf_workers = [Claimed 0, Idle], pf_gates = (\<lambda>_. None), pf_store = x, pf_log = []\<rparr>
      \<lparr>pf_cursor = 1, pf_workers = [Waiting 0 (to_head P x), Idle], pf_gates = (\<lambda>_. None), pf_store = x, pf_log = []\<rparr>"
    using pf_head [of 0 "\<lparr>pf_cursor = 1, pf_workers = [Claimed 0, Idle], pf_gates = (\<lambda>_. None), pf_store = x, pf_log = []\<rparr>" 0 P "[7, 7]"]
    by simp
  have 3: "pf_step P [7, 7]
      \<lparr>pf_cursor = 1, pf_workers = [Waiting 0 (to_head P x), Idle], pf_gates = (\<lambda>_. None), pf_store = x, pf_log = []\<rparr>
      \<lparr>pf_cursor = 1, pf_workers = [Filling 0 (to_head P x), Idle],
        pf_gates = (\<lambda>_. None)(gate_at [7, 7] 0 := Some 0), pf_store = x, pf_log = []\<rparr>"
    using pf_lock [of 0 "\<lparr>pf_cursor = 1, pf_workers = [Waiting 0 (to_head P x), Idle], pf_gates = (\<lambda>_. None), pf_store = x, pf_log = []\<rparr>" 0 "to_head P x" "[7, 7]" P]
    by simp
  show ?thesis unfolding pf_reach_def
    using 1 2 3 by (meson converse_rtranclp_into_rtranclp rtranclp.rtrancl_refl)
qed

lemma prefetch_exclusive_fill_witness:
  "\<exists>s. pf_reach (demo_pager [1]) [7, 7] 0 s \<and> (\<exists>h. pf_workers s ! 0 = Filling 0 h) \<and>
     (\<forall>h. pf_workers s ! 1 \<noteq> Filling 1 h)"
proof -
  let ?s = "\<lparr>pf_cursor = 1, pf_workers = [Filling 0 (ManifestId []), Idle],
   pf_gates = (\<lambda>_. None)(gate_at [7, 7] 0 := Some 0), pf_store = (0::nat), pf_log = []\<rparr>"
  have r: "pf_reach (demo_pager [1]) [7, 7] 0 ?s"
    using demo_fill2 [of "demo_pager [1]" 0] by (simp add: demo_pager_def)
  have "pf_workers ?s ! 1 \<noteq> Filling 1 h" for h
    using prefetch_exclusive_fill [OF r, of 0 1 0 "ManifestId []" 1 h] by auto
  with r show ?thesis by (intro exI [of _ ?s]) simp
qed

text \<open>C30: the concurrent prefetch is the sequential one in some order. When all workers have left,
  the store is what faulting some permutation of the pages one at a time produces, so every page
  was faulted exactly once and none was lost or repeated.\<close>

theorem prefetch_refines_sequential:
  assumes "head_stable P" "pf_reach P pages (ts_store t) s" "pf_done s"
  shows "\<exists>ps. mset ps = mset pages \<and>
    pf_store s = ts_store (default_prefetch (tiered_read_page P) t ps)"
  using pf_sim_reach [OF assms(1,2)] pf_complete [OF assms(2,3)] unfolding pf_sim_def by blast

lemma demo_stable: "head_stable (demo_pager f)"
  by (simp add: head_stable_def demo_pager_def)

lemma demo_done: "pf_reach P [] x (pf_init x [])" "pf_done (pf_init x [])"
  by (simp_all add: pf_reach_def pf_done_def pf_init_def)

lemma demo_done1: "\<exists>s. pf_reach P [7] x s \<and> pf_done s"
proof -
  let ?s = "\<lparr>pf_cursor = 1, pf_workers = [Filling 0 (to_head P x)],
    pf_gates = (\<lambda>_. None)(gate_at [7] 0 := Some 0), pf_store = x, pf_log = []\<rparr>"
  let ?x = "snd (to_read P x (to_head P x) 7)"
  have 4: "pf_step P [7] ?s \<lparr>pf_cursor = 1, pf_workers = [Idle],
      pf_gates = (\<lambda>_. None), pf_store = ?x, pf_log = [0]\<rparr>"
    using pf_fill [of 0 ?s 0 "to_head P x" P "[7]"] by (simp add: fun_upd_idem)
  have 5: "pf_step P [7] \<lparr>pf_cursor = 1, pf_workers = [Idle],
        pf_gates = (\<lambda>_. None), pf_store = ?x, pf_log = [0]\<rparr>
      \<lparr>pf_cursor = 2, pf_workers = [Exited], pf_gates = (\<lambda>_. None), pf_store = ?x, pf_log = [0]\<rparr>"
    using pf_claim [of 0 "\<lparr>pf_cursor = 1, pf_workers = [Idle],
        pf_gates = (\<lambda>_. None), pf_store = ?x, pf_log = [0]\<rparr>" P "[7]"] by (simp add: numeral_2_eq_2)
  have "pf_reach P [7] x
      \<lparr>pf_cursor = 2, pf_workers = [Exited], pf_gates = (\<lambda>_. None), pf_store = ?x, pf_log = [0]\<rparr>"
    using demo_fill [of P x] 4 5 unfolding pf_reach_def by (meson rtranclp.rtrancl_into_rtrancl)
  then show ?thesis by (fastforce simp: pf_done_def)
qed

lemma prefetch_refines_sequential_witness:
  "\<exists>s ps. pf_done s \<and> mset ps = mset [7] \<and>
     pf_store s = ts_store (default_prefetch (tiered_read_page (demo_pager [1])) (new_tiered 0 1) ps)"
proof -
  obtain s where s: "pf_reach (demo_pager [1]) [7] (ts_store (new_tiered 0 1)) s" "pf_done s"
    using demo_done1 [of "demo_pager [1]" "ts_store (new_tiered 0 1)"] by (elim exE conjE)
  from prefetch_refines_sequential [OF demo_stable s] obtain ps where "mset ps = mset [7]"
    "pf_store s = ts_store (default_prefetch (tiered_read_page (demo_pager [1])) (new_tiered 0 1) ps)"
    by (elim exE conjE)
  with s(2) show ?thesis by (intro exI conjI)
qed

text \<open>Prefetch always returns. From every reachable state in which a worker is still running
  some step is possible, and no run has more than six steps per page, whatever the interleaving.\<close>

lemma prefetch_terminates:
  assumes "pf_reach P pages x s" "\<not> pf_done s"
  shows "(\<exists>s'. pf_step P pages s s') \<and>
    (\<forall>n u. (pf_step P pages ^^ n) (pf_init x pages) u \<longrightarrow> n \<le> 6 * length pages)"
proof
  show "\<exists>s'. pf_step P pages s s'" by (rule pf_progress [OF assms])
  show "\<forall>n u. (pf_step P pages ^^ n) (pf_init x pages) u \<longrightarrow> n \<le> 6 * length pages"
    using pf_run_bounded [where P = P and s = "pf_init x pages"] by (fastforce simp: pf_rank_init)
qed

lemma prefetch_terminates_witness:
  "\<exists>s'. pf_step (demo_pager [1]) [7] (pf_init 0 [7]) s'"
proof -
  have "pf_reach (demo_pager [1]) [7] 0 (pf_init 0 [7])" by (simp add: pf_reach_def)
  moreover have "\<not> pf_done (pf_init (0::nat) [7])" by (simp add: pf_done_def pf_init_def PREFETCH_FANOUT_def)
  ultimately show ?thesis by (rule prefetch_terminates [THEN conjunct1])
qed

end
