(* ===== verification/Vfs_Fuzz.thy ===== *)
theory Vfs_Fuzz
  imports Vfs_Read
begin

section \<open>The fuzz target of the read boundary\<close>

text \<open>
  \<open>crates/flock-vfs/fuzz/fuzz_targets/serve_read.rs\<close>: a page source that misbehaves page by page, the
  oracle, and one run of the target on a parsed input. A run is whether every assertion held; parsing
  the raw bytes is \<open>arbitrary\<close>'s. \<open>usize\<close> quantities are natural numbers, \<open>saturating_mul\<close> keeps its
  bound.
\<close>

datatype behavior = Normal | Missing | Oversize nat | Short nat

record mock_source =
  ms_page_size :: nat
  ms_data :: bytes
  ms_behaviors :: "u64 \<Rightarrow> behavior option"

definition real_page :: "mock_source \<Rightarrow> u64 \<Rightarrow> bytes" where
  "real_page ms page_no =
     (let start = min (unat page_no * ms_page_size ms) (2 ^ 64 - 1)
      in if length (ms_data ms) \<le> start then []
         else
           (let end = min (start + ms_page_size ms) (length (ms_data ms))
            in take (end - start) (drop start (ms_data ms))))"

definition mock_read_page :: "mock_source \<Rightarrow> u64 \<Rightarrow> vfs_error + bytes" where
  "mock_read_page ms page_no =
     (case ms_behaviors ms page_no of
        Some Missing \<Rightarrow> Inl (ShortPage page_no 0 0)
      | Some (Oversize extra) \<Rightarrow> Inr (real_page ms page_no @ replicate (extra + 1) 0xEE)
      | Some (Short keep) \<Rightarrow>
          (let p = real_page ms page_no; k = min keep (length p) in Inr (take k p))
      | _ \<Rightarrow> Inr (real_page ms page_no))"

definition expected_clamp :: "u64 \<Rightarrow> u64 \<Rightarrow> nat \<Rightarrow> nat" where
  "expected_clamp total_len offset buf_len =
     (if total_len \<le> offset then 0 else unat (min (total_len - offset) (word_of_nat buf_len)))"

definition covered_range_is_all_clean :: "mock_source \<Rightarrow> u64 \<Rightarrow> u64 \<Rightarrow> nat \<Rightarrow> bool" where
  "covered_range_is_all_clean ms total_len offset want =
     (if want = 0 then True
      else
        (let ps = word_of_nat (ms_page_size ms)
         in if ps = 0 then False
            else
              (let first = offset div ps;
                   last = (offset + word_of_nat want - 1) div ps
               in list_all (\<lambda>page_no.
                    case ms_behaviors ms page_no of
                      None \<Rightarrow> True
                    | Some Normal \<Rightarrow> True
                    | Some Missing \<Rightarrow> False
                    | Some (Oversize _) \<Rightarrow> False
                    | Some (Short keep) \<Rightarrow>
                        (let page_start = page_no * ps;
                             need_end_in_page = unat (min (offset + word_of_nat want) total_len - page_start)
                         in \<not> keep < need_end_in_page))
                    (map word_of_nat [unat first ..< Suc (unat last)]) \<and>
                  total_len \<noteq> 0 \<and> offset < total_len)))"

record fuzz_input =
  fi_data :: bytes
  fi_page_size :: "16 word"
  fi_offset_kind :: u8
  fi_offset_raw :: u64
  fi_buf_len :: "16 word"
  fi_behaviors :: "(u8 \<times> u8 \<times> 16 word) list"

definition fuzz_offset :: "fuzz_input \<Rightarrow> u64 \<Rightarrow> u64" where
  "fuzz_offset input total_len =
     (let kind = fi_offset_kind input mod 5; raw = fi_offset_raw input
      in if kind = 0 then raw mod max (total_len + 1) 1
         else if kind = 1 then raw mod 8192
         else if kind = 2 then - 1
         else if kind = 3 then - 1 - (raw mod 4096)
         else raw)"

definition fuzz_behaviors :: "fuzz_input \<Rightarrow> u64 \<Rightarrow> behavior option" where
  "fuzz_behaviors input =
     foldl (\<lambda>m (page_no, kind, param).
       let b = (if kind mod 4 = 0 then Normal
                else if kind mod 4 = 1 then Missing
                else if kind mod 4 = 2 then Oversize (unat (param mod 300))
                else Short (unat (param mod 300)))
       in m(ucast (page_no mod 64) \<mapsto> b)) Map.empty (take 16 (fi_behaviors input))"

definition fuzz_source :: "fuzz_input \<Rightarrow> mock_source" where
  "fuzz_source input =
     \<lparr>ms_page_size = unat (fi_page_size input mod 256) + 1, ms_data = take 8192 (fi_data input),
      ms_behaviors = fuzz_behaviors input\<rparr>"

definition fuzz_target :: "fuzz_input \<Rightarrow> bool" where
  "fuzz_target input =
     (let src = fuzz_source input;
          data = ms_data src;
          total_len = word_of_nat (length data);
          buf_len = unat (fi_buf_len input mod 4096);
          offset = fuzz_offset input total_len;
          clamp = expected_clamp total_len offset buf_len
      in case serve_read (stateless (word_of_nat (ms_page_size src)) (mock_read_page src)) total_len offset
              (replicate buf_len 0xA5) () of
           (Ok n, buf, _) \<Rightarrow>
             n \<le> buf_len \<and> n \<le> clamp \<and>
             (n > 0 \<longrightarrow> take n buf = take n (drop (unat offset) data)) \<and>
             (covered_range_is_all_clean src total_len offset clamp \<longrightarrow> n = clamp)
         | (Err _, _, _) \<Rightarrow> \<not> covered_range_is_all_clean src total_len offset clamp
         | (Panic, _, _) \<Rightarrow> False)"

subsection \<open>The target finds nothing\<close>

text \<open>A source as the target builds it: the pages of a small file.\<close>

definition small :: "mock_source \<Rightarrow> bool" where
  "small ms \<longleftrightarrow> 0 < ms_page_size ms \<and> ms_page_size ms < 2 ^ 32 \<and> length (ms_data ms) < 2 ^ 32"

lemma real_page_of:
  assumes "small ms"
  shows "real_page ms p = page_of (ms_page_size ms) (ms_data ms) (unat p)"
proof (cases "length (ms_data ms) \<le> unat p * ms_page_size ms")
  case True
  then have "length (ms_data ms) \<le> min (unat p * ms_page_size ms) (2 ^ 64 - 1)"
    using assms by (simp add: small_def)
  with True show ?thesis by (simp add: real_page_def page_of_def Let_def del: min.bounded_iff)
next
  case False
  then have "min (unat p * ms_page_size ms) (2 ^ 64 - 1) = unat p * ms_page_size ms"
    using assms by (simp add: small_def)
  with False show ?thesis by (auto simp: real_page_def page_of_def Let_def min_def)
qed

lemma small_position:
  assumes "small ms" "pos < length (ms_data ms)"
  shows "unat (word_of_nat (pos div ms_page_size ms) :: u64) = pos div ms_page_size ms"
    "pos mod ms_page_size ms < length (page_of (ms_page_size ms) (ms_data ms) (pos div ms_page_size ms))"
    "page_of (ms_page_size ms) (ms_data ms) (pos div ms_page_size ms) ! (pos mod ms_page_size ms) = ms_data ms ! pos"
proof -
  let ?ps = "ms_page_size ms"
  have ps: "0 < ?ps" using assms(1) by (simp add: small_def)
  have "pos div ?ps \<le> pos" by simp
  then have "pos div ?ps < 2 ^ 64" by (rule le_less_trans) (use assms in \<open>simp add: small_def\<close>)
  then show "unat (word_of_nat (pos div ?ps) :: u64) = pos div ?ps" by (rule unat_of_nat_u64)
  have eq: "pos div ?ps * ?ps + pos mod ?ps = pos" by simp
  have lt: "pos mod ?ps < ?ps" using ps by simp
  have "pos mod ?ps < length (ms_data ms) - pos div ?ps * ?ps" using eq assms(2) by linarith
  with lt show "pos mod ?ps < length (page_of ?ps (ms_data ms) (pos div ?ps))" by simp
  show "page_of ?ps (ms_data ms) (pos div ?ps) ! (pos mod ?ps) = ms_data ms ! pos"
    using nth_page_of [OF lt, of "pos div ?ps" "ms_data ms"] eq assms(2) by simp
qed

text \<open>Whatever a page does, a byte of the file it still holds is the file's.\<close>

lemma mock_byte:
  assumes "small ms" "pos < length (ms_data ms)" "page_byte (mock_read_page ms) (ms_page_size ms) pos = Some b"
  shows "b = ms_data ms ! pos"
proof -
  let ?p = "word_of_nat (pos div ms_page_size ms) :: u64" and ?i = "pos mod ms_page_size ms"
  let ?page = "page_of (ms_page_size ms) (ms_data ms) (pos div ms_page_size ms)"
  note at = small_position [OF assms(1,2)]
  have real: "real_page ms ?p = ?page" using real_page_of [OF assms(1)] at(1) by simp
  obtain page where page: "mock_read_page ms ?p = Inr page" "?i < length page" "b = page ! ?i"
    using assms(3) by (auto simp: page_byte_def split: sum.splits if_splits)
  have "page ! ?i = ?page ! ?i"
  proof (cases "ms_behaviors ms ?p")
    case None
    with page(1) real show ?thesis by (simp add: mock_read_page_def)
  next
    case (Some bh)
    with page(1,2) real at(2) show ?thesis
      by (cases bh) (auto simp: mock_read_page_def Let_def nth_append)
  qed
  with page(3) at(3) show ?thesis by simp
qed

lemma clean_servable:
  assumes small: "small ms" and ps: "ps = (word_of_nat (ms_page_size ms) :: u64)" and total: "total_len = word_of_nat (length (ms_data ms))"
    and clean: "covered_range_is_all_clean ms total_len offset want"
    and want: "want \<le> unat total_len - unat offset" and i: "i < want"
  shows "servable (mock_read_page ms) (ms_page_size ms) (unat offset + i)"
proof -
  let ?n = "ms_page_size ms" and ?pos = "unat offset + i"
  let ?p = "word_of_nat (?pos div ?n) :: u64"
  have size: "0 < ?n" "?n < 2 ^ 32" "length (ms_data ms) < 2 ^ 32" using small by (simp_all add: small_def)
  have un: "unat ps = ?n" "unat total_len = length (ms_data ms)"
    unfolding ps total using size by (auto intro!: unat_of_nat_u64)
  have pos: "?pos < length (ms_data ms)" using want i un(2) by simp
  note at = small_position [OF small pos]
  have real: "real_page ms ?p = page_of ?n (ms_data ms) (?pos div ?n)" using real_page_of [OF small] at(1) by simp
  have fits: "unat offset + want < 2 ^ 64" using want un(2) size(3) i by simp
  have end_at: "unat (offset + word_of_nat want) = unat offset + want"
    using fits by (simp add: unat_word_ariths unat_of_nat)
  have last_at: "unat (offset + word_of_nat want - 1) = unat offset + want - 1"
    using end_at i by (subst unat_minus_one) (auto simp: unat_eq_zero)
  have "ps \<noteq> 0" using un(1) size(1) by auto
  have first: "unat (offset div ps) = unat offset div ?n" and last: "unat ((offset + word_of_nat want - 1) div ps) = (unat offset + want - 1) div ?n"
    using un(1) last_at by (simp_all add: unat_div)
  have "?pos div ?n \<in> {unat (offset div ps) ..< Suc (unat ((offset + word_of_nat want - 1) div ps))}"
    unfolding first last using i by (auto intro: div_le_mono simp: less_Suc_eq_le)
  moreover have "\<forall>k \<in> {unat (offset div ps) ..< Suc (unat ((offset + word_of_nat want - 1) div ps))}.
      case ms_behaviors ms (word_of_nat k) of None \<Rightarrow> True | Some Normal \<Rightarrow> True | Some Missing \<Rightarrow> False
      | Some (Oversize _) \<Rightarrow> False
      | Some (Short keep) \<Rightarrow> \<not> keep < unat (min (offset + word_of_nat want) total_len - word_of_nat k * ps)"
    using clean i \<open>ps \<noteq> 0\<close> unfolding covered_range_is_all_clean_def Let_def ps [symmetric] list_all_iff
    by (simp del: upt_Suc)
  ultimately have page: "case ms_behaviors ms ?p of None \<Rightarrow> True | Some Normal \<Rightarrow> True | Some Missing \<Rightarrow> False
      | Some (Oversize _) \<Rightarrow> False
      | Some (Short keep) \<Rightarrow> \<not> keep < unat (min (offset + word_of_nat want) total_len - ?p * ps)" by blast
  have "unat (?p * ps) = ?pos div ?n * ?n"
  proof -
    have "unat ?p * unat ps \<le> ?pos" using at(1) un(1) by simp
    then have "unat ?p * unat ps < 2 ^ 64" by (rule le_less_trans) (use pos size(3) in simp)
    then show ?thesis using at(1) un(1) by (simp add: unat_word_ariths)
  qed
  moreover have "offset + word_of_nat want \<le> total_len"
    using end_at want i un(2) by (simp add: word_le_nat_alt)
  moreover have "?pos div ?n * ?n \<le> unat (offset + word_of_nat want)"
    unfolding end_at by (rule order_trans [of _ ?pos]) (use i in simp_all)
  ultimately have need: "unat (min (offset + word_of_nat want) total_len - ?p * ps) = unat offset + want - ?pos div ?n * ?n"
    using end_at by (simp add: min_def unat_sub word_le_nat_alt)
  have "?pos mod ?n < unat offset + want - ?pos div ?n * ?n"
  proof -
    have "?pos div ?n * ?n + ?pos mod ?n = ?pos" by simp
    with i show ?thesis by linarith
  qed
  show ?thesis
  proof (cases "ms_behaviors ms ?p")
    case None
    with at real show ?thesis by (simp add: servable_def mock_read_page_def)
  next
    case (Some bh)
    with at real page need \<open>?pos mod ?n < unat offset + want - ?pos div ?n * ?n\<close> show ?thesis
      by (cases bh) (auto simp: servable_def mock_read_page_def Let_def intro!: min.coboundedI1)
  qed
qed

lemma fuzz_source_small: "small (fuzz_source input)"
proof -
  have "unat (fi_page_size input mod 256) < 256"
    by (simp add: unat_mod) 
  then show ?thesis by (simp add: small_def fuzz_source_def)
qed

lemma expected_clamp_eq:
  assumes "len < 2 ^ 64"
  shows "expected_clamp total_len offset len = clamp (unat total_len) (unat offset) len"
proof (cases "total_len \<le> offset")
  case True
  then show ?thesis by (simp add: expected_clamp_def clamp_def word_le_nat_alt)
next
  case False
  then show ?thesis using want_eq_clamp [of offset total_len len] assms by (simp add: expected_clamp_def)
qed

text \<open>What a read of the mock source hands over is a stretch of the file, as long as was asked and there.\<close>

lemma mock_read_exact:
  assumes small: "small ms" and total: "total_len = word_of_nat (length (ms_data ms))" and len: "length buf \<le> isize_max"
    and run: "serve_read (stateless (word_of_nat (ms_page_size ms)) (mock_read_page ms)) total_len offset buf () = (Ok n, b, u)"
  shows "n = clamp (unat total_len) (unat offset) (length buf) \<and> take n b = take n (drop (unat offset) (ms_data ms))"
proof -
  have lt: "length buf < 2 ^ 64" using len by (simp add: isize_max_def)
  have un: "unat total_len = length (ms_data ms)" "unat (word_of_nat (ms_page_size ms) :: u64) = ms_page_size ms"
    using small by (auto intro!: unat_of_nat_u64 simp: small_def total)
  have n: "n = clamp (unat total_len) (unat offset) (length buf)" using serve_read_Ok [OF run lt] .
  then have le: "n \<le> unat total_len - unat offset" "n \<le> length buf" by (simp_all add: clamp_def)
  have bl: "length b = length buf" using serve_read_frame [OF run lt] by simp
  have "b ! i = ms_data ms ! (unat offset + i)" if i: "i < n" for i
  proof -
    have "unat offset + i < length (ms_data ms)" using i le(1) un(1) by simp
    from mock_byte [OF small this] serve_read_page_bytes [OF run len i] un(2) show ?thesis by simp
  qed
  then have "take n b = take n (drop (unat offset) (ms_data ms))" using le un(1) bl by (intro nth_equalityI) auto
  with n show ?thesis by simp
qed

text \<open>C24: the fuzz target has nothing to find. On every input, the read does not panic, reports no more
  than was asked and available, and no byte that is not the file's; and a read whose pages the oracle
  calls clean succeeds and is served whole.\<close>

theorem fuzz_target_holds: "fuzz_target input"
proof -
  define src where "src = fuzz_source input"
  define total where "total = (word_of_nat (length (ms_data src)) :: u64)"
  define len where "len = unat (fi_buf_len input mod 4096)"
  define offset where "offset = fuzz_offset input total"
  define ps where "ps = (word_of_nat (ms_page_size src) :: u64)"
  define buf where "buf = replicate len (0xA5 :: u8)"
  have small: "small src" unfolding src_def by (rule fuzz_source_small)
  then have un: "unat ps = ms_page_size src" unfolding ps_def by (auto intro!: unat_of_nat_u64 simp: small_def)
  then have ps: "ps \<noteq> 0" using small by (auto simp: small_def)
  have "len < 4096" unfolding len_def by (simp add: unat_mod)
  then have buf: "length buf = len" "length buf \<le> isize_max" by (simp_all add: buf_def isize_max_def)
  let ?w = "clamp (unat total) (unat offset) len"
  have clamp: "expected_clamp total offset len = ?w" using \<open>len < 4096\<close> by (simp add: expected_clamp_eq)
  have le: "?w \<le> unat total - unat offset" "?w \<le> len" by (simp_all add: clamp_def)
  obtain r b u where run: "serve_read (stateless ps (mock_read_page src)) total offset buf () = (r, b, u)"
    by (cases "serve_read (stateless ps (mock_read_page src)) total offset buf ()") auto
  have "r \<noteq> Panic" using serve_read_no_panic [of "stateless ps (mock_read_page src)" total offset buf "()"] run by simp
  moreover have "n = ?w \<and> take n b = take n (drop (unat offset) (ms_data src))" if r: "r = Ok n" for n
    using mock_read_exact [OF small total_def buf(2) run [unfolded r ps_def], unfolded buf(1)] .
  moreover have "\<exists>n. r = Ok n" if "covered_range_is_all_clean src total offset ?w"
  proof -
    have "servable (mock_read_page src) (unat ps) (unat offset + i)" if "i < ?w" for i
      using clean_servable [OF small ps_def total_def \<open>covered_range_is_all_clean src total offset ?w\<close> le(1) that] un by simp
    with serve_read_servable [OF ps buf(2), of "mock_read_page src" total offset "()"] run buf(1) show ?thesis by simp
  qed
  ultimately show ?thesis using le(2)
    unfolding fuzz_target_def Let_def src_def [symmetric] total_def [symmetric] len_def [symmetric] offset_def [symmetric]
      ps_def [symmetric] buf_def [symmetric] clamp run prod.case
    by (cases r) auto
qed

end
