(* ===== verification/Scheduler.thy ===== *)
theory Scheduler
  imports Vfs_Tiered
begin

section \<open>The wake scheduler\<close>

text \<open>
  \<open>crates/flockd/src/scheduler.rs\<close>: the warm set of a database (the pages its queries fault, a
  sorted vector bounded by \<open>WARM_SET_CAP\<close>), the page source that records what is faulted through
  it, and the scheduler that remembers a warm set per database and prewarms a woken source with it.
  The mutexes guard single operations, so each operation is one state change.

  \<open>learned_set\<close> is the interface the scheduler needs of a warm set; \<open>WarmSet\<close> interprets it. The
  recording source is shown to be a page source in its own right (\<open>recording_safe\<close>), to be
  transparent, and to record of a successful read exactly the pages of its range.
\<close>

subsection \<open>Binary search\<close>

text \<open>
  \<open>slice::binary_search\<close> as the standard library runs it: \<open>sz\<close> (the size) halves while \<open>base\<close> moves up to
  the last element not greater than the key. \<open>Inr\<close> the index of a match, \<open>Inl\<close> the place to insert.
\<close>

function bisect :: "u64 list \<Rightarrow> u64 \<Rightarrow> nat \<Rightarrow> nat \<Rightarrow> nat" where
  "bisect xs x base sz =
     (if 1 < sz then
        (let half = sz div 2; mid = base + half
         in bisect xs x (if x < xs ! mid then base else mid) (sz - half))
      else base)"
  by pat_completeness auto
termination
  by (relation "measure (\<lambda>(xs, x, base, sz). sz)") auto

declare bisect.simps [simp del]

definition binary_search :: "u64 list \<Rightarrow> u64 \<Rightarrow> nat + nat" where
  "binary_search xs x =
     (if xs = [] then Inl 0
      else
        (let base = bisect xs x 0 (length xs)
         in if xs ! base = x then Inr base
            else if xs ! base < x then Inl (base + 1) else Inl base))"

lemma bisect_base:
  assumes "0 < sz" "base + sz \<le> length xs" "sorted xs"
    and "\<forall>i < length xs. base + sz \<le> i \<longrightarrow> x < xs ! i" "base = 0 \<or> xs ! base \<le> x"
  shows "bisect xs x base sz < length xs \<and>
    (\<forall>i < length xs. bisect xs x base sz < i \<longrightarrow> x < xs ! i) \<and>
    (bisect xs x base sz = 0 \<or> xs ! bisect xs x base sz \<le> x)"
  using assms
proof (induction xs x base sz rule: bisect.induct)
  case (1 xs x base sz)
  show ?case
  proof (cases "1 < sz")
    case False
    then have "sz = 1" using 1(2) by simp
    then have "bisect xs x base sz = base" by (subst bisect.simps) simp
    then show ?thesis using 1(2-6) \<open>sz = 1\<close> by auto
  next
    case True
    define mid where "mid = base + sz div 2"
    define base' where "base' = (if x < xs ! mid then base else mid)"
    define sz' where "sz' = sz - sz div 2"
    have mid: "mid < length xs" "base' + sz' \<le> length xs" "mid \<le> base' + sz'" "0 < sz'"
      using True 1(3) by (auto simp: mid_def base'_def sz'_def)
    have "x < xs ! i" if "i < length xs" "base' + sz' \<le> i" for i
    proof (cases "x < xs ! mid")
      case up: True
      have "xs ! mid \<le> xs ! i"
        using sorted_nth_mono [OF 1(4)] that mid by (meson le_trans)
      with up show ?thesis by simp
    next
      case False
      then have "base + sz \<le> i" using that(2) True by (simp add: base'_def sz'_def mid_def)
      with 1(5) that(1) show ?thesis by simp
    qed
    moreover have "base' = 0 \<or> xs ! base' \<le> x"
      using 1(6) by (auto simp: base'_def not_less)
    ultimately have "bisect xs x base' sz' < length xs \<and>
        (\<forall>i < length xs. bisect xs x base' sz' < i \<longrightarrow> x < xs ! i) \<and>
        (bisect xs x base' sz' = 0 \<or> xs ! bisect xs x base' sz' \<le> x)"
      using 1(1) [OF True refl refl] mid 1(4) unfolding base'_def mid_def sz'_def by blast
    moreover have "bisect xs x base sz = bisect xs x base' sz'"
      using True by (subst bisect.simps) (simp add: Let_def base'_def mid_def sz'_def)
    ultimately show ?thesis by metis
  qed
qed

text \<open>The search finds a member, and otherwise the one place that keeps the list sorted.\<close>

lemma binary_search_Inr:
  assumes "sorted xs" "binary_search xs x = Inr i"
  shows "i < length xs \<and> xs ! i = x"
  using assms bisect_base [of "length xs" 0 xs x]
  by (auto simp: binary_search_def Let_def split: if_splits)

lemma binary_search_Inl:
  assumes "sorted xs" "binary_search xs x = Inl i"
  shows "i \<le> length xs \<and> (\<forall>y \<in> set (take i xs). y < x) \<and> (\<forall>y \<in> set (drop i xs). x < y)"
proof (cases "xs = []")
  case True
  with assms(2) show ?thesis by (simp add: binary_search_def)
next
  case False
  define base where "base = bisect xs x 0 (length xs)"
  have b: "base < length xs" "\<forall>i < length xs. base < i \<longrightarrow> x < xs ! i" "base = 0 \<or> xs ! base \<le> x"
    using bisect_base [of "length xs" 0 xs x] False assms(1) by (simp_all add: base_def)
  have i: "xs ! base \<noteq> x" "i = (if xs ! base < x then base + 1 else base)"
    using assms(2) False by (auto simp: binary_search_def Let_def base_def [symmetric] split: if_splits)
  have up: "x < xs ! j" if "i \<le> j" "j < length xs" for j
  proof (cases "j = base")
    case True
    then show ?thesis using i that by (auto split: if_splits)
  next
    case False
    then show ?thesis using b i that by (auto split: if_splits)
  qed
  have low: "xs ! j < x" if "j < i" for j
  proof -
    have "xs ! base < x" "j \<le> base"
      using b(3) i that by (auto split: if_splits)
    moreover have "xs ! j \<le> xs ! base"
      using sorted_nth_mono [OF assms(1) \<open>j \<le> base\<close> b(1)] .
    ultimately show ?thesis by (meson le_less_trans)
  qed
  have "i \<le> length xs" using b(1) i(2) by (auto split: if_splits)
  moreover have "\<forall>y \<in> set (take i xs). y < x"
    using low by (auto simp: in_set_conv_nth)
  moreover have "\<forall>y \<in> set (drop i xs). x < y"
    using up by (auto simp: in_set_conv_nth)
  ultimately show ?thesis by blast
qed

subsection \<open>Warm sets\<close>

datatype db_id = DbId string

definition WARM_SET_CAP :: nat where
  "WARM_SET_CAP = 8192"

record warm_set =
  ws_pages :: "u64 list"
  ws_saturated :: bool

definition ws_new :: warm_set where
  "ws_new = \<lparr>ws_pages = [], ws_saturated = False\<rparr>"

definition vec_insert :: "nat \<Rightarrow> 'a \<Rightarrow> 'a list \<Rightarrow> 'a list" where
  "vec_insert i x xs = take i xs @ [x] @ drop i xs"

definition learn_page :: "warm_set \<Rightarrow> u64 \<Rightarrow> warm_set" where
  "learn_page w page =
     (case binary_search (ws_pages w) page of
        Inr _ \<Rightarrow> w
      | Inl idx \<Rightarrow>
          if WARM_SET_CAP \<le> length (ws_pages w) then w\<lparr>ws_saturated := True\<rparr>
          else w\<lparr>ws_pages := vec_insert idx page (ws_pages w)\<rparr>)"

definition learn :: "warm_set \<Rightarrow> u64 list \<Rightarrow> warm_set" where
  "learn w touched = foldl learn_page w touched"

text \<open>The invariant: strictly ascending, bounded, and saturated only when full.\<close>

definition ws_inv :: "warm_set \<Rightarrow> bool" where
  "ws_inv w \<longleftrightarrow> sorted_wrt (<) (ws_pages w) \<and> length (ws_pages w) \<le> WARM_SET_CAP \<and>
     (ws_saturated w \<longrightarrow> length (ws_pages w) = WARM_SET_CAP)"

lemma ws_inv_new [simp]: "ws_inv ws_new"
  by (simp add: ws_inv_def ws_new_def)

lemma ws_inv_sorted: "ws_inv w \<Longrightarrow> sorted (ws_pages w)"
  by (simp add: ws_inv_def strict_sorted_iff)

lemma learn_page_cases:
  assumes "ws_inv w"
  obtains (known) "page \<in> set (ws_pages w)" "learn_page w page = w"
    | (full) "page \<notin> set (ws_pages w)" "length (ws_pages w) = WARM_SET_CAP"
        "learn_page w page = w\<lparr>ws_saturated := True\<rparr>"
    | (new) i where "page \<notin> set (ws_pages w)" "length (ws_pages w) < WARM_SET_CAP" "i \<le> length (ws_pages w)"
        "\<forall>y \<in> set (take i (ws_pages w)). y < page" "\<forall>y \<in> set (drop i (ws_pages w)). page < y"
        "learn_page w page = w\<lparr>ws_pages := vec_insert i page (ws_pages w)\<rparr>"
proof (cases "binary_search (ws_pages w) page")
  case (Inr i)
  with binary_search_Inr [OF ws_inv_sorted [OF assms]] have "page \<in> set (ws_pages w)"
    by (metis nth_mem)
  then show ?thesis using Inr by (intro known) (simp_all add: learn_page_def)
next
  case (Inl i)
  note s = binary_search_Inl [OF ws_inv_sorted [OF assms] Inl]
  have "set (ws_pages w) = set (take i (ws_pages w)) \<union> set (drop i (ws_pages w))"
    by (metis append_take_drop_id set_append)
  then have notin: "page \<notin> set (ws_pages w)" using s by blast
  show ?thesis
  proof (cases "WARM_SET_CAP \<le> length (ws_pages w)")
    case True
    with assms have "length (ws_pages w) = WARM_SET_CAP" by (simp add: ws_inv_def)
    then show ?thesis using Inl notin by (intro full) (simp_all add: learn_page_def)
  next
    case False
    then show ?thesis using Inl notin s by (intro new [of i]) (simp_all add: learn_page_def)
  qed
qed

lemma set_vec_insert [simp]: "set (vec_insert i x xs) = insert x (set xs)"
proof -
  have "set (vec_insert i x xs) = insert x (set (take i xs @ drop i xs))"
    by (simp only: vec_insert_def set_append) auto
  then show ?thesis by (simp only: append_take_drop_id)
qed

lemma length_vec_insert [simp]: "length (vec_insert i x xs) = Suc (length xs)"
proof -
  have "length (vec_insert i x xs) = Suc (length (take i xs @ drop i xs))"
    by (simp only: vec_insert_def length_append list.size)
  then show ?thesis by (simp only: append_take_drop_id)
qed

lemma sorted_vec_insert:
  assumes "sorted_wrt (<) xs" "\<forall>y \<in> set (take i xs). y < x" "\<forall>y \<in> set (drop i xs). x < y"
  shows "sorted_wrt (<) (vec_insert i x xs)"
proof -
  have "sorted_wrt (<) (take i xs @ drop i xs)" using assms(1) by simp
  then have "sorted_wrt (<) (take i xs)" "sorted_wrt (<) (drop i xs)"
    "\<forall>a \<in> set (take i xs). \<forall>b \<in> set (drop i xs). a < b"
    unfolding sorted_wrt_append by blast+
  then show ?thesis using assms(2,3) by (auto simp: vec_insert_def sorted_wrt_append)
qed

lemma learn_page_inv: "ws_inv w \<Longrightarrow> ws_inv (learn_page w page)"
proof -
  assume inv: "ws_inv w"
  then show ?thesis
  proof (cases rule: learn_page_cases [where page = page])
    case (new i)
    then show ?thesis using inv by (auto simp: ws_inv_def sorted_vec_insert)
  qed (use inv in \<open>simp_all add: ws_inv_def\<close>)
qed

lemma learn_page_set:
  assumes "ws_inv w"
  shows "set (ws_pages w) \<subseteq> set (ws_pages (learn_page w page))"
    and "set (ws_pages (learn_page w page)) \<subseteq> insert page (set (ws_pages w))"
    and "page \<in> set (ws_pages (learn_page w page)) \<or>
      (ws_saturated (learn_page w page) \<and> length (ws_pages (learn_page w page)) = WARM_SET_CAP)"
    and "ws_saturated w \<longrightarrow> ws_saturated (learn_page w page)"
proof -
  have "set (ws_pages w) \<subseteq> set (ws_pages (learn_page w page)) \<and>
    set (ws_pages (learn_page w page)) \<subseteq> insert page (set (ws_pages w)) \<and>
    (page \<in> set (ws_pages (learn_page w page)) \<or>
      (ws_saturated (learn_page w page) \<and> length (ws_pages (learn_page w page)) = WARM_SET_CAP)) \<and>
    (ws_saturated w \<longrightarrow> ws_saturated (learn_page w page))"
    using assms
  proof (cases rule: learn_page_cases [where page = page])
    case known
    then show ?thesis by (simp only:) blast
  next
    case full
    then show ?thesis by (simp only:) auto
  next
    case (new i)
    then show ?thesis by (simp only:) auto
  qed
  then show "set (ws_pages w) \<subseteq> set (ws_pages (learn_page w page))"
    and "set (ws_pages (learn_page w page)) \<subseteq> insert page (set (ws_pages w))"
    and "page \<in> set (ws_pages (learn_page w page)) \<or>
      (ws_saturated (learn_page w page) \<and> length (ws_pages (learn_page w page)) = WARM_SET_CAP)"
    and "ws_saturated w \<longrightarrow> ws_saturated (learn_page w page)"
    by blast+
qed

lemma learn_inv: "ws_inv w \<Longrightarrow> ws_inv (learn w touched)"
  unfolding learn_def by (induction touched arbitrary: w) (simp_all add: learn_page_inv)

lemma learn_set:
  assumes "ws_inv w"
  shows "set (ws_pages w) \<subseteq> set (ws_pages (learn w touched)) \<and>
    set (ws_pages (learn w touched)) \<subseteq> set (ws_pages w) \<union> set touched \<and>
    (ws_saturated w \<longrightarrow> ws_saturated (learn w touched)) \<and>
    (ws_saturated (learn w touched) \<or> set touched \<subseteq> set (ws_pages (learn w touched)))"
  using assms
proof (induction touched arbitrary: w)
  case Nil
  then show ?case by (simp add: learn_def)
next
  case (Cons page touched)
  have "learn w (page # touched) = learn (learn_page w page) touched" by (simp add: learn_def)
  with Cons.IH [OF learn_page_inv [OF Cons.prems, of page]] learn_page_set [OF Cons.prems, of page]
  show ?case by auto
qed

text \<open>A page the set holds, or that a full and saturated set refuses, teaches nothing.\<close>

lemma learn_absorbed:
  assumes "ws_inv w" "ws_saturated w \<or> set touched \<subseteq> set (ws_pages w)"
  shows "learn w touched = w"
  using assms(2)
proof (induction touched)
  case Nil
  then show ?case by (simp add: learn_def)
next
  case (Cons page touched)
  have "learn_page w page = w"
    using assms(1)
  proof (cases rule: learn_page_cases [where page = page])
    case full
    with Cons.prems have "ws_saturated w" by auto
    with full show ?thesis by simp
  next
    case (new i)
    with Cons.prems assms(1) show ?thesis by (auto simp: ws_inv_def)
  qed
  with Cons show ?case by (auto simp: learn_def)
qed

lemma learn_idem: "ws_inv w \<Longrightarrow> learn (learn w touched) touched = learn w touched"
  using learn_absorbed [OF learn_inv] learn_set by blast

subsection \<open>The interface of a learned set\<close>

text \<open>What the scheduler needs of a warm set, and what follows for a history of observations.\<close>

locale learned_set =
  fixes new :: 'w and teach :: "'w \<Rightarrow> u64 list \<Rightarrow> 'w" and pages :: "'w \<Rightarrow> u64 list"
    and full :: "'w \<Rightarrow> bool" and inv :: "'w \<Rightarrow> bool"
  assumes inv_new: "inv new" and pages_new: "pages new = []"
    and inv_teach: "inv w \<Longrightarrow> inv (teach w t)"
    and pages_sorted: "inv w \<Longrightarrow> sorted_wrt (<) (pages w)"
    and pages_grow: "inv w \<Longrightarrow> set (pages w) \<subseteq> set (pages (teach w t))"
    and pages_honest: "inv w \<Longrightarrow> set (pages (teach w t)) \<subseteq> set (pages w) \<union> set t"
    and pages_all: "inv w \<Longrightarrow> \<not> full (teach w t) \<Longrightarrow> set t \<subseteq> set (pages (teach w t))"
    and full_stays: "inv w \<Longrightarrow> full w \<Longrightarrow> full (teach w t)"
    and teach_again: "inv w \<Longrightarrow> teach (teach w t) t = teach w t"
begin

lemma inv_history: "inv w \<Longrightarrow> inv (foldl teach w ts)"
  by (induction ts arbitrary: w) (simp_all add: inv_teach)

lemma full_history: "inv w \<Longrightarrow> full w \<Longrightarrow> full (foldl teach w ts)"
  by (induction ts arbitrary: w) (simp_all add: inv_teach full_stays)

lemma set_history:
  "inv w \<Longrightarrow> \<not> full (foldl teach w ts) \<Longrightarrow>
     set (pages (foldl teach w ts)) = set (pages w) \<union> (\<Union>t \<in> set ts. set t)"
proof (induction ts arbitrary: w)
  case Nil
  then show ?case by simp
next
  case (Cons t ts)
  have inv': "inv (teach w t)" by (rule inv_teach [OF Cons.prems(1)])
  have nf: "\<not> full (foldl teach (teach w t) ts)" using Cons.prems(2) by simp
  then have "\<not> full (teach w t)" using full_history [OF inv'] by blast
  then have "set (pages (teach w t)) = set (pages w) \<union> set t"
    using pages_grow [OF Cons.prems(1), of t] pages_honest [OF Cons.prems(1), of t]
      pages_all [OF Cons.prems(1)] by blast
  with Cons.IH [OF inv' nf] show ?case by auto
qed

lemma sub_history: "inv w \<Longrightarrow> set (pages (foldl teach w ts)) \<subseteq> set (pages w) \<union> (\<Union>t \<in> set ts. set t)"
proof (induction ts arbitrary: w)
  case (Cons t ts)
  show ?case using Cons.IH [OF inv_teach [OF Cons.prems, of t]] pages_honest [OF Cons.prems, of t] by auto
qed simp

lemma history_exact:
  assumes "\<not> full (foldl teach new ts)"
  shows "pages (foldl teach new ts) = sorted_list_of_set (\<Union>t \<in> set ts. set t)"
proof -
  have "sorted_wrt (<) (pages (foldl teach new ts))"
    by (rule pages_sorted [OF inv_history [OF inv_new]])
  moreover have "set (pages (foldl teach new ts)) = (\<Union>t \<in> set ts. set t)"
    using set_history [OF inv_new assms] by (simp add: pages_new)
  ultimately show ?thesis
    by (metis strict_sorted_iff sorted_list_of_set.idem_if_sorted_distinct)
qed

end

interpretation warm: learned_set ws_new learn ws_pages ws_saturated ws_inv
proof
  show "ws_pages ws_new = []" by (simp add: ws_new_def)
next
  fix w t
  assume inv: "ws_inv w"
  then show "ws_inv (learn w t)" by (rule learn_inv)
  show "sorted_wrt (<) (ws_pages w)" using inv by (simp add: ws_inv_def)
  show "learn (learn w t) t = learn w t" using inv by (rule learn_idem)
  show "set (ws_pages w) \<subseteq> set (ws_pages (learn w t))"
    "set (ws_pages (learn w t)) \<subseteq> set (ws_pages w) \<union> set t"
    "ws_saturated w \<Longrightarrow> ws_saturated (learn w t)"
    "\<not> ws_saturated (learn w t) \<Longrightarrow> set t \<subseteq> set (ws_pages (learn w t))"
    using learn_set [OF inv, of t] by auto
qed simp_all

subsection \<open>The recording source\<close>

record 's recording =
  rec_inner :: 's
  rec_touched :: "u64 list"

definition rec_new :: "'s \<Rightarrow> 's recording" where
  "rec_new inner = \<lparr>rec_inner = inner, rec_touched = []\<rparr>"

definition rec_record :: "'s recording \<Rightarrow> u64 \<Rightarrow> 's recording" where
  "rec_record r page_no = r\<lparr>rec_touched := rec_touched r @ [page_no]\<rparr>"

definition touched :: "'s recording \<Rightarrow> u64 list" where
  "touched r = remdups_adj (sort (rec_touched r))"

definition rec_read_page ::
  "'s page_source \<Rightarrow> 's recording \<Rightarrow> u64 \<Rightarrow> (vfs_error + bytes) \<times> 's recording" where
  "rec_read_page S r page_no =
     (let r1 = rec_record r page_no
      in case src_read_page S (rec_inner r1) page_no of (res, s) \<Rightarrow> (res, r1\<lparr>rec_inner := s\<rparr>))"

definition rec_prefetch :: "'s page_source \<Rightarrow> 's recording \<Rightarrow> u64 list \<Rightarrow> 's recording" where
  "rec_prefetch S r pages =
     (let r1 = foldl rec_record r pages
      in r1\<lparr>rec_inner := src_prefetch S (rec_inner r1) pages\<rparr>)"

definition recording_source :: "'s page_source \<Rightarrow> 's recording page_source" where
  "recording_source S =
     \<lparr>src_page_size = (\<lambda>r. src_page_size S (rec_inner r)),
      src_read_page = rec_read_page S,
      src_prefetch = rec_prefetch S\<rparr>"

lemma recording_source_simps [simp]:
  "src_page_size (recording_source S) r = src_page_size S (rec_inner r)"
  "src_read_page (recording_source S) = rec_read_page S"
  "src_prefetch (recording_source S) = rec_prefetch S"
  by (simp_all add: recording_source_def)

lemma rec_read_page_eq:
  "rec_read_page S r p =
     (fst (src_read_page S (rec_inner r) p),
      \<lparr>rec_inner = snd (src_read_page S (rec_inner r) p), rec_touched = rec_touched r @ [p]\<rparr>)"
  by (cases r) (simp add: rec_read_page_def rec_record_def Let_def split: prod.splits)

lemma foldl_rec_record:
  "foldl rec_record r pages = r\<lparr>rec_touched := rec_touched r @ pages\<rparr>"
  by (induction pages arbitrary: r) (simp_all add: rec_record_def)

lemma rec_prefetch_eq:
  "rec_prefetch S r pages =
     \<lparr>rec_inner = src_prefetch S (rec_inner r) pages, rec_touched = rec_touched r @ pages\<rparr>"
  by (cases r) (simp add: rec_prefetch_def foldl_rec_record)

lemma set_touched [simp]: "set (touched r) = set (rec_touched r)"
  by (simp add: touched_def)

lemma strict_remdups_adj: "sorted xs \<Longrightarrow> sorted_wrt (<) (remdups_adj xs)"
  for xs :: "u64 list"
  by (induction xs rule: remdups_adj.induct) (auto simp: order_less_le)

lemma touched_strict: "sorted_wrt (<) (touched r)"
  by (simp add: touched_def strict_remdups_adj)

text \<open>Wrapping a source that honours the contract gives one that does.\<close>

interpretation recording_safe: page_source_safe "recording_source S"
  "\<lambda>r. page_source_safe S good content \<and> good (rec_inner r)" "\<lambda>r. content (rec_inner r)"
  for S good content
proof
  fix r :: "'a recording"
  assume "page_source_safe S good content \<and> good (rec_inner r)"
  then show "0 < src_page_size (recording_source S) r"
    using page_source_safe.size_pos by fastforce
next
  fix r r' :: "'a recording" and p page
  assume a: "page_source_safe S good content \<and> good (rec_inner r)"
    and "src_read_page (recording_source S) r p = (Inr page, r')"
  then have "src_read_page S (rec_inner r) p = (Inr page, rec_inner r')"
    by (auto simp: rec_read_page_eq prod_eq_iff)
  with a show "page = page_of (unat (src_page_size (recording_source S) r)) (content (rec_inner r)) (unat p)"
    using page_source_safe.read_true by fastforce
next
  fix r r' :: "'a recording" and p res
  assume a: "page_source_safe S good content \<and> good (rec_inner r)"
    and "src_read_page (recording_source S) r p = (res, r')"
  then have "src_read_page S (rec_inner r) p = (res, rec_inner r')"
    by (auto simp: rec_read_page_eq prod_eq_iff)
  with a show "(page_source_safe S good content \<and> good (rec_inner r')) \<and>
      content (rec_inner r') = content (rec_inner r) \<and>
      src_page_size (recording_source S) r' = src_page_size (recording_source S) r"
    using page_source_safe.read_frame by fastforce
next
  fix r :: "'a recording" and pages
  assume a: "page_source_safe S good content \<and> good (rec_inner r)"
  then show "(page_source_safe S good content \<and> good (rec_inner (src_prefetch (recording_source S) r pages))) \<and>
      content (rec_inner (src_prefetch (recording_source S) r pages)) = content (rec_inner r) \<and>
      src_page_size (recording_source S) (src_prefetch (recording_source S) r pages) =
        src_page_size (recording_source S) r"
    using page_source_safe.prefetch_frame by (fastforce simp: rec_prefetch_eq)
qed

subsection \<open>Recording does not change a read\<close>

text \<open>Forgetting the trace of a recorded step gives the step of the source itself.\<close>

fun forget_step :: "'s recording read_step \<Rightarrow> 's read_step" where
  "forget_step (Continue d b r) = Continue d b (rec_inner r)"
| "forget_step (Stop res b r) = Stop res b (rec_inner r)"

lemma serve_step_recording:
  "forget_step (serve_step (recording_source S) ps offset want done buf r) =
     serve_step S ps offset want done buf (rec_inner r)"
  by (auto simp: serve_step_def rec_read_page_eq Let_def split: option.splits sum.splits prod.splits)

lemma serve_loop_recording:
  "(case serve_loop (recording_source S) ps offset want done buf r of (res, b, r') \<Rightarrow> (res, b, rec_inner r'))
     = serve_loop S ps offset want done buf (rec_inner r)"
proof (induction "want - done" arbitrary: "done" buf r rule: less_induct)
  case less
  note step = serve_step_recording [of S ps offset want "done" buf r]
  show ?case
  proof (cases "serve_step (recording_source S) ps offset want done buf r")
    case (Continue d b r')
    then have inner: "serve_step S ps offset want done buf (rec_inner r) = Continue d b (rec_inner r')"
      using step by simp
    show ?thesis
    proof (cases "done < want")
      case True
      then have "want - d < want - done" using serve_step_progress [OF Continue True] by linarith
      with less True Continue inner show ?thesis
        by (simp add: serve_loop.simps [of _ ps offset want "done" buf])
    qed (simp add: serve_loop.simps)
  next
    case (Stop res b r')
    then have "serve_step S ps offset want done buf (rec_inner r) = Stop res b (rec_inner r')"
      using step by simp
    with Stop show ?thesis by (simp add: serve_loop.simps [of _ ps offset want "done" buf])
  qed
qed

lemma serve_read_recording:
  "(case serve_read (recording_source S) total_len offset buf r of (res, b, r') \<Rightarrow> (res, b, rec_inner r'))
     = serve_read S total_len offset buf (rec_inner r)"
  by (simp add: serve_read_def Let_def serve_loop_recording)

subsection \<open>What a read leaves in the trace\<close>

text \<open>The pages of the first \<open>n\<close> bytes at \<open>pos\<close>, in order.\<close>

definition page_span :: "nat \<Rightarrow> nat \<Rightarrow> nat \<Rightarrow> nat list" where
  "page_span ps pos n = (if n = 0 then [] else [pos div ps ..< Suc ((pos + n - 1) div ps)])"

lemma page_span_mem: "0 < ps \<Longrightarrow> i < n \<Longrightarrow> (pos + i) div ps \<in> set (page_span ps pos n)"
proof -
  assume "0 < ps" "i < n"
  then have "pos div ps \<le> (pos + i) div ps" "(pos + i) div ps \<le> (pos + n - 1) div ps"
    by (simp_all add: div_le_mono)
  with \<open>i < n\<close> show ?thesis by (simp add: page_span_def) linarith
qed

lemma page_span_step:
  assumes "0 < ps" "d = 0 \<or> (pos + d) mod ps = 0" "d < want"
    and n: "n = min (ps - (pos + d) mod ps) (want - d)"
  shows "page_span ps pos (d + n) = page_span ps pos d @ [(pos + d) div ps]"
    and "d + n < want \<Longrightarrow> (pos + (d + n)) mod ps = 0"
proof -
  have m: "(pos + d) mod ps < ps" using assms(1) by simp
  have n1: "0 < n" "(pos + d) mod ps + (n - 1) < ps" using n m assms(3) by auto
  have "pos + (d + n) - 1 = (pos + d) + (n - 1)" using n1(1) by simp
  then have last: "(pos + (d + n) - 1) div ps = (pos + d) div ps"
    using same_page(1) [OF n1(2)] by simp
  show "page_span ps pos (d + n) = page_span ps pos d @ [(pos + d) div ps]"
  proof (cases "d = 0")
    case True
    then show ?thesis using last n1(1) by (simp add: page_span_def)
  next
    case False
    then have zero: "(pos + d) mod ps = 0" using assms(2) by simp
    then have "0 < (pos + d) div ps"
      using False assms(1) by (metis add_is_0 bot_nat_0.not_eq_extremum div_mult_mod_eq mult_is_0)
    have "(pos + d - 1) div ps = (pos + d) div ps - 1"
    proof -
      have "pos + d = ps * ((pos + d) div ps)" using zero by (simp add: mod_0_imp_dvd)
      moreover have "ps * ((pos + d) div ps) - 1 = ps * ((pos + d) div ps - 1) + (ps - 1)"
        using \<open>0 < (pos + d) div ps\<close> assms(1)
        by (metis Nat.add_diff_assoc One_nat_def Suc_leI Suc_pred' add.commute mult_Suc_right)
      ultimately have "(pos + d - 1) div ps = (ps * ((pos + d) div ps - 1) + (ps - 1)) div ps" by simp
      also have "\<dots> = (pos + d) div ps - 1"
        using assms(1) by (intro div_nat_eqI) (simp_all add: mult.commute)
      finally show ?thesis .
    qed
    moreover have "pos div ps \<le> (pos + d) div ps" by (simp add: div_le_mono)
    ultimately show ?thesis
      using False last \<open>0 < (pos + d) div ps\<close> n1(1) by (simp add: page_span_def)
  qed
  show "(pos + (d + n)) mod ps = 0" if "d + n < want"
  proof -
    have "n = ps - (pos + d) mod ps" using that n by auto
    then have "pos + (d + n) = ps * ((pos + d) div ps) + ps"
      using m mult_div_mod_eq [of ps "pos + d"] by linarith
    then show ?thesis by simp
  qed
qed

lemma min_clip: "w \<le> x - m \<Longrightarrow> min (min p x - m) w = min (p - m) w" for w :: nat
  by (auto simp: min_def)

context page_source_safe
begin

lemma trace_step:
  assumes good: "good (rec_inner r)" and ps: "src_page_size S (rec_inner r) = ps"
    and step: "serve_step (recording_source S) ps offset want done buf r = Continue done' buf' r'"
    and len: "unat offset + want \<le> length (content (rec_inner r))"
    and lt: "done < want" "want < 2 ^ 64"
  shows "rec_touched r' = rec_touched r @ [word_of_nat ((unat offset + done) div unat ps)]"
    and "done' = done + min (unat ps - (unat offset + done) mod unat ps) (want - done)"
proof -
  let ?pos = "unat offset + done"
  obtain page n where
    fits: "unat offset + unat (word_of_nat done :: u64) < 2 ^ 64"
    and rd: "rec_read_page S r ((offset + word_of_nat done) div ps) = (Inr page, r')"
    and n: "n = min (length page - unat ((offset + word_of_nat done) mod ps)) (want - done)"
      "done' = done + n"
    by (rule serve_step_Continue [OF step]) (rule that, simp_all)
  note pos = step_position [OF fits less_trans [OF lt], of ps]
  have "word_of_nat (unat ((offset + word_of_nat done) div ps)) = (offset + word_of_nat done) div ps"
    by simp
  then have w: "(offset + word_of_nat done) div ps = word_of_nat (?pos div unat ps)"
    by (simp only: pos(1))
  show "rec_touched r' = rec_touched r @ [word_of_nat (?pos div unat ps)]"
    using rd by (auto simp: rec_read_page_eq w)
  have "src_read_page S (rec_inner r) ((offset + word_of_nat done) div ps) = (Inr page, rec_inner r')"
    using rd by (auto simp: rec_read_page_eq prod_eq_iff)
  from read_true [OF good this] have page: "page = page_of (unat ps) (content (rec_inner r)) (?pos div unat ps)"
    by (simp add: ps pos(1))
  have "?pos div unat ps * unat ps + ?pos mod unat ps = ?pos" by simp
  then have "length (content (rec_inner r)) - ?pos div unat ps * unat ps - ?pos mod unat ps
      = length (content (rec_inner r)) - ?pos"
    by (metis diff_diff_left)
  moreover have "want - done \<le> length (content (rec_inner r)) - ?pos" using len lt(1) by linarith
  ultimately have "want - done \<le>
      length (content (rec_inner r)) - ?pos div unat ps * unat ps - ?pos mod unat ps" by simp
  from min_clip [OF this] show "done' = done + min (unat ps - ?pos mod unat ps) (want - done)"
    by (simp only: n pos(2) page length_page_of)
qed

lemma trace_loop:
  assumes run: "serve_loop (recording_source S) ps offset want 0 buf r = (Ok m, buf', r')"
    and good: "good (rec_inner r)" and ps: "src_page_size S (rec_inner r) = ps"
    and len: "unat offset + want \<le> length (content (rec_inner r))" "want < 2 ^ 64"
  shows "rec_touched r' = rec_touched r @ map word_of_nat (page_span (unat ps) (unat offset) want)"
proof -
  have ps0: "0 < unat ps" using size_pos [OF good] ps by (simp add: word_less_nat_alt)
  have safe: "page_source_safe S good content" by (rule page_source_safe_axioms)
  let ?I = "\<lambda>d b s. d \<le> want \<and> good (rec_inner s) \<and> content (rec_inner s) = content (rec_inner r) \<and>
    src_page_size S (rec_inner s) = ps \<and>
    (d = want \<or> d = 0 \<or> (unat offset + d) mod unat ps = 0) \<and>
    rec_touched s = rec_touched r @ map word_of_nat (page_span (unat ps) (unat offset) d)"
  show ?thesis
    using run
  proof (rule serve_loop_rule [where I = ?I])
    show "?I 0 buf r" using good ps by (simp add: page_span_def)
  next
    fix d b s d' b' s'
    assume I: "?I d b s" and lt: "d < want"
      and step: "serve_step (recording_source S) ps offset want d b s = Continue d' b' s'"
    have ok: "good (rec_inner s)" "src_page_size S (rec_inner s) = ps"
      "unat offset + want \<le> length (content (rec_inner s))"
      using I len(1) by simp_all
    note tr = trace_step [OF ok(1,2) step ok(3) lt len(2)]
    have start: "d = 0 \<or> (unat offset + d) mod unat ps = 0" using I lt by auto
    note span = page_span_step [OF ps0 start lt refl]
    have le: "d' \<le> want" using serve_step_progress [OF step lt] by simp
    have frame: "good (rec_inner s')" "content (rec_inner s') = content (rec_inner s)"
      "src_page_size S (rec_inner s') = src_page_size S (rec_inner s)"
      using recording_safe.serve_step_good [OF conjI [OF safe ok(1)] step] by simp_all
    have "rec_touched s' = rec_touched r @ map word_of_nat (page_span (unat ps) (unat offset) d')"
      using tr I span(1) by simp
    moreover have "d' = want \<or> d' = 0 \<or> (unat offset + d') mod unat ps = 0"
      using le tr(2) span(2) by (cases "d' = want") simp_all
    ultimately show "?I d' b' s'" using le frame I by simp
  next
    fix d
    assume "Ok m = (Ok d :: (vfs_error, nat) outcome)" "want \<le> d" "?I d buf' r'"
    then show ?thesis by simp
  next
    fix d b s
    assume "serve_step (recording_source S) ps offset want d b s = Stop (Ok m) buf' r'"
    then show ?thesis by (auto dest: serve_step_Stop_not_Ok)
  qed
qed

lemma trace_read:
  assumes run: "serve_read (recording_source S) total_len offset buf r = (Ok m, buf', r')"
    and good: "good (rec_inner r)" and len: "unat total_len \<le> length (content (rec_inner r))"
      "length buf < 2 ^ 64"
  shows "rec_touched r' = rec_touched r @
    map word_of_nat (page_span (unat (src_page_size S (rec_inner r))) (unat offset) m)"
proof -
  have m: "m = clamp (unat total_len) (unat offset) (length buf)" by (rule serve_read_Ok [OF run len(2)])
  show ?thesis
    using run len(2)
  proof (cases rule: serve_read_cases)
    case none
    then show ?thesis by (simp add: page_span_def)
  next
    case zero
    then show ?thesis by simp
  next
    case loop
    have "unat offset + m \<le> length (content (rec_inner r))" "m < 2 ^ 64"
      using loop(2) len m by (auto simp: clamp_def word_less_nat_alt)
    with trace_loop [OF loop(4) [folded m, unfolded recording_source_simps] good refl]
    show ?thesis by simp
  qed
qed

end

subsection \<open>The scheduler\<close>

record wake_scheduler =
  sched_warm :: "db_id \<rightharpoonup> warm_set"

definition sched_new :: wake_scheduler where
  "sched_new = \<lparr>sched_warm = Map.empty\<rparr>"

text \<open>\<open>prewarm\<close> returns the number of pages and leaves the woken source prefetched.\<close>

definition prewarm :: "wake_scheduler \<Rightarrow> db_id \<Rightarrow> 's page_source \<Rightarrow> 's \<Rightarrow> nat \<times> 's" where
  "prewarm sched db S st =
     (let pages = (case sched_warm sched db of Some w \<Rightarrow> ws_pages w | None \<Rightarrow> [])
      in (length pages, src_prefetch S st pages))"

definition observe :: "wake_scheduler \<Rightarrow> db_id \<Rightarrow> u64 list \<Rightarrow> wake_scheduler" where
  "observe sched db pages =
     (let w = (case sched_warm sched db of Some w \<Rightarrow> w | None \<Rightarrow> ws_new)
      in sched\<lparr>sched_warm := (sched_warm sched)(db \<mapsto> learn w pages)\<rparr>)"

definition warm_set_of :: "wake_scheduler \<Rightarrow> db_id \<Rightarrow> warm_set" where
  "warm_set_of sched db = (case sched_warm sched db of Some w \<Rightarrow> w | None \<Rightarrow> ws_new)"

lemma warm_set_of_new [simp]: "warm_set_of sched_new db = ws_new"
  by (simp add: warm_set_of_def sched_new_def)

lemma warm_set_of_observe:
  "warm_set_of (observe sched db pages) db' =
     (if db' = db then learn (warm_set_of sched db) pages else warm_set_of sched db')"
  by (simp add: warm_set_of_def observe_def Let_def)

lemma prewarm_eq:
  "prewarm sched db S st =
     (length (ws_pages (warm_set_of sched db)), src_prefetch S st (ws_pages (warm_set_of sched db)))"
  by (simp add: prewarm_def warm_set_of_def ws_new_def Let_def split: option.splits)

text \<open>A history of observations, each for one database, oldest first.\<close>

definition observe_all :: "wake_scheduler \<Rightarrow> (db_id \<times> u64 list) list \<Rightarrow> wake_scheduler" where
  "observe_all sched hist = foldl (\<lambda>s (db, pages). observe s db pages) sched hist"

lemma warm_set_of_history:
  "warm_set_of (observe_all sched hist) db =
     foldl learn (warm_set_of sched db) (map snd (filter (\<lambda>(d, _). d = db) hist))"
proof (induction hist arbitrary: sched)
  case Nil
  then show ?case by (simp add: observe_all_def)
next
  case (Cons h hist)
  obtain d t where h: "h = (d, t)" by fastforce
  have "observe_all sched (h # hist) = observe_all (observe sched d t) hist"
    by (simp add: observe_all_def h)
  with Cons show ?case by (simp add: h warm_set_of_observe)
qed

text \<open>The pages a history observed for a database.\<close>

definition observed :: "(db_id \<times> u64 list) list \<Rightarrow> db_id \<Rightarrow> u64 set" where
  "observed hist db = (\<Union>t \<in> set (map snd (filter (\<lambda>(d, _). d = db) hist)). set t)"

subsection \<open>The guarantees of the scheduler\<close>

text \<open>The binary search is membership in a sorted vector, and a miss names the only place where
  inserting keeps the vector sorted: everything before it is smaller, everything after it larger.\<close>

theorem binary_search_correct:
  assumes "sorted xs"
  shows "case binary_search xs x of
      Inr i \<Rightarrow> i < length xs \<and> xs ! i = x
    | Inl i \<Rightarrow> i \<le> length xs \<and> (\<forall>y \<in> set (take i xs). y < x) \<and> (\<forall>y \<in> set (drop i xs). x < y)"
  using binary_search_Inr [OF assms] binary_search_Inl [OF assms] by (auto split: sum.split)

lemma binary_search_correct_witness:
  "binary_search [1, 3, 5] 4 = Inl 2 \<and> 2 \<le> length [1, 3, 5 :: u64] \<and> list_all (\<lambda>y. y < 4) (take 2 [1, 3, 5 :: u64])"
proof -
  have "binary_search [1, 3, 5] 4 = Inl 2"
    by (simp add: binary_search_def bisect.simps Let_def)
  with binary_search_correct [of "[1, 3, 5]" 4] show ?thesis by (simp add: list_all_iff)
qed

text \<open>C31: the warm set is what was observed. After any history of observations over any databases, a
  database's warm set is, as long as it has not saturated, exactly the sorted, duplicate-free list of
  the pages observed for that database; saturated or not it stays sorted, within the cap, and free of
  pages never observed; and observing the last trace again changes nothing.\<close>

theorem warm_set_exact:
  "ws_inv (warm_set_of (observe_all sched_new hist) db) \<and>
    set (ws_pages (warm_set_of (observe_all sched_new hist) db)) \<subseteq> observed hist db \<and>
    (ws_saturated (warm_set_of (observe_all sched_new hist) db) \<or>
     ws_pages (warm_set_of (observe_all sched_new hist) db) = sorted_list_of_set (observed hist db)) \<and>
    warm_set_of (observe (observe (observe_all sched_new hist) db t) db t) db =
      warm_set_of (observe (observe_all sched_new hist) db t) db"
proof (intro conjI)
  let ?ts = "map snd (filter (\<lambda>(d, _). d = db) hist)"
  have w: "warm_set_of (observe_all sched_new hist) db = foldl learn ws_new ?ts"
    by (simp add: warm_set_of_history)
  show inv: "ws_inv (warm_set_of (observe_all sched_new hist) db)"
    unfolding w by (rule warm.inv_history [OF warm.inv_new])
  show "set (ws_pages (warm_set_of (observe_all sched_new hist) db)) \<subseteq> observed hist db"
    using warm.sub_history [OF warm.inv_new, of ?ts] unfolding w observed_def by (simp add: warm.pages_new)
  show "ws_saturated (warm_set_of (observe_all sched_new hist) db) \<or>
     ws_pages (warm_set_of (observe_all sched_new hist) db) = sorted_list_of_set (observed hist db)"
    unfolding w observed_def using warm.history_exact by blast
  show "warm_set_of (observe (observe (observe_all sched_new hist) db t) db t) db =
      warm_set_of (observe (observe_all sched_new hist) db t) db"
    using warm.teach_again [OF inv] by (simp add: warm_set_of_observe)
qed

text \<open>Recording is transparent: a read through the recorder returns the result, the buffer and
  the inner state of the same read without it, for any source.\<close>

theorem recording_transparent:
  "(case serve_read (recording_source S) total_len offset buf r of (res, b, r') \<Rightarrow> (res, b, rec_inner r'))
     = serve_read S total_len offset buf (rec_inner r)"
  by (rule serve_read_recording)

text \<open>C32: the second wake asks for the right pages. A read of a woken database through a fresh
  recorder leaves in its trace exactly the pages of the bytes it served, in order, each once; and once
  that trace is observed, the next prewarm asks for every one of them unless the warm set saturated.\<close>

theorem second_wake_prewarms_query:
  assumes "pager_serves P I f" "I (ts_store t)" "unat total_len \<le> length f" "length buf \<le> isize_max"
    and "serve_read (recording_source (tiered_source P order)) total_len offset buf (rec_new t) = (Ok n, buf', r)"
    and "ws_inv (warm_set_of sched db)" "\<not> ws_saturated (warm_set_of (observe sched db (touched r)) db)"
  shows "rec_touched r = map word_of_nat (page_span (unat (to_page_size P (ts_store t))) (unat offset) n) \<and>
    (\<exists>pages. prewarm (observe sched db (touched r)) db S st = (length pages, src_prefetch S st pages) \<and>
      sorted_wrt (<) pages \<and>
      (\<forall>i < n. word_of_nat ((unat offset + i) div unat (to_page_size P (ts_store t))) \<in> set pages))"
proof -
  let ?ps = "unat (to_page_size P (ts_store t))"
  let ?w = "warm_set_of (observe sched db (touched r)) db"
  have len: "length buf < 2 ^ 64" using assms(4) by (simp add: isize_max_def)
  have good: "pager_serves P I f \<and> I (ts_store (rec_inner (rec_new t)))"
    using assms(1,2) by (simp add: rec_new_def)
  have tr: "rec_touched r = map word_of_nat (page_span ?ps (unat offset) n)"
    using tiered_safe.trace_read [OF assms(5) good assms(3) len] by (simp add: rec_new_def)
  have ps: "0 < ?ps" using assms(1,2) by (auto simp: pager_serves_def word_less_nat_alt)
  have w: "?w = learn (warm_set_of sched db) (touched r)" by (simp add: warm_set_of_observe)
  have sub: "set (touched r) \<subseteq> set (ws_pages ?w)"
    unfolding w by (rule warm.pages_all [OF assms(6)]) (use assms(7) w in simp)
  have "sorted_wrt (<) (ws_pages ?w)"
    unfolding w by (rule warm.pages_sorted [OF warm.inv_teach [OF assms(6)]])
  moreover have "word_of_nat ((unat offset + i) div ?ps) \<in> set (ws_pages ?w)" if "i < n" for i
    using sub page_span_mem [OF ps that, of "unat offset"] by (auto simp: tr)
  ultimately show ?thesis using tr by (auto simp: prewarm_eq)
qed

lemma demo_recorded_read:
  "\<exists>t'. serve_read (recording_source (tiered_source (demo_pager [1, 2, 3, 4, 5, 6]) id)) 6 3 [0, 0] (rec_new (new_tiered 0 6))
     = (Ok 2, [4, 5], \<lparr>rec_inner = t', rec_touched = [0, 1]\<rparr>)"
  by (simp add: serve_read_def serve_loop.simps serve_step_def checked_add_def usize_sub_def copy_slice_def
      slice_def rec_read_page_eq rec_new_def tiered_source_def tiered_read_page_def demo_pager_def
      new_tiered_def page_of_def min_def word_le_nat_alt)

lemma second_wake_prewarms_query_witness:
  "\<exists>pages :: u64 list. prewarm (observe sched_new (DbId ''a'') [0, 1]) (DbId ''a'') (stateless 4 (\<lambda>_. Inr [])) ()
      = (length pages, ()) \<and> {0, 1} \<subseteq> set pages"
proof -
  obtain t' where run: "serve_read (recording_source (tiered_source (demo_pager [1, 2, 3, 4, 5, 6]) id)) 6 3
      [0, 0] (rec_new (new_tiered 0 6)) = (Ok 2, [4, 5], \<lparr>rec_inner = t', rec_touched = [0, 1]\<rparr>)"
    using demo_recorded_read by blast
  have t: "touched \<lparr>rec_inner = t', rec_touched = [0, 1]\<rparr> = [0, 1]" by (simp add: touched_def)
  have "\<not> ws_saturated (warm_set_of (observe sched_new (DbId ''a'') [0, 1]) (DbId ''a''))"
    by (simp add: warm_set_of_observe learn_def learn_page_def binary_search_def bisect.simps Let_def
        ws_new_def WARM_SET_CAP_def vec_insert_def)
  then have "\<exists>pages :: u64 list. prewarm (observe sched_new (DbId ''a'') [0, 1]) (DbId ''a'')
      (stateless 4 (\<lambda>_. Inr [])) () = (length pages, src_prefetch (stateless 4 (\<lambda>_. Inr [])) () pages) \<and>
    sorted_wrt (<) pages \<and> (\<forall>i < 2. word_of_nat ((unat (3::u64) + i) div unat (4::u64)) \<in> set pages)"
    using second_wake_prewarms_query [OF demo_pager_serves TrueI _ _ run, of sched_new "DbId ''a''"
        "stateless 4 (\<lambda>_. Inr [])" "()", THEN conjunct2]
    by (simp only: t) (simp add: isize_max_def demo_pager_def new_tiered_def)
  then obtain pages where p: "prewarm (observe sched_new (DbId ''a'') [0, 1]) (DbId ''a'')
      (stateless 4 (\<lambda>_. Inr [])) () = (length pages, src_prefetch (stateless 4 (\<lambda>_. Inr [])) () pages)"
    "\<forall>i < 2. word_of_nat ((unat (3::u64) + i) div unat (4::u64)) \<in> set pages"
    by (elim exE conjE) (rule that)
  have "{0, 1} \<subseteq> set pages" using p(2) [rule_format, of 0] p(2) [rule_format, of 1] by simp
  moreover have "src_prefetch (stateless 4 (\<lambda>_. Inr [])) () pages = ()" by simp
  ultimately show ?thesis using p(1) by (intro exI [of _ pages]) simp
qed

end
