(* ===== verification/Text_Format.thy ===== *)
theory Text_Format
  imports Prelude
begin

section \<open>Text, numbers and paths of the standard library\<close>

text \<open>
  What the sources use of Rust's string and path library: decimal numbers (\<open>format!\<close> with a width,
  \<open>str::parse::<u64>\<close>), prefixes and suffixes, and \<open>std::path\<close> on Unix. A path is its list of
  components, the root being the component \<open>''/''\<close>; \<open>join\<close> with an absolute path replaces, empty
  and \<open>.\<close> components vanish, \<open>..\<close> stays, as \<open>Path::components\<close> has them.
\<close>

subsection \<open>Decimal numbers\<close>

definition digit_char :: "nat \<Rightarrow> char" where
  "digit_char d = char_of (48 + d)"

definition char_digit :: "char \<Rightarrow> nat option" where
  "char_digit c = (let n = of_char c in if 48 \<le> n \<and> n \<le> 57 then Some (n - 48) else None)"

fun dec :: "nat \<Rightarrow> string" where
  "dec n = (if n < 10 then [digit_char n] else dec (n div 10) @ [digit_char (n mod 10)])"

declare dec.simps [simp del]

text \<open>\<open>format!("{n:0w$}")\<close>: at least \<open>w\<close> characters, zeros in front.\<close>

definition pad_dec :: "nat \<Rightarrow> nat \<Rightarrow> string" where
  "pad_dec w n = replicate (w - length (dec n)) CHR ''0'' @ dec n"

text \<open>\<open>from_str_radix(_, 10)\<close> of u64: an optional plus sign, then digits, refused on overflow.\<close>

fun parse_digits :: "nat \<Rightarrow> string \<Rightarrow> nat option" where
  "parse_digits acc [] = Some acc"
| "parse_digits acc (c # cs) =
     (case char_digit c of
        None \<Rightarrow> None
      | Some d \<Rightarrow> if acc * 10 + d < 2 ^ 64 then parse_digits (acc * 10 + d) cs else None)"

definition parse_u64 :: "string \<Rightarrow> u64 option" where
  "parse_u64 s =
     (let ds = (case s of [] \<Rightarrow> [] | c # cs \<Rightarrow> if c = CHR ''+'' then cs else s)
      in if ds = [] then None else map_option word_of_nat (parse_digits 0 ds))"

lemma char_digit_digit_char [simp]: "d < 10 \<Longrightarrow> char_digit (digit_char d) = Some d"
  by (simp add: char_digit_def digit_char_def of_char_of)

lemma digit_char_plus: "d < 10 \<Longrightarrow> digit_char d \<noteq> CHR ''+''"
proof
  assume "d < 10" "digit_char d = CHR ''+''"
  then have "char_digit (CHR ''+'') = Some d" by (metis char_digit_digit_char)
  then show False by (simp add: char_digit_def)
qed

lemma dec_not_Nil [simp]: "dec n \<noteq> []"
  by (subst dec.simps) simp

lemma parse_digits_append:
  "parse_digits acc (xs @ ys) = Option.bind (parse_digits acc xs) (\<lambda>a. parse_digits a ys)"
  by (induction acc xs rule: parse_digits.induct) (auto split: option.split)

lemma parse_digits_dec: "n < 2 ^ 64 \<Longrightarrow> parse_digits 0 (dec n) = Some n"
proof (induction n rule: dec.induct)
  case (1 n)
  show ?case
  proof (cases "n < 10")
    case True
    then show ?thesis by (simp add: dec.simps [of n])
  next
    case False
    then have "parse_digits 0 (dec (n div 10)) = Some (n div 10)"
      using 1 by simp
    moreover have "n div 10 * 10 + n mod 10 = n" by simp
    ultimately show ?thesis using False 1(2)
      by (simp add: dec.simps [of n] parse_digits_append)
  qed
qed

lemma parse_digits_zeros: "parse_digits 0 (replicate k CHR ''0'' @ xs) = parse_digits 0 xs"
proof (induction k)
  case (Suc k)
  have "char_digit (CHR ''0'') = Some 0" by (simp add: char_digit_def)
  with Suc show ?case by simp
qed simp

lemma dec_hd_plus: "hd (dec n) \<noteq> CHR ''+''"
proof (induction n rule: dec.induct)
  case (1 n)
  then show ?case
    by (cases "n < 10") (simp_all add: dec.simps [of n] digit_char_plus)
qed

lemma pad_dec_hd_plus: "hd (pad_dec w n) \<noteq> CHR ''+''"
  by (cases "w - length (dec n)") (simp_all add: pad_dec_def dec_hd_plus)

lemma parse_pad_dec: "n < 2 ^ 64 \<Longrightarrow> parse_u64 (pad_dec w n) = Some (word_of_nat n)"
proof -
  assume n: "n < 2 ^ 64"
  have "pad_dec w n \<noteq> []" by (simp add: pad_dec_def)
  then obtain c cs where c: "pad_dec w n = c # cs" by (cases "pad_dec w n") auto
  with pad_dec_hd_plus [of w n] have "c \<noteq> CHR ''+''" by simp
  moreover have "parse_digits 0 (pad_dec w n) = Some n"
    unfolding pad_dec_def by (simp only: parse_digits_zeros parse_digits_dec [OF n])
  ultimately show ?thesis using c by (simp add: parse_u64_def Let_def)
qed

subsection \<open>Prefixes and suffixes\<close>

definition strip_prefix :: "'a list \<Rightarrow> 'a list \<Rightarrow> 'a list option" where
  "strip_prefix p s = (if take (length p) s = p then Some (drop (length p) s) else None)"

definition strip_suffix :: "'a list \<Rightarrow> 'a list \<Rightarrow> 'a list option" where
  "strip_suffix p s =
     (if length p \<le> length s \<and> drop (length s - length p) s = p
      then Some (take (length s - length p) s) else None)"

lemma strip_suffix_append [simp]: "strip_suffix p (s @ p) = Some s"
  by (simp add: strip_suffix_def)

lemma strip_suffix_Some: "strip_suffix p s = Some r \<longleftrightarrow> s = r @ p"
proof
  assume "strip_suffix p s = Some r"
  then have "r = take (length s - length p) s" "drop (length s - length p) s = p"
    by (auto simp: strip_suffix_def split: if_splits)
  then show "s = r @ p" by (metis append_take_drop_id)
qed simp

lemma strip_prefix_Some: "strip_prefix p s = Some r \<longleftrightarrow> s = p @ r"
  by (auto simp: strip_prefix_def append_eq_conv_conj) (metis append_take_drop_id)

subsection \<open>Paths\<close>

type_synonym path = "string list"

fun split_on :: "char \<Rightarrow> string \<Rightarrow> string list" where
  "split_on c [] = [[]]"
| "split_on c (x # xs) =
     (if x = c then [] # split_on c xs
      else (case split_on c xs of [] \<Rightarrow> [[x]] | w # ws \<Rightarrow> (x # w) # ws))"

text \<open>The components of a path written as a string.\<close>

definition components :: "string \<Rightarrow> path" where
  "components s =
     (let cs = filter (\<lambda>c. c \<noteq> [] \<and> c \<noteq> ''.'') (split_on CHR ''/'' s)
      in if take 1 s = ''/'' then ''/'' # cs
         else if take 1 (split_on CHR ''/'' s) = [''.''] then ''.'' # cs else cs)"

definition join :: "path \<Rightarrow> string \<Rightarrow> path" where
  "join p s =
     (if take 1 s = ''/'' then components s
      else p @ filter (\<lambda>c. c \<noteq> [] \<and> c \<noteq> ''.'') (split_on CHR ''/'' s))"

text \<open>\<open>Path::file_name\<close>: the last component, unless it is the root, \<open>.\<close> or \<open>..\<close>.\<close>

definition file_name :: "path \<Rightarrow> string option" where
  "file_name p =
     (if p = [] \<or> last p \<in> {''/'', ''..'', ''.''} then None else Some (last p))"

lemma split_on_plain: "c \<notin> set s \<Longrightarrow> split_on c s = [s]"
  by (induction s) auto

lemma join_plain:
  "s \<noteq> [] \<Longrightarrow> s \<noteq> ''.'' \<Longrightarrow> CHR ''/'' \<notin> set s \<Longrightarrow> join p s = p @ [s]"
  by (cases s) (auto simp: join_def split_on_plain)

lemma file_name_join:
  "s \<noteq> [] \<Longrightarrow> s \<noteq> ''.'' \<Longrightarrow> s \<noteq> ''..'' \<Longrightarrow> CHR ''/'' \<notin> set s \<Longrightarrow> file_name (join p s) = Some s"
  by (auto simp: join_plain file_name_def)

text \<open>A path as it is displayed.\<close>

fun join_with :: "string \<Rightarrow> string list \<Rightarrow> string" where
  "join_with sep [] = []"
| "join_with sep [w] = w"
| "join_with sep (w # ws) = w @ sep @ join_with sep ws"

definition path_string :: "path \<Rightarrow> string" where
  "path_string p =
     (case p of
        [] \<Rightarrow> []
      | c # cs \<Rightarrow> if c = ''/'' then ''/'' @ join_with ''/'' cs else join_with ''/'' p)"

datatype io_error = IoNotFound | IoAlreadyExists | IoOther string

end
