(* ===== verification/Fs.thy ===== *)
theory Fs
  imports Text_Format "HOL-Library.AList"
begin

section \<open>The file system\<close>

text \<open>
  What the sources use of \<open>std::fs\<close> on Unix: a tree of files, directories and symbolic links as an
  association list from paths, and a schedule of faults (no space, no permission, a vanished disk):
  call number \<open>n\<close> fails with \<open>fs_faults n\<close>. A call that works in several steps may have done some of
  them by then: a write or a copy has created or truncated its file and written the first
  \<open>fs_done n\<close> bytes, \<open>create_dir_all\<close> has made the first \<open>fs_done n\<close> directories of its path, and
  \<open>remove_dir_all\<close> has removed the paths of \<open>fs_gone n\<close>; every other call fails before it has an
  effect. Faults carry a message and are never \<open>NotFound\<close> or \<open>AlreadyExists\<close>, which the operations
  report themselves. Paths are looked up as they are written: the sources do not open a path below a
  link they made.
\<close>

datatype node = FileNode bytes | DirNode | LinkNode path

record fs =
  fs_tree :: "(path \<times> node) list"
  fs_faults :: "nat \<Rightarrow> string option"
  fs_calls :: nat
  fs_done :: "nat \<Rightarrow> nat option"
  fs_gone :: "nat \<Rightarrow> path \<Rightarrow> bool"

definition fs_lookup :: "fs \<Rightarrow> path \<Rightarrow> node option" where
  "fs_lookup f p = (if p = [] then Some DirNode else map_of (fs_tree f) p)"

text \<open>
  One call: the fault scheduled for it, with what of the operation happened before (\<open>part\<close>), or the
  operation.
\<close>

definition fs_call_in_parts :: "fs \<Rightarrow> (nat \<Rightarrow> fs \<Rightarrow> fs) \<Rightarrow> (fs \<Rightarrow> (io_error + 'a) \<times> fs) \<Rightarrow> (io_error + 'a) \<times> fs" where
  "fs_call_in_parts f part act =
     (let f' = f\<lparr>fs_calls := Suc (fs_calls f)\<rparr>
      in case fs_faults f (fs_calls f) of
           Some e \<Rightarrow> (Inl (IoOther e), part (fs_calls f) f')
         | None \<Rightarrow> act f')"

definition fs_call :: "fs \<Rightarrow> (fs \<Rightarrow> (io_error + 'a) \<times> fs) \<Rightarrow> (io_error + 'a) \<times> fs" where
  "fs_call f act =
     (let f' = f\<lparr>fs_calls := Suc (fs_calls f)\<rparr>
      in case fs_faults f (fs_calls f) of
           Some e \<Rightarrow> (Inl (IoOther e), f')
         | None \<Rightarrow> act f')"

definition fs_put :: "fs \<Rightarrow> path \<Rightarrow> node \<Rightarrow> fs" where
  "fs_put f p n = f\<lparr>fs_tree := AList.update p n (fs_tree f)\<rparr>"

definition fs_del :: "fs \<Rightarrow> path \<Rightarrow> fs" where
  "fs_del f p = f\<lparr>fs_tree := AList.delete p (fs_tree f)\<rparr>"

definition is_file :: "fs \<Rightarrow> path \<Rightarrow> bool" where
  "is_file f p = (case fs_lookup f p of Some (FileNode _) \<Rightarrow> True | _ \<Rightarrow> False)"

definition is_dir :: "fs \<Rightarrow> path \<Rightarrow> bool" where
  "is_dir f p = (fs_lookup f p = Some DirNode)"

definition path_exists :: "fs \<Rightarrow> path \<Rightarrow> bool" where
  "path_exists f p = (fs_lookup f p \<noteq> None)"

definition fs_read :: "fs \<Rightarrow> path \<Rightarrow> (io_error + bytes) \<times> fs" where
  "fs_read f p = fs_call f (\<lambda>f.
     (case fs_lookup f p of
        Some (FileNode b) \<Rightarrow> Inr b
      | Some DirNode \<Rightarrow> Inl (IoOther ''is a directory'')
      | Some (LinkNode _) \<Rightarrow> Inl (IoOther ''is a link'')
      | None \<Rightarrow> Inl IoNotFound, f))"

text \<open>What a write that fails on the way leaves: nothing new, or the beginning of the bytes.\<close>

definition put_part :: "path \<Rightarrow> bytes \<Rightarrow> nat \<Rightarrow> fs \<Rightarrow> fs" where
  "put_part p b n f =
     (case fs_done f n of
        None \<Rightarrow> f
      | Some k \<Rightarrow>
          if is_dir f (butlast p) \<and> (is_file f p \<or> \<not> path_exists f p) then fs_put f p (FileNode (take k b)) else f)"

definition fs_write :: "fs \<Rightarrow> path \<Rightarrow> bytes \<Rightarrow> (io_error + unit) \<times> fs" where
  "fs_write f p b = fs_call_in_parts f (put_part p b) (\<lambda>f.
     if \<not> is_dir f (butlast p) then (Inl IoNotFound, f)
     else if is_dir f p then (Inl (IoOther ''is a directory''), f)
     else (Inr (), fs_put f p (FileNode b)))"

definition fs_remove_file :: "fs \<Rightarrow> path \<Rightarrow> (io_error + unit) \<times> fs" where
  "fs_remove_file f p = fs_call f (\<lambda>f.
     (case fs_lookup f p of
        None \<Rightarrow> (Inl IoNotFound, f)
      | Some DirNode \<Rightarrow> (Inl (IoOther ''is a directory''), f)
      | Some _ \<Rightarrow> (Inr (), fs_del f p)))"

text \<open>\<open>create_dir_all\<close>: the missing directories of the path, from the top.\<close>

fun mk_dirs :: "fs \<Rightarrow> path \<Rightarrow> path \<Rightarrow> (io_error + unit) \<times> fs" where
  "mk_dirs f done [] = (Inr (), f)"
| "mk_dirs f done (c # cs) =
     (let p = done @ [c]
      in case fs_lookup f p of
           None \<Rightarrow> mk_dirs (fs_put f p DirNode) p cs
         | Some DirNode \<Rightarrow> mk_dirs f p cs
         | Some _ \<Rightarrow> (Inl IoAlreadyExists, f))"

definition fs_create_dir_all :: "fs \<Rightarrow> path \<Rightarrow> (io_error + unit) \<times> fs" where
  "fs_create_dir_all f p = fs_call_in_parts f
     (\<lambda>n f. case fs_done f n of None \<Rightarrow> f | Some k \<Rightarrow> snd (mk_dirs f [] (take k p)))
     (\<lambda>f. mk_dirs f [] p)"

definition fs_remove_dir_all :: "fs \<Rightarrow> path \<Rightarrow> (io_error + unit) \<times> fs" where
  "fs_remove_dir_all f p = fs_call_in_parts f
     (\<lambda>n f. if is_dir f p then f\<lparr>fs_tree := filter (\<lambda>(q, _). \<not> (take (length p) q = p \<and> fs_gone f n q)) (fs_tree f)\<rparr>
       else f)
     (\<lambda>f.
     (case fs_lookup f p of
        None \<Rightarrow> (Inl IoNotFound, f)
      | Some DirNode \<Rightarrow> (Inr (), f\<lparr>fs_tree := filter (\<lambda>(q, _). take (length p) q \<noteq> p) (fs_tree f)\<rparr>)
      | Some _ \<Rightarrow> (Inl (IoOther ''not a directory''), f)))"

definition dir_entries :: "fs \<Rightarrow> path \<Rightarrow> path list" where
  "dir_entries f p = filter (\<lambda>q. q \<noteq> [] \<and> butlast q = p) (map fst (fs_tree f))"

definition fs_read_dir :: "fs \<Rightarrow> path \<Rightarrow> (io_error + path list) \<times> fs" where
  "fs_read_dir f p = fs_call f (\<lambda>f.
     (case fs_lookup f p of
        None \<Rightarrow> Inl IoNotFound
      | Some DirNode \<Rightarrow> Inr (dir_entries f p)
      | Some _ \<Rightarrow> Inl (IoOther ''not a directory''), f))"

definition fs_symlink_metadata :: "fs \<Rightarrow> path \<Rightarrow> (io_error + node) \<times> fs" where
  "fs_symlink_metadata f p = fs_call f (\<lambda>f.
     (case fs_lookup f p of None \<Rightarrow> Inl IoNotFound | Some n \<Rightarrow> Inr n, f))"

text \<open>
  \<open>metadata\<close> follows a link, its target read from the directory the link is in. A directory has a
  length too, that of its own block.
\<close>

fun walk :: "path \<Rightarrow> path \<Rightarrow> path" where
  "walk p [] = p"
| "walk p (c # cs) = walk (if c = ''..'' then butlast p else p @ [c]) cs"

fun follow :: "nat \<Rightarrow> fs \<Rightarrow> path \<Rightarrow> io_error + node" where
  "follow limit f p =
     (case fs_lookup f p of
        None \<Rightarrow> Inl IoNotFound
      | Some (LinkNode t) \<Rightarrow>
          (case limit of 0 \<Rightarrow> Inl (IoOther ''too many links'') | Suc l \<Rightarrow> follow l f (walk (butlast p) t))
      | Some n \<Rightarrow> Inr n)"

declare follow.simps [simp del]

definition fs_metadata_len :: "fs \<Rightarrow> path \<Rightarrow> (io_error + nat) \<times> fs" where
  "fs_metadata_len f p = fs_call f (\<lambda>f.
     (case follow 40 f p of
        Inl e \<Rightarrow> Inl e
      | Inr (FileNode b) \<Rightarrow> Inr (length b)
      | Inr _ \<Rightarrow> Inr 4096, f))"

definition fs_symlink :: "fs \<Rightarrow> path \<Rightarrow> path \<Rightarrow> (io_error + unit) \<times> fs" where
  "fs_symlink f target link = fs_call f (\<lambda>f.
     if fs_lookup f link \<noteq> None then (Inl IoAlreadyExists, f)
     else if \<not> is_dir f (butlast link) then (Inl IoNotFound, f)
     else (Inr (), fs_put f link (LinkNode target)))"

definition fs_copy :: "fs \<Rightarrow> path \<Rightarrow> path \<Rightarrow> (io_error + unit) \<times> fs" where
  "fs_copy f src dst = fs_call_in_parts f
     (\<lambda>n f. case fs_lookup f src of Some (FileNode b) \<Rightarrow> put_part dst b n f | _ \<Rightarrow> f)
     (\<lambda>f.
     (case fs_lookup f src of
        Some (FileNode b) \<Rightarrow>
          if is_dir f dst then (Inl (IoOther ''is a directory''), f)
          else if is_dir f (butlast dst) then (Inr (), fs_put f dst (FileNode b))
          else (Inl IoNotFound, f)
      | Some _ \<Rightarrow> (Inl (IoOther ''not a file''), f)
      | None \<Rightarrow> (Inl IoNotFound, f)))"

definition fs_canonicalize :: "fs \<Rightarrow> path \<Rightarrow> (io_error + path) \<times> fs" where
  "fs_canonicalize f p = fs_call f (\<lambda>f.
     (if fs_lookup f p = None then Inl IoNotFound else Inr p, f))"

subsection \<open>Reading the tree back\<close>

definition fs_quiet :: "fs \<Rightarrow> bool" where
  "fs_quiet f \<longleftrightarrow> (\<forall>n. fs_faults f n = None)"

named_theorems fs_simps \<open>lookups after a change of the tree\<close>

lemma fs_lookup_put [fs_simps]:
  "p \<noteq> [] \<Longrightarrow> fs_lookup (fs_put f p n) q = (if q = p then Some n else fs_lookup f q)"
  by (simp add: fs_lookup_def fs_put_def update_conv)

lemma fs_lookup_del [fs_simps]:
  "p \<noteq> [] \<Longrightarrow> fs_lookup (fs_del f p) q = (if q = p then None else fs_lookup f q)"
  by (simp add: fs_lookup_def fs_del_def delete_conv)

lemma fs_lookup_calls [simp, fs_simps]: "fs_lookup (f\<lparr>fs_calls := n\<rparr>) p = fs_lookup f p"
  by (simp add: fs_lookup_def)

lemma fs_faults_put [simp]: "fs_faults (fs_put f p n) = fs_faults f" "fs_calls (fs_put f p n) = fs_calls f"
  by (simp_all add: fs_put_def)

lemma fs_faults_del [simp]: "fs_faults (fs_del f p) = fs_faults f" "fs_calls (fs_del f p) = fs_calls f"
  by (simp_all add: fs_del_def)

lemma is_dir_calls [simp]: "is_dir (f\<lparr>fs_calls := n\<rparr>) p = is_dir f p"
  by (simp add: is_dir_def)

lemma is_dir_Nil [simp]: "is_dir f []"
  by (simp add: is_dir_def fs_lookup_def)

lemma fs_call_quiet:
  "fs_quiet f \<Longrightarrow> fs_call f act = act (f\<lparr>fs_calls := Suc (fs_calls f)\<rparr>)"
  "fs_quiet f \<Longrightarrow> fs_call_in_parts f part act = act (f\<lparr>fs_calls := Suc (fs_calls f)\<rparr>)"
  by (simp_all add: fs_call_def fs_call_in_parts_def fs_quiet_def)

text \<open>What a read leaves behind, fault or not.\<close>

lemma fs_read_frame:
  "fs_read f p = (r, f') \<Longrightarrow> (\<forall>q. fs_lookup f' q = fs_lookup f q) \<and> fs_faults f' = fs_faults f \<and>
     (\<forall>b. r = Inr b \<longrightarrow> fs_lookup f p = Some (FileNode b))"
  by (auto simp: fs_read_def fs_call_def Let_def split: option.splits node.splits)

lemma fs_metadata_len_frame:
  "fs_metadata_len f p = (r, f') \<Longrightarrow> (\<forall>q. fs_lookup f' q = fs_lookup f q) \<and> fs_faults f' = fs_faults f \<and>
     (\<forall>b. fs_lookup f p = Some (FileNode b) \<longrightarrow> (\<forall>n. r = Inr n \<longrightarrow> n = length b) \<and> r \<noteq> Inl IoNotFound)"
  by (cases "fs_lookup f p")
    (auto simp: fs_metadata_len_def fs_call_def follow.simps [of 40] Let_def split: option.splits node.splits)

text \<open>What a partial write leaves at its path, and that it touches no other.\<close>

definition left_by_write :: "fs \<Rightarrow> path \<Rightarrow> bytes \<Rightarrow> node option \<Rightarrow> bool" where
  "left_by_write f p b n \<longleftrightarrow> n = fs_lookup f p \<or>
     ((is_file f p \<or> \<not> path_exists f p) \<and> (\<exists>k. n = Some (FileNode (take k b))))"

lemma put_part_effect:
  assumes "p \<noteq> []"
  shows "fs_faults (put_part p b n f) = fs_faults f \<and> left_by_write f p b (fs_lookup (put_part p b n f) p) \<and>
    (\<forall>q. q \<noteq> p \<longrightarrow> fs_lookup (put_part p b n f) q = fs_lookup f q)"
  using assms by (auto simp: put_part_def left_by_write_def fs_simps split: option.splits)

text \<open>A write that reports success has written; one that fails may have cut its file short.\<close>

lemma fs_write_effect:
  assumes "fs_write f p b = (r, f')" "p \<noteq> []"
  shows "fs_faults f' = fs_faults f \<and> (\<forall>q. q \<noteq> p \<longrightarrow> fs_lookup f' q = fs_lookup f q) \<and>
    (case r of Inr _ \<Rightarrow> fs_lookup f' p = Some (FileNode b) | Inl _ \<Rightarrow> left_by_write f p b (fs_lookup f' p))"
proof -
  let ?f = "f\<lparr>fs_calls := Suc (fs_calls f)\<rparr>"
  have "left_by_write ?f p b n = left_by_write f p b n" "left_by_write f p b (fs_lookup f p)" for n
    by (simp_all add: left_by_write_def is_file_def path_exists_def)
  with put_part_effect [OF assms(2), of b "fs_calls f" ?f] assms show ?thesis
    by (auto simp: fs_write_def fs_call_in_parts_def Let_def fs_simps split: option.splits if_splits)
qed

lemma fs_remove_file_effect:
  assumes "fs_remove_file f p = (r, f')" "p \<noteq> []"
  shows "fs_faults f' = fs_faults f \<and>
    (case r of Inr _ \<Rightarrow> \<forall>q. fs_lookup f' q = (if q = p then None else fs_lookup f q)
     | Inl e \<Rightarrow> (\<forall>q. fs_lookup f' q = fs_lookup f q) \<and> (e = IoNotFound \<longrightarrow> fs_lookup f p = None))"
  using assms
  by (auto simp: fs_remove_file_def fs_call_def Let_def fs_simps split: option.splits if_splits node.splits)

end
