(* ===== verification/Vfs_Ffi.thy ===== *)
theory Vfs_Ffi
  imports Vfs_Tiered Fs
begin

section \<open>The C interface of the read path\<close>

text \<open>
  \<open>crates/flock-vfs/src/backend.rs\<close> and \<open>ffi.rs\<close>: the choice of the object-storage tier, and the
  functions the C++ extension calls. A C string is \<open>None\<close> for a null pointer and otherwise the bytes
  before its NUL. A handle is an address, 0 the null pointer; the process holds the live handles in a
  heap. Addresses are not reused, so that a call on a closed handle, which is undefined behaviour in
  C, is the result \<open>Undefined\<close>; a panic that would cross the boundary is \<open>Aborted\<close>. What is printed
  on stderr is the log. Object stores, the tokio runtime, \<open>TieredStore::wake\<close> and the hexadecimal
  parser of substrate are parameters (\<open>vfs_env\<close>); \<open>i64\<close> and \<open>isize\<close> values are integers, their
  conversions written out.
\<close>

subsection \<open>The tier\<close>

record s3_config =
  s3_endpoint :: string
  s3_allow_http :: bool
  s3_bucket :: string
  s3_region :: string
  s3_key_id :: "string option"
  s3_secret :: "string option"

record 'o remote_tier =
  rt_backend :: 'o
  rt_pool :: string

record wake_token =
  wt_pool :: string
  wt_manifest :: manifest_id
  wt_page_size :: u64

record ('x, 'o, 'rt) vfs_env =
  ve_s3 :: bool
  ve_var :: "string \<Rightarrow> string option"
  ve_local :: "string \<Rightarrow> string + 'o"
  ve_aws :: "s3_config \<Rightarrow> string + 'o"
  ve_from_hex :: "string \<Rightarrow> string + manifest_id"
  ve_runtime :: "string + 'rt"
  ve_wake :: "'rt \<Rightarrow> string \<Rightarrow> 'o remote_tier \<Rightarrow> wake_token \<Rightarrow> store_error + 'x"

definition S3_URL_ENV :: string where
  "S3_URL_ENV = ''FLOCK_VFS_S3_URL''"

definition local_tier :: "('x, 'o, 'rt) vfs_env \<Rightarrow> string \<Rightarrow> string \<Rightarrow> vfs_error + 'o remote_tier" where
  "local_tier E remote_dir pool =
     (case ve_local E remote_dir of
        Inl e \<Rightarrow> Inl (TierConfig e)
      | Inr backend \<Rightarrow> Inr \<lparr>rt_backend = backend, rt_pool = pool\<rparr>)"

definition s3_tier :: "('x, 'o, 'rt) vfs_env \<Rightarrow> string \<Rightarrow> vfs_error + 'o remote_tier" where
  "s3_tier E pool =
     (case ve_var E S3_URL_ENV of
        None \<Rightarrow> Inl (TierConfig (S3_URL_ENV @ '' is not set; it is required to select the S3 tier''))
      | Some url \<Rightarrow>
          (let builder =
             \<lparr>s3_endpoint = url, s3_allow_http = True,
              s3_bucket = case_option ''flockdb'' id (ve_var E ''FLOCK_VFS_S3_BUCKET''),
              s3_region = case_option ''us-east-1'' id (ve_var E ''FLOCK_VFS_S3_REGION''),
              s3_key_id = ve_var E ''FLOCK_VFS_S3_KEY_ID'',
              s3_secret = ve_var E ''FLOCK_VFS_S3_SECRET''\<rparr>
           in case ve_aws E builder of
                Inl e \<Rightarrow> Inl (TierConfig e)
              | Inr backend \<Rightarrow> Inr \<lparr>rt_backend = backend, rt_pool = pool\<rparr>))"

definition remote_tier :: "('x, 'o, 'rt) vfs_env \<Rightarrow> string \<Rightarrow> string \<Rightarrow> vfs_error + 'o remote_tier" where
  "remote_tier E remote_dir pool =
     (if ve_s3 E \<and> ve_var E S3_URL_ENV \<noteq> None then s3_tier E pool else local_tier E remote_dir pool)"

subsection \<open>Strings from C\<close>

text \<open>The bytes \<open>str::from_utf8\<close> accepts: no overlong forms, no surrogates, nothing past U+10FFFF.\<close>

definition in_range :: "nat \<Rightarrow> nat \<Rightarrow> u8 \<Rightarrow> bool" where
  "in_range lo hi b \<longleftrightarrow> lo \<le> unat b \<and> unat b \<le> hi"

definition utf8_tail :: "u8 \<Rightarrow> bool" where
  "utf8_tail = in_range 0x80 0xBF"

fun utf8_valid :: "bytes \<Rightarrow> bool" where
  "utf8_valid [] = True"
| "utf8_valid (a # bs) =
     (if in_range 0x00 0x7F a then utf8_valid bs
      else if in_range 0xC2 0xDF a then
        (case bs of b # cs \<Rightarrow> utf8_tail b \<and> utf8_valid cs | _ \<Rightarrow> False)
      else if in_range 0xE0 0xEF a then
        (case bs of
           b # c # cs \<Rightarrow>
             (if a = 0xE0 then in_range 0xA0 0xBF b else if a = 0xED then in_range 0x80 0x9F b else utf8_tail b) \<and>
             utf8_tail c \<and> utf8_valid cs
         | _ \<Rightarrow> False)
      else if in_range 0xF0 0xF4 a then
        (case bs of
           b # c # d # cs \<Rightarrow>
             (if a = 0xF0 then in_range 0x90 0xBF b else if a = 0xF4 then in_range 0x80 0x8F b else utf8_tail b) \<and>
             utf8_tail c \<and> utf8_tail d \<and> utf8_valid cs
         | _ \<Rightarrow> False)
      else False)"

type_synonym c_string = "bytes option"

definition text_of :: "bytes \<Rightarrow> string" where
  "text_of bs = map (\<lambda>b. char_of (unat b)) bs"

definition cstr :: "c_string \<Rightarrow> string \<Rightarrow> vfs_error + string" where
  "cstr ptr what =
     (case ptr of
        None \<Rightarrow> Inl (BadFfiArgument what ''it was a null pointer'')
      | Some bs \<Rightarrow>
          if utf8_valid bs then Inr (text_of bs) else Inl (BadFfiArgument what ''it was not valid UTF-8''))"

subsection \<open>Handles\<close>

record ('x, 'rt) flock_vfs =
  fv_source :: "'x tiered_page_source"
  fv_rt :: 'rt

datatype ffi_message =
    OpenFailed vfs_error
  | PreadNullHandle
  | PreadNegativeOffset int
  | PreadNullBuffer nat
  | PreadFailed vfs_error

record ('x, 'rt) ffi =
  ffi_heap :: "nat \<Rightarrow> ('x, 'rt) flock_vfs option"
  ffi_next :: nat
  ffi_fs :: fs
  ffi_log :: "ffi_message list"

datatype 'a ffi_result = Returned 'a | Aborted | Undefined

definition ffi_init :: "fs \<Rightarrow> ('x, 'rt) ffi" where
  "ffi_init f = \<lparr>ffi_heap = Map.empty, ffi_next = 1, ffi_fs = f, ffi_log = []\<rparr>"

definition say :: "ffi_message \<Rightarrow> ('x, 'rt) ffi \<Rightarrow> ('x, 'rt) ffi" where
  "say m S = S\<lparr>ffi_log := ffi_log S @ [m]\<rparr>"

text \<open>\<open>handle.as_ref()\<close> of a pointer the caller promises to be null or live.\<close>

definition with_handle ::
  "('x, 'rt) ffi \<Rightarrow> nat \<Rightarrow> (('x, 'rt) flock_vfs option \<Rightarrow> 'a ffi_result) \<Rightarrow> 'a ffi_result" where
  "with_handle S h k =
     (if h = 0 then k None else case ffi_heap S h of None \<Rightarrow> Undefined | Some v \<Rightarrow> k (Some v))"

definition open_inner :: "('x, 'o, 'rt) vfs_env \<Rightarrow> c_string \<Rightarrow> c_string \<Rightarrow> c_string \<Rightarrow> c_string \<Rightarrow> u64 \<Rightarrow>
    u64 \<Rightarrow> fs \<Rightarrow> (vfs_error + ('x, 'rt) flock_vfs) \<times> fs" where
  "open_inner E remote_dir cache_dir pool manifest_hex page_size total_len f =
     (case cstr remote_dir ''remote directory path'' of
        Inl e \<Rightarrow> (Inl e, f)
      | Inr remote_dir \<Rightarrow>
     (case cstr cache_dir ''cache directory path'' of
        Inl e \<Rightarrow> (Inl e, f)
      | Inr cache_dir \<Rightarrow>
     (case cstr pool ''pool name'' of
        Inl e \<Rightarrow> (Inl e, f)
      | Inr pool \<Rightarrow>
     (case cstr manifest_hex ''manifest id'' of
        Inl e \<Rightarrow> (Inl e, f)
      | Inr manifest_hex \<Rightarrow>
     (if page_size = 0 then (Inl (BadFfiArgument ''page size'' ''it was 0''), f)
      else
     (case ve_from_hex E manifest_hex of
        Inl e \<Rightarrow> (Inl (BadFfiArgument ''manifest id'' e), f)
      | Inr manifest \<Rightarrow>
     (case fs_create_dir_all f (components cache_dir) of
        (Inl e, f') \<Rightarrow> (Inl (BadFfiArgument ''cache directory path'' ''could not create it''), f')
      | (Inr _, f') \<Rightarrow>
     (case remote_tier E remote_dir pool of
        Inl e \<Rightarrow> (Inl e, f')
      | Inr remote \<Rightarrow>
     (case ve_runtime E of
        Inl e \<Rightarrow> (Inl (Runtime e), f')
      | Inr rt \<Rightarrow>
          (let token = \<lparr>wt_pool = pool, wt_manifest = manifest, wt_page_size = page_size\<rparr>
           in case ve_wake E rt cache_dir remote token of
                Inl e \<Rightarrow> (Inl (Wake e), f')
              | Inr store \<Rightarrow> (Inr \<lparr>fv_source = new_tiered store total_len, fv_rt = rt\<rparr>, f')))))))))))"

definition flock_vfs_open :: "('x, 'o, 'rt) vfs_env \<Rightarrow> c_string \<Rightarrow> c_string \<Rightarrow> c_string \<Rightarrow> c_string \<Rightarrow> u64 \<Rightarrow>
    u64 \<Rightarrow> ('x, 'rt) ffi \<Rightarrow> nat \<times> ('x, 'rt) ffi" where
  "flock_vfs_open E remote_dir cache_dir pool manifest_hex page_size total_len S =
     (case open_inner E remote_dir cache_dir pool manifest_hex page_size total_len (ffi_fs S) of
        (Inr v, f) \<Rightarrow>
          (ffi_next S, S\<lparr>ffi_heap := (ffi_heap S)(ffi_next S \<mapsto> v), ffi_next := Suc (ffi_next S), ffi_fs := f\<rparr>)
      | (Inl e, f) \<Rightarrow> (0, say (OpenFailed e) (S\<lparr>ffi_fs := f\<rparr>)))"

text \<open>\<open>i64::try_from\<close>: \<open>None\<close> when the value does not fit.\<close>

definition i64_max :: int where
  "i64_max = 2 ^ 63 - 1"

definition i64_try_from :: "u64 \<Rightarrow> int option" where
  "i64_try_from n = (if uint n \<le> i64_max then Some (uint n) else None)"

definition flock_vfs_len :: "nat \<Rightarrow> ('x, 'rt) ffi \<Rightarrow> int ffi_result" where
  "flock_vfs_len h S = with_handle S h (\<lambda>v. Returned
     (case v of
        Some v \<Rightarrow> case_option (- 1) id (i64_try_from (ts_total_len (fv_source v)))
      | None \<Rightarrow> - 1))"

definition flock_vfs_tier_misses :: "'x tiered_ops \<Rightarrow> nat \<Rightarrow> ('x, 'rt) ffi \<Rightarrow> int ffi_result" where
  "flock_vfs_tier_misses P h S = with_handle S h (\<lambda>v. Returned
     (case v of
        Some v \<Rightarrow> case_option i64_max id (i64_try_from (to_misses P (ts_store (fv_source v))))
      | None \<Rightarrow> - 1))"

definition flock_vfs_tier_hits :: "'x tiered_ops \<Rightarrow> nat \<Rightarrow> ('x, 'rt) ffi \<Rightarrow> int ffi_result" where
  "flock_vfs_tier_hits P h S = with_handle S h (\<lambda>v. Returned
     (case v of
        Some v \<Rightarrow> case_option i64_max id (i64_try_from (to_hits P (ts_store (fv_source v))))
      | None \<Rightarrow> - 1))"

text \<open>
  \<open>buf\<close> is null or the writable bytes at it: the caller promises at least \<open>len\<close> of them, and Rust
  that no slice is longer than \<open>isize::MAX\<close>. The result is the count, the memory and the process.
\<close>

definition flock_vfs_pread ::
  "'x tiered_ops \<Rightarrow> (u64 list \<Rightarrow> u64 list) \<Rightarrow> nat \<Rightarrow> int \<Rightarrow> bytes option \<Rightarrow> nat \<Rightarrow> ('x, 'rt) ffi \<Rightarrow>
   (int \<times> bytes option \<times> ('x, 'rt) ffi) ffi_result" where
  "flock_vfs_pread P order h offset buf len S = with_handle S h (\<lambda>v.
     case v of
       None \<Rightarrow> Returned (- 1, buf, say PreadNullHandle S)
     | Some v \<Rightarrow>
         if offset < 0 then Returned (- 1, buf, say (PreadNegativeOffset offset) S)
         else if len = 0 then Returned (0, buf, S)
         else
           (case buf of
              None \<Rightarrow> Returned (- 1, buf, say (PreadNullBuffer len) S)
            | Some mem \<Rightarrow>
                if length mem < len \<or> isize_max < len then Undefined
                else
                  (case serve_read (tiered_source P order) (ts_total_len (fv_source v)) (word_of_int offset)
                      (take len mem) (fv_source v) of
                     (r, out, source) \<Rightarrow>
                       (let S' = S\<lparr>ffi_heap := (ffi_heap S)(h \<mapsto> v\<lparr>fv_source := source\<rparr>)\<rparr>;
                            mem' = Some (out @ drop len mem)
                        in case r of
                             Ok n \<Rightarrow> Returned (int n, mem', S')
                           | Err e \<Rightarrow> Returned (- 1, mem', say (PreadFailed e) S')
                           | Panic \<Rightarrow> Aborted))))"

definition flock_vfs_close :: "nat \<Rightarrow> ('x, 'rt) ffi \<Rightarrow> ('x, 'rt) ffi ffi_result" where
  "flock_vfs_close h S =
     (if h = 0 then Returned S
      else case ffi_heap S h of
             None \<Rightarrow> Undefined
           | Some _ \<Rightarrow> Returned (S\<lparr>ffi_heap := (ffi_heap S)(h := None)\<rparr>))"

subsection \<open>The process as a state machine\<close>

text \<open>
  The calls a C client can make, their result as a C integer (0 for \<open>void\<close>), and the states reachable while the
  client keeps its side: a handle is null or open, a buffer has as many bytes as the call says.
\<close>

datatype ffi_call =
    COpen c_string c_string c_string c_string u64 u64
  | CLen nat
  | CMisses nat
  | CHits nat
  | CPread nat int "bytes option" nat
  | CClose nat

fun map_returned :: "('a \<Rightarrow> 'b) \<Rightarrow> 'a ffi_result \<Rightarrow> 'b ffi_result" where
  "map_returned g (Returned a) = Returned (g a)"
| "map_returned g Aborted = Aborted"
| "map_returned g Undefined = Undefined"

fun ffi_run :: "('x, 'o, 'rt) vfs_env \<Rightarrow> 'x tiered_ops \<Rightarrow> (u64 list \<Rightarrow> u64 list) \<Rightarrow> ('x, 'rt) ffi \<Rightarrow>
    ffi_call \<Rightarrow> (int \<times> ('x, 'rt) ffi) ffi_result" where
  "ffi_run E P order S (COpen r c p m ps len) =
     (case flock_vfs_open E r c p m ps len S of (h, S') \<Rightarrow> Returned (int h, S'))"
| "ffi_run E P order S (CLen h) = map_returned (\<lambda>n. (n, S)) (flock_vfs_len h S)"
| "ffi_run E P order S (CMisses h) = map_returned (\<lambda>n. (n, S)) (flock_vfs_tier_misses P h S)"
| "ffi_run E P order S (CHits h) = map_returned (\<lambda>n. (n, S)) (flock_vfs_tier_hits P h S)"
| "ffi_run E P order S (CPread h off buf len) =
     map_returned (\<lambda>(n, _, S'). (n, S')) (flock_vfs_pread P order h off buf len S)"
| "ffi_run E P order S (CClose h) = map_returned (\<lambda>S'. (0, S')) (flock_vfs_close h S)"

definition ffi_live :: "('x, 'rt) ffi \<Rightarrow> nat \<Rightarrow> bool" where
  "ffi_live S h \<longleftrightarrow> h = 0 \<or> ffi_heap S h \<noteq> None"

fun ffi_allowed :: "('x, 'rt) ffi \<Rightarrow> ffi_call \<Rightarrow> bool" where
  "ffi_allowed S (COpen r c p m ps len) = True"
| "ffi_allowed S (CLen h) = ffi_live S h"
| "ffi_allowed S (CMisses h) = ffi_live S h"
| "ffi_allowed S (CHits h) = ffi_live S h"
| "ffi_allowed S (CPread h off buf len) =
     (ffi_live S h \<and> (case buf of None \<Rightarrow> True | Some mem \<Rightarrow> len \<le> length mem \<and> length mem \<le> isize_max))"
| "ffi_allowed S (CClose h) = ffi_live S h"

inductive ffi_reach :: "('x, 'o, 'rt) vfs_env \<Rightarrow> 'x tiered_ops \<Rightarrow> (u64 list \<Rightarrow> u64 list) \<Rightarrow>
    ('x, 'rt) ffi \<Rightarrow> bool" for E P order where
  ffi_start: "ffi_reach E P order (ffi_init f)"
| ffi_next: "ffi_reach E P order S \<Longrightarrow> ffi_allowed S c \<Longrightarrow> ffi_run E P order S c = Returned (n, S') \<Longrightarrow>
    ffi_reach E P order S'"

lemma with_handle_live [simp]:
  "with_handle S 0 k = k None"
  "h \<noteq> 0 \<Longrightarrow> ffi_heap S h = Some v \<Longrightarrow> with_handle S h k = k (Some v)"
  by (simp_all add: with_handle_def)

lemma say_simps [simp]:
  "ffi_heap (say m S) = ffi_heap S" "ffi_next (say m S) = ffi_next S" "ffi_fs (say m S) = ffi_fs S"
  by (simp_all add: say_def)

text \<open>What one read through a live handle does.\<close>

lemma flock_vfs_pread_live:
  assumes "h \<noteq> 0" "ffi_heap S h = Some v" "0 \<le> offset" "0 < len" "len \<le> length mem" "length mem \<le> isize_max"
    and "serve_read (tiered_source P order) (ts_total_len (fv_source v)) (word_of_int offset) (take len mem)
      (fv_source v) = (r, out, source)"
  shows "\<exists>S'. flock_vfs_pread P order h offset (Some mem) len S =
      Returned (case r of Ok n \<Rightarrow> int n | _ \<Rightarrow> - 1, Some (out @ drop len mem), S') \<and>
    ffi_heap S' = (ffi_heap S)(h \<mapsto> v\<lparr>fv_source := source\<rparr>) \<and> ffi_next S' = ffi_next S"
proof -
  have "r \<noteq> Panic"
    using serve_read_no_panic [of "tiered_source P order" "ts_total_len (fv_source v)" "word_of_int offset"
        "take len mem" "fv_source v"] assms(7) by simp
  with assms show ?thesis
    by (cases r) (auto simp: flock_vfs_pread_def Let_def)
qed

lemma ffi_reach_heap:
  "ffi_reach E P order S \<Longrightarrow> 0 < ffi_next S \<and> (\<forall>h. ffi_heap S h \<noteq> None \<longrightarrow> 0 < h \<and> h < ffi_next S)"
proof (induction rule: ffi_reach.induct)
  case (ffi_start f)
  then show ?case by (simp add: ffi_init_def)
next
  case (ffi_next S c n S')
  show ?case
  proof (cases c)
    case (COpen r ca p m ps len)
    with ffi_next show ?thesis
      by (cases "open_inner E r ca p m ps len (ffi_fs S)")
        (auto simp: flock_vfs_open_def less_SucI split: sum.splits if_splits)
  next
    case (CPread h off buf len)
    with ffi_next have "ffi_next S' = ffi_next S \<and> dom (ffi_heap S') = dom (ffi_heap S)"
      by (cases "ffi_heap S h") (auto simp: flock_vfs_pread_def with_handle_def Let_def
          split: if_splits option.splits prod.splits outcome.splits)
    with ffi_next.IH show ?thesis by (metis domIff)
  next
    case (CClose h)
    with ffi_next show ?thesis
      by (auto simp: flock_vfs_close_def split: if_splits option.splits)
  qed (use ffi_next in \<open>auto simp: flock_vfs_len_def flock_vfs_tier_misses_def flock_vfs_tier_hits_def
      with_handle_def split: if_splits option.splits\<close>)
qed

text \<open>The numbers of a state are C numbers: the address space is 64 bits, so handles are below \<open>2 ^ 63\<close>.\<close>

lemma i64_try_from_range: "i64_try_from n = Some i \<Longrightarrow> 0 \<le> i \<and> i \<le> i64_max"
  by (auto simp: i64_try_from_def split: if_splits)

lemma serve_count_le:
  assumes "serve_read S total_len offset buf st = (Ok n, buf', st')" "length buf \<le> isize_max"
  shows "n \<le> length buf"
proof -
  have "length buf < 2 ^ 64" using assms(2) by (simp add: isize_max_def)
  from serve_read_Ok [OF assms(1) this] show ?thesis by (simp add: clamp_def)
qed

lemma open_inner_len: "open_inner E r ca p m ps len f = (Inr v, f') \<Longrightarrow> ts_total_len (fv_source v) = len"
  by (auto simp: open_inner_def Let_def new_tiered_def split: sum.splits prod.splits if_splits)

subsection \<open>The guarantees of the C interface\<close>

text \<open>
  What a call may return and do to the table of open handles. The table is the client's view of the
  process: opening adds one handle, closing removes one, and no other call adds or removes any.
\<close>

fun ffi_kept :: "('x, 'rt) ffi \<Rightarrow> ffi_call \<Rightarrow> int \<Rightarrow> ('x, 'rt) ffi \<Rightarrow> bool" where
  "ffi_kept S (COpen _ _ _ _ _ len) n S' \<longleftrightarrow>
     n = 0 \<and> ffi_heap S' = ffi_heap S \<or>
     (\<exists>h v. n = int h \<and> 0 < h \<and> ffi_heap S h = None \<and> ffi_heap S' = (ffi_heap S)(h \<mapsto> v) \<and>
        ts_total_len (fv_source v) = len)"
| "ffi_kept S (CLen h) n S' \<longleftrightarrow> S' = S \<and> - 1 \<le> n \<and> n \<le> i64_max \<and> (h = 0 \<longrightarrow> n = - 1)"
| "ffi_kept S (CMisses h) n S' \<longleftrightarrow> S' = S \<and> - 1 \<le> n \<and> n \<le> i64_max \<and> (n = - 1 \<longleftrightarrow> h = 0)"
| "ffi_kept S (CHits h) n S' \<longleftrightarrow> S' = S \<and> - 1 \<le> n \<and> n \<le> i64_max \<and> (n = - 1 \<longleftrightarrow> h = 0)"
| "ffi_kept S (CPread h off buf len) n S' \<longleftrightarrow>
     - 1 \<le> n \<and> n \<le> int len \<and> n \<le> i64_max \<and> dom (ffi_heap S') = dom (ffi_heap S) \<and>
     (\<forall>h'. h' \<noteq> h \<longrightarrow> ffi_heap S' h' = ffi_heap S h')"
| "ffi_kept S (CClose h) n S' \<longleftrightarrow> n = 0 \<and> ffi_heap S' = (ffi_heap S)(h := None)"

lemma pread_kept:
  assumes live: "ffi_live S h" and buf: "case buf of None \<Rightarrow> True | Some mem \<Rightarrow> len \<le> length mem \<and> length mem \<le> isize_max"
  shows "\<exists>n S'. ffi_run E P order S (CPread h off buf len) = Returned (n, S') \<and> ffi_kept S (CPread h off buf len) n S'"
proof (cases "h = 0 \<or> off < 0 \<or> len = 0 \<or> buf = None")
  case True
  with live show ?thesis
    by (auto simp: flock_vfs_pread_def ffi_live_def with_handle_def i64_max_def)
next
  case False
  then obtain v mem where v: "ffi_heap S h = Some v" and mem: "buf = Some mem"
    using live by (auto simp: ffi_live_def)
  obtain r out source where
    run: "serve_read (tiered_source P order) (ts_total_len (fv_source v)) (word_of_int off) (take len mem)
      (fv_source v) = (r, out, source)"
    by (cases "serve_read (tiered_source P order) (ts_total_len (fv_source v)) (word_of_int off)
      (take len mem) (fv_source v)") auto
  have len: "0 \<le> off" "0 < len" "len \<le> length mem" "length mem \<le> isize_max" "h \<noteq> 0"
    using False buf mem by auto
  have "n \<le> len" if "r = Ok n" for n
    using serve_count_le [OF run [unfolded that]] len by simp
  then have "(case r of Ok n \<Rightarrow> int n | _ \<Rightarrow> - 1) \<le> int len" "- 1 \<le> (case r of Ok n \<Rightarrow> int n | _ \<Rightarrow> - 1)"
    by (cases r; simp)+
  moreover have "int len \<le> i64_max" using len by (simp add: isize_max_def i64_max_def)
  moreover obtain S' where "flock_vfs_pread P order h off (Some mem) len S =
      Returned (case r of Ok n \<Rightarrow> int n | _ \<Rightarrow> - 1, Some (out @ drop len mem), S')"
    "ffi_heap S' = (ffi_heap S)(h \<mapsto> v\<lparr>fv_source := source\<rparr>)"
    using flock_vfs_pread_live [OF len(5) v len(1-4) run] by blast
  ultimately show ?thesis using mem v by (auto simp: insert_absorb domI)
qed

text \<open>C19: a C client that keeps the protocol never meets undefined behaviour or a panic, and a handle
  is live from the open that returned it to its close. An open returns null and leaves the open handles
  as they were, or a pointer that is neither null nor open already and adds it; a close removes just
  the one it is given; no other call adds or removes a handle, or changes one it was not given. A null
  handle is never live. Every number fits its C type: it is at least -1, the error sentinel, and at
  most \<open>i64::MAX\<close>, a read reports no more bytes than it was asked for, and a counter of an open
  handle is never the sentinel, however large.\<close>

theorem ffi_protocol_safe:
  assumes "ffi_reach E P order S" "ffi_allowed S c"
  shows "\<exists>n S'. ffi_run E P order S c = Returned (n, S') \<and> ffi_kept S c n S' \<and> ffi_heap S' 0 = None"
proof -
  have heap: "0 < ffi_next S" "ffi_heap S (ffi_next S) = None"
    using ffi_reach_heap [OF assms(1)] by auto
  have null: "ffi_heap S 0 = None" using ffi_reach_heap [OF assms(1)] by auto
  have "\<exists>n S'. ffi_run E P order S c = Returned (n, S') \<and> ffi_kept S c n S'"
  proof (cases c)
    case (COpen r ca p m ps len)
    with heap show ?thesis
      by (cases "open_inner E r ca p m ps len (ffi_fs S)")
        (auto simp: flock_vfs_open_def dest: open_inner_len split: sum.splits)
  next
    case (CPread h off buf len)
    with assms(2) pread_kept [where S = S and h = h and buf = buf and len = len and E = E and P = P and order = order and off = off] show ?thesis by simp
  next
    case (CClose h)
    with assms(2) null show ?thesis by (auto simp: flock_vfs_close_def ffi_live_def fun_eq_iff)
  qed (use assms(2) in \<open>auto simp: flock_vfs_len_def flock_vfs_tier_misses_def flock_vfs_tier_hits_def
      ffi_live_def with_handle_def i64_max_def split: option.splits dest: i64_try_from_range [unfolded i64_max_def]\<close>)
  then obtain n S' where run: "ffi_run E P order S c = Returned (n, S')" "ffi_kept S c n S'" by blast
  have "ffi_heap S' 0 = None" using ffi_reach_heap [OF ffi_reach.ffi_next [OF assms run(1)]] by auto
  with run show ?thesis by blast
qed

text \<open>A process whose tier holds one database of six bytes, for the concrete instances.\<close>

definition demo_vfs :: "(nat, unit, unit) vfs_env" where
  "demo_vfs =
     \<lparr>ve_s3 = False, ve_var = (\<lambda>_. None), ve_local = (\<lambda>_. Inr ()), ve_aws = (\<lambda>_. Inl ''no network''),
      ve_from_hex = (\<lambda>s. if s = ''ab'' then Inr (ManifestId []) else Inl ''not hex''), ve_runtime = Inr (),
      ve_wake = (\<lambda>_ _ _ _. Inr 0)\<rparr>"

definition demo_disk :: fs where
  "demo_disk = \<lparr>fs_tree = [([''c''], DirNode)], fs_faults = (\<lambda>_. None), fs_calls = 0,
     fs_done = (\<lambda>_. None), fs_gone = (\<lambda>_ _. False)\<rparr>"

definition demo_process :: "(nat, unit) ffi" where
  "demo_process = \<lparr>ffi_heap = [1 \<mapsto> \<lparr>fv_source = new_tiered 0 6, fv_rt = ()\<rparr>], ffi_next = 2,
     ffi_fs = demo_disk\<lparr>fs_calls := 1\<rparr>, ffi_log = []\<rparr>"

lemma demo_open: "flock_vfs_open demo_vfs (Some [0x72]) (Some [0x63]) (Some [0x70]) (Some [0x61, 0x62]) 4 6
    (ffi_init demo_disk) = (1, demo_process)"
  by (simp add: flock_vfs_open_def open_inner_def cstr_def in_range_def text_of_def demo_vfs_def
      components_def fs_create_dir_all_def fs_call_def fs_call_in_parts_def demo_disk_def ffi_init_def fs_lookup_def Let_def
      remote_tier_def local_tier_def demo_process_def char_of_def bit_Suc_0_iff)

lemma demo_process_reached: "ffi_reach demo_vfs P order demo_process"
  by (rule ffi_reach.ffi_next [OF ffi_reach.ffi_start [where f = demo_disk],
      where c = "COpen (Some [0x72]) (Some [0x63]) (Some [0x70]) (Some [0x61, 0x62]) 4 6" and n = 1])
    (simp_all add: demo_open)

lemma ffi_protocol_safe_witness:
  "\<exists>n S'. ffi_run demo_vfs (demo_pager [1, 2, 3, 4, 5, 6]) id demo_process
     (CPread 1 3 (Some [0, 0, 0, 0]) 4) = Returned (n, S') \<and> n \<le> 4"
  using ffi_protocol_safe [OF demo_process_reached, of "CPread 1 3 (Some [0, 0, 0, 0]) 4"
      "demo_pager [1, 2, 3, 4, 5, 6]" id]
  by (fastforce simp: ffi_live_def demo_process_def isize_max_def simp del: ffi_run.simps)

text \<open>Reading a woken database from C is \<open>pread\<close> of the slept file. Through a live handle whose
  store serves the file, every offset and length gives the clamped count and those bytes, the memory
  past them and every other handle untouched; a negative offset is refused and touches nothing.\<close>

lemma ffi_pread_exact:
  assumes "pager_serves P I f" "pager_available P I f" "I (ts_store (fv_source v))"
    and "h \<noteq> 0" "ffi_heap S h = Some v" "unat (ts_total_len (fv_source v)) = length f"
    and "- (2 ^ 63) \<le> offset" "offset < 2 ^ 63" "len \<le> length mem" "length mem \<le> isize_max"
  shows "\<exists>S'. flock_vfs_pread P order h offset (Some mem) len S =
      (if offset < 0 then Returned (- 1, Some mem, S')
       else Returned (int (clamp (length f) (nat offset) len),
         Some (take (clamp (length f) (nat offset) len) (drop (nat offset) f) @
           drop (clamp (length f) (nat offset) len) mem), S')) \<and>
    (\<forall>h'. h' \<noteq> h \<longrightarrow> ffi_heap S' h' = ffi_heap S h') \<and>
    (\<exists>v'. ffi_heap S' h = Some v' \<and> I (ts_store (fv_source v')))"
proof (cases "offset < 0 \<or> len = 0")
  case True
  then show ?thesis using assms(3-5)
    by (cases "offset < 0") (auto simp: flock_vfs_pread_def clamp_def)
next
  case False
  let ?n = "clamp (length f) (nat offset) len"
  obtain r out source where
    run: "serve_read (tiered_source P order) (ts_total_len (fv_source v)) (word_of_int offset) (take len mem)
      (fv_source v) = (r, out, source)"
    by (cases "serve_read (tiered_source P order) (ts_total_len (fv_source v)) (word_of_int offset)
      (take len mem) (fv_source v)") auto
  have u: "unat (word_of_int offset :: u64) = nat offset" using False assms(8)
    by (simp add: unat_eq_nat_uint uint_word_of_int)
  have good: "(pager_serves P I f \<and> pager_available P I f) \<and> I (ts_store (fv_source v))"
    and safe: "pager_serves P I f \<and> I (ts_store (fv_source v))" using assms(1-3) by simp_all
  have l64: "length (take len mem) < 2 ^ 64" using assms(10) by (simp add: isize_max_def)
  have r: "r = Ok ?n"
    using tiered_live.serve_read_live [OF good, of "ts_total_len (fv_source v)" "take len mem" order
        "word_of_int offset"] assms(6,9) l64 run u by (simp add: min_def)
  have out: "out = take ?n (drop (nat offset) f) @ drop ?n (take len mem)" "I (ts_store source)"
    using tiered_safe.serve_read_safe [OF run [unfolded r] safe l64] u by simp_all
  have "drop ?n (take len mem) @ drop len mem = drop ?n mem"
    using drop_append [of ?n "take len mem" "drop len mem"] assms(9) by (simp add: clamp_def)
  with flock_vfs_pread_live [OF assms(4,5) _ _ assms(9,10) run] False r out
  show ?thesis by auto
qed

lemma ffi_pread_exact_witness:
  "\<exists>S'. flock_vfs_pread (demo_pager [1, 2, 3, 4, 5, 6]) id 1 3 (Some [0, 0, 0, 0]) 4 demo_process =
     Returned (3, Some [4, 5, 6, 0], S')"
  using ffi_pread_exact [OF demo_pager_serves demo_pager_available,
      where v = "\<lparr>fv_source = new_tiered 0 6, fv_rt = ()\<rparr>" and h = 1 and S = demo_process
        and f = "[1, 2, 3, 4, 5, 6]" and offset = 3 and len = 4 and mem = "[0, 0, 0, 0]" and order = id]
  by (auto simp: demo_process_def new_tiered_def isize_max_def clamp_def)

text \<open>Opening validates before it acts. A null pointer, text that is not UTF-8, a zero page size
  or a malformed manifest id gives a null handle and touches neither the file system nor any handle;
  a handle that is returned is a new one, over the store woken for exactly the pool, manifest and
  page size the caller named, with the caller's length.\<close>

theorem ffi_open_validates:
  assumes "flock_vfs_open E r c p m ps len S = (h, S')" "ffi_reach E P order S"
  shows "(\<not> (list_all (\<lambda>a. \<exists>bs. a = Some bs \<and> utf8_valid bs) [r, c, p, m] \<and> ps \<noteq> 0 \<and>
        (\<exists>i. ve_from_hex E (text_of (the m)) = Inr i)) \<longrightarrow>
      h = 0 \<and> ffi_heap S' = ffi_heap S \<and> ffi_fs S' = ffi_fs S) \<and>
    (h \<noteq> 0 \<longrightarrow> ffi_heap S h = None \<and>
      (\<exists>tier rt store i. remote_tier E (text_of (the r)) (text_of (the p)) = Inr tier \<and>
        ve_from_hex E (text_of (the m)) = Inr i \<and>
        ve_wake E rt (text_of (the c)) tier \<lparr>wt_pool = text_of (the p), wt_manifest = i, wt_page_size = ps\<rparr> =
          Inr store \<and>
        ffi_heap S' = (ffi_heap S)(h \<mapsto> \<lparr>fv_source = new_tiered store len, fv_rt = rt\<rparr>)))"
proof -
  have fresh: "ffi_heap S (ffi_next S) = None" using ffi_reach_heap [OF assms(2)] by blast
  show ?thesis
  proof (cases "open_inner E r c p m ps len (ffi_fs S)")
    case (Pair res f)
    show ?thesis
    proof (cases res)
      case (Inl e)
      with Pair assms(1) have h: "h = 0" "ffi_heap S' = ffi_heap S" "ffi_fs S' = f"
        by (auto simp: flock_vfs_open_def)
      have "f = ffi_fs S" if "\<not> (list_all (\<lambda>a. \<exists>bs. a = Some bs \<and> utf8_valid bs) [r, c, p, m] \<and> ps \<noteq> 0 \<and>
        (\<exists>i. ve_from_hex E (text_of (the m)) = Inr i))"
        using that Pair
        by (auto simp: open_inner_def cstr_def split: option.splits if_splits sum.splits prod.splits)
      with h show ?thesis by simp
    next
      case (Inr v)
      with Pair assms(1) have h: "h = ffi_next S" "ffi_heap S' = (ffi_heap S)(h \<mapsto> v)"
        by (auto simp: flock_vfs_open_def)
      from Pair Inr show ?thesis
        by (auto simp: h fresh open_inner_def cstr_def Let_def
            split: option.splits if_splits sum.splits prod.splits)
    qed
  qed
qed

lemma ffi_open_validates_witness:
  "\<exists>h S'. flock_vfs_open demo_vfs (Some [0x72]) None (Some [0x70]) (Some [0x61, 0x62]) 4 6 demo_process = (h, S') \<and>
     h = 0 \<and> ffi_fs S' = ffi_fs demo_process"
proof -
  obtain h S' where run: "flock_vfs_open demo_vfs (Some [0x72]) None (Some [0x70]) (Some [0x61, 0x62]) 4 6
      demo_process = (h, S')" by fastforce
  from ffi_open_validates [OF run demo_process_reached] run show ?thesis by simp
qed

end
