(* ===== verification/Faultshim.thy ===== *)
theory Faultshim
  imports Vfs_Ffi
begin

section \<open>The measurement shim\<close>

text \<open>
  \<open>spikes/wake-latency/faultshim/src/lib.rs\<close>: the interposed read path the wake latency was measured
  with. It has its own copy of the offset arithmetic, over a woken store behind a process-wide cell
  that \<open>boot\<close> sets once. The lock around the store is never poisoned, since nothing panics while
  holding it, and the operations are run one after another, so neither appears in the state.
  \<open>flock_serve\<close> is compared with \<open>serve_read\<close>, the fuzzed boundary it stands in for.
\<close>

record ('x, 'o, 'rt) shim =
  sm_rt :: 'rt
  sm_remote :: "'o remote_tier"
  sm_token :: wake_token
  sm_cache_dir :: string
  sm_total_len :: u64
  sm_eager :: bool
  sm_store :: "'x option"
  sm_serve_calls :: u64

record ('x, 'o, 'rt) shim_process =
  sp_shim :: "('x, 'o, 'rt) shim option"
  sp_fs :: fs
  sp_log :: "string list"

definition shim_env :: "('x, 'o, 'rt) vfs_env \<Rightarrow> string \<Rightarrow> string + string" where
  "shim_env E key =
     (case ve_var E key of
        None \<Rightarrow> Inl (''faultshim: env var '' @ key @ '' is not set'')
      | Some v \<Rightarrow> Inr v)"

definition env_parse :: "('x, 'o, 'rt) vfs_env \<Rightarrow> string \<Rightarrow> string + u64" where
  "env_parse E key =
     (case shim_env E key of
        Inl e \<Rightarrow> Inl e
      | Inr raw \<Rightarrow>
          (case parse_u64 raw of
             None \<Rightarrow> Inl (''faultshim: env var '' @ key @ ''='' @ raw @ '' did not parse'')
           | Some n \<Rightarrow> Inr n))"

text \<open>The sparse file: created or truncated, then sized; a size past \<open>i64::MAX\<close> is refused.\<close>

definition make_sparse :: "string \<Rightarrow> u64 \<Rightarrow> fs \<Rightarrow> (string + unit) \<times> fs" where
  "make_sparse db_path total_len f =
     (case fs_write f (components db_path) [] of
        (Inl e, f') \<Rightarrow> (Inl ''faultshim: could not create sparse db file'', f')
      | (Inr _, f') \<Rightarrow>
          if i64_try_from total_len = None then (Inl ''faultshim: could not size sparse db file'', f')
          else
            (case fs_write f' (components db_path) (replicate (unat total_len) 0) of
               (Inl e, f'') \<Rightarrow> (Inl ''faultshim: could not size sparse db file'', f'')
             | (Inr _, f'') \<Rightarrow> (Inr (), f'')))"

definition boot_inner :: "int \<Rightarrow> ('x, 'o, 'rt) vfs_env \<Rightarrow> ('x, 'o, 'rt) shim_process \<Rightarrow>
    (string + unit) \<times> ('x, 'o, 'rt) shim_process" where
  "boot_inner anchor E S =
     (if anchor \<noteq> 1 then (Inl ''faultshim: interpose glue anchor returned the wrong value'', S)
      else
     (case shim_env E ''FLOCK_REMOTE_DIR'' of Inl e \<Rightarrow> (Inl e, S) | Inr remote_dir \<Rightarrow>
     (case shim_env E ''FLOCK_CACHE_DIR'' of Inl e \<Rightarrow> (Inl e, S) | Inr cache_dir \<Rightarrow>
     (case shim_env E ''FLOCK_POOL'' of Inl e \<Rightarrow> (Inl e, S) | Inr pool \<Rightarrow>
     (case shim_env E ''FLOCK_MANIFEST'' of Inl e \<Rightarrow> (Inl e, S) | Inr manifest_hex \<Rightarrow>
     (case env_parse E ''FLOCK_PAGE_SIZE'' of Inl e \<Rightarrow> (Inl e, S) | Inr page_size \<Rightarrow>
     (case env_parse E ''FLOCK_TOTAL_LEN'' of Inl e \<Rightarrow> (Inl e, S) | Inr total_len \<Rightarrow>
     (case shim_env E ''FLOCK_DB_PATH'' of Inl e \<Rightarrow> (Inl e, S) | Inr db_path \<Rightarrow>
       (let eager = (case shim_env E ''FLOCK_FAULT_MODE'' of Inl _ \<Rightarrow> False | Inr m \<Rightarrow> m = ''eager'')
        in case ve_from_hex E manifest_hex of
             Inl e \<Rightarrow> (Inl (''faultshim: FLOCK_MANIFEST is not a valid manifest id: '' @ e), S)
           | Inr manifest \<Rightarrow>
     (case fs_create_dir_all (sp_fs S) (components cache_dir) of
        (Inl e, f) \<Rightarrow> (Inl ''faultshim: could not create cache dir'', S\<lparr>sp_fs := f\<rparr>)
      | (Inr _, f) \<Rightarrow>
     (case ve_local E remote_dir of
        Inl e \<Rightarrow> (Inl ''faultshim: could not open the local object-store tier'', S\<lparr>sp_fs := f\<rparr>)
      | Inr backend \<Rightarrow>
          (let remote = \<lparr>rt_backend = backend, rt_pool = pool\<rparr>
           in case make_sparse db_path total_len f of
                (Inl e, f') \<Rightarrow> (Inl e, S\<lparr>sp_fs := f'\<rparr>)
              | (Inr _, f') \<Rightarrow>
     (case ve_runtime E of
        Inl e \<Rightarrow> (Inl (''faultshim: could not build tokio runtime: '' @ e), S\<lparr>sp_fs := f'\<rparr>)
      | Inr rt \<Rightarrow>
          (let shim =
             \<lparr>sm_rt = rt, sm_remote = remote,
              sm_token = \<lparr>wt_pool = pool, wt_manifest = manifest, wt_page_size = page_size\<rparr>,
              sm_cache_dir = cache_dir, sm_total_len = total_len, sm_eager = eager, sm_store = None,
              sm_serve_calls = 0\<rparr>
           in if sp_shim S \<noteq> None then (Inl ''faultshim: boot called twice'', S\<lparr>sp_fs := f'\<rparr>)
              else (Inr (), S\<lparr>sp_shim := Some shim, sp_fs := f'\<rparr>)))))))))))))))"

text \<open>The eager prefetch: every page of the head, in key order.\<close>

fun eager_reads :: "'x tiered_ops \<Rightarrow> manifest_id \<Rightarrow> u64 list \<Rightarrow> 'x \<Rightarrow> (string + unit) \<times> 'x" where
  "eager_reads P head [] x = (Inr (), x)"
| "eager_reads P head (p # ps) x =
     (case to_read P x head p of
        (Inl e, x') \<Rightarrow> (Inl (''faultshim: eager prefetch of page '' @ dec (unat p) @ '' failed: '' @ e), x')
      | (Inr _, x') \<Rightarrow> eager_reads P head ps x')"

definition wake_inner :: "('x, 'o, 'rt) vfs_env \<Rightarrow> 'x tiered_ops \<Rightarrow>
    ('x \<Rightarrow> manifest_id \<Rightarrow> (pager_error + u64 list) \<times> 'x) \<Rightarrow> ('x, 'o, 'rt) shim_process \<Rightarrow>
    (string + unit) \<times> ('x, 'o, 'rt) shim_process" where
  "wake_inner E P resolve S =
     (case sp_shim S of
        None \<Rightarrow> (Inl ''faultshim: wake before boot'', S)
      | Some m \<Rightarrow>
          (case ve_wake E (sm_rt m) (sm_cache_dir m) (sm_remote m) (sm_token m) of
             Inl e \<Rightarrow> (Inl (''faultshim: TieredStore::wake failed: '' @ e), S)
           | Inr store \<Rightarrow>
               (if sm_eager m then
                  (let head = to_head P store
                   in case resolve store head of
                        (Inl e, x) \<Rightarrow> (Inl (''faultshim: resolve failed during eager prefetch: '' @ e), S)
                      | (Inr pages, x) \<Rightarrow>
                          (case eager_reads P head pages x of
                             (Inl e, x') \<Rightarrow> (Inl e, S)
                           | (Inr _, x') \<Rightarrow> (Inr (), S\<lparr>sp_shim := Some (m\<lparr>sm_store := Some x'\<rparr>)\<rparr>)))
                else (Inr (), S\<lparr>sp_shim := Some (m\<lparr>sm_store := Some store\<rparr>)\<rparr>))))"

subsection \<open>Serving a read\<close>

datatype 'x shim_step = Served nat bytes 'x | Halt "(string, nat) outcome" bytes 'x

definition shim_serve_step :: "'x tiered_ops \<Rightarrow> manifest_id \<Rightarrow> u64 \<Rightarrow> u64 \<Rightarrow> nat \<Rightarrow> nat \<Rightarrow> bytes \<Rightarrow> 'x \<Rightarrow> 'x shim_step" where
  "shim_serve_step P head ps off want done out x =
     (let file_pos = off + word_of_nat done
      in if ps = 0 then Halt Panic out x
         else
           (let page_no = file_pos div ps; page_off = unat (file_pos mod ps)
            in case to_read P x head page_no of
                 (Inl e, x') \<Rightarrow> Halt (Err (''faultshim: fault of page '' @ dec (unat page_no) @ '' failed: '' @ e)) out x'
               | (Inr page, x') \<Rightarrow>
                   if length page \<le> page_off then
                     Halt (Err (''faultshim: offset '' @ dec (unat file_pos) @ '' lands past the end of page '' @
                       dec (unat page_no))) out x'
                   else
                     (case (usize_sub (length page) page_off, usize_sub want done) of
                        (Some available, Some needed) \<Rightarrow>
                          (let take = min available needed
                           in case copy_slice out done take page page_off of
                                None \<Rightarrow> Halt Panic out x'
                              | Some out' \<Rightarrow> Served (done + take) out' x')
                      | _ \<Rightarrow> Halt Panic out x')))"

lemma shim_step_progress:
  "shim_serve_step P head ps off want done out x = Served done' out' x' \<Longrightarrow> done < want \<Longrightarrow>
     done < done' \<and> done' \<le> want"
  by (auto simp: shim_serve_step_def Let_def usize_sub_def split: if_splits prod.splits sum.splits option.splits)

function shim_serve_loop :: "'x tiered_ops \<Rightarrow> manifest_id \<Rightarrow> u64 \<Rightarrow> u64 \<Rightarrow> nat \<Rightarrow> nat \<Rightarrow> bytes \<Rightarrow> 'x \<Rightarrow>
    (string, nat) outcome \<times> bytes \<times> 'x" where
  "shim_serve_loop P head ps off want done out x =
     (if done < want then
        (case shim_serve_step P head ps off want done out x of
           Served done' out' x' \<Rightarrow> shim_serve_loop P head ps off want done' out' x'
         | Halt r out' x' \<Rightarrow> (r, out', x'))
      else (Ok done, out, x))"
  by pat_completeness auto
termination
  by (relation "measure (\<lambda>(P, head, ps, off, want, done, out, x). want - done)")
    (auto dest: shim_step_progress)

declare shim_serve_loop.simps [simp del]

text \<open>\<open>mem\<close> is the memory at \<open>buf\<close>, which libc promises to hold \<open>n\<close> bytes; \<open>want \<le> n\<close>.\<close>

definition serve_inner :: "'x tiered_ops \<Rightarrow> int \<Rightarrow> bytes \<Rightarrow> nat \<Rightarrow> ('x, 'o, 'rt) shim_process \<Rightarrow>
    (string, nat) outcome \<times> bytes \<times> ('x, 'o, 'rt) shim_process" where
  "serve_inner P off mem n S =
     (case sp_shim S of
        None \<Rightarrow> (Err ''faultshim: serve before boot'', mem, S)
      | Some m0 \<Rightarrow>
          (let m = m0\<lparr>sm_serve_calls := sm_serve_calls m0 + 1\<rparr>; S = S\<lparr>sp_shim := Some m\<rparr>
           in case sm_store m of
                None \<Rightarrow> (Err ''faultshim: serve before wake'', mem, S)
              | Some x \<Rightarrow>
                  (let off = (if off < 0 then 0 else word_of_int off)
                   in if sm_total_len m \<le> off then (Ok 0, mem, S)
                      else
                        (let want = unat (min (word_of_nat n) (sm_total_len m - off))
                         in if want = 0 then (Ok 0, mem, S)
                            else
                              (let head = to_head P x; ps = to_page_size P x
                               in case shim_serve_loop P head ps off want 0 (take want mem) x of
                                    (r, out, x') \<Rightarrow>
                                      (r, out @ drop want mem,
                                       S\<lparr>sp_shim := Some (m\<lparr>sm_store := Some x'\<rparr>)\<rparr>))))))"

definition log_error :: "(string + unit) \<times> ('x, 'o, 'rt) shim_process \<Rightarrow> int \<times> ('x, 'o, 'rt) shim_process" where
  "log_error rs =
     (case rs of
        (Inr _, S) \<Rightarrow> (0, S)
      | (Inl e, S) \<Rightarrow> (- 1, S\<lparr>sp_log := sp_log S @ [e]\<rparr>))"

definition flock_fault_boot :: "int \<Rightarrow> ('x, 'o, 'rt) vfs_env \<Rightarrow> ('x, 'o, 'rt) shim_process \<Rightarrow>
    int \<times> ('x, 'o, 'rt) shim_process" where
  "flock_fault_boot anchor E S = log_error (boot_inner anchor E S)"

definition flock_fault_wake :: "('x, 'o, 'rt) vfs_env \<Rightarrow> 'x tiered_ops \<Rightarrow>
    ('x \<Rightarrow> manifest_id \<Rightarrow> (pager_error + u64 list) \<times> 'x) \<Rightarrow> ('x, 'o, 'rt) shim_process \<Rightarrow>
    int \<times> ('x, 'o, 'rt) shim_process" where
  "flock_fault_wake E P resolve S = log_error (wake_inner E P resolve S)"

definition flock_serve :: "'x tiered_ops \<Rightarrow> int \<Rightarrow> bytes \<Rightarrow> nat \<Rightarrow> ('x, 'o, 'rt) shim_process \<Rightarrow>
    (int \<times> bytes \<times> ('x, 'o, 'rt) shim_process) ffi_result" where
  "flock_serve P off mem n S =
     (if length mem < n then Undefined
      else
        (case serve_inner P off mem n S of
           (Ok filled, mem', S') \<Rightarrow> Returned (int filled, mem', S')
         | (Err e, mem', S') \<Rightarrow> Returned (- 1, mem', S'\<lparr>sp_log := sp_log S' @ [e]\<rparr>)
         | (Panic, mem', S') \<Rightarrow> Aborted))"

text \<open>The counters; \<open>as i64\<close> wraps.\<close>

definition flock_fault_pages_faulted :: "'x tiered_ops \<Rightarrow> ('x, 'o, 'rt) shim_process \<Rightarrow> int" where
  "flock_fault_pages_faulted P S =
     (case Option.bind (sp_shim S) sm_store of
        Some x \<Rightarrow> sint (to_misses P x)
      | None \<Rightarrow> - 1)"

definition flock_fault_serve_calls :: "('x, 'o, 'rt) shim_process \<Rightarrow> int" where
  "flock_fault_serve_calls S =
     (case sp_shim S of Some m \<Rightarrow> sint (sm_serve_calls m) | None \<Rightarrow> - 1)"

subsection \<open>The shim's arithmetic is the read boundary's\<close>

text \<open>
  Substrate's side: a fault keeps the head and the page size, and no page is larger than a page.
\<close>

definition pager_bounded :: "'x tiered_ops \<Rightarrow> ('x \<Rightarrow> bool) \<Rightarrow> bool" where
  "pager_bounded P I \<longleftrightarrow> (\<forall>x. I x \<longrightarrow> to_page_size P x \<noteq> 0 \<and>
     (\<forall>p r x'. to_read P x (to_head P x) p = (r, x') \<longrightarrow>
        I x' \<and> to_head P x' = to_head P x \<and> to_page_size P x' = to_page_size P x \<and>
        (\<forall>b. r = Inr b \<longrightarrow> length b \<le> unat (to_page_size P x))))"

lemma pager_boundedD:
  assumes "pager_bounded P I" "I x"
  shows "to_page_size P x \<noteq> 0"
    and "to_read P x (to_head P x) p = (r, x') \<Longrightarrow>
      I x' \<and> to_head P x' = to_head P x \<and> to_page_size P x' = to_page_size P x \<and>
      (\<forall>b. r = Inr b \<longrightarrow> length b \<le> unat (to_page_size P x))"
  using assms(1) [unfolded pager_bounded_def, THEN spec, THEN mp, OF assms(2)] by blast+

fun same_result :: "(string, nat) outcome \<Rightarrow> (vfs_error, nat) outcome \<Rightarrow> bool" where
  "same_result (Ok n) r = (r = Ok n)"
| "same_result (Err e) r = (\<exists>e'. r = Err e')"
| "same_result Panic r = (r = Panic)"

lemma copy_slice_append:
  "d + n \<le> length dst \<Longrightarrow>
     copy_slice (dst @ rest) d n src s = map_option (\<lambda>b. b @ rest) (copy_slice dst d n src s)"
  by (auto simp: copy_slice_def slice_def)

text \<open>One iteration of the two loops, the read boundary's on a buffer that may be longer.\<close>

lemma shim_step_agrees:
  assumes b: "pager_bounded P I" and I: "I (ts_store t)"
    and fits: "unat off + want < 2 ^ 64" and lt: "done < want" and len: "want \<le> length out"
  shows "case shim_serve_step P (to_head P (ts_store t)) (to_page_size P (ts_store t)) off want done out (ts_store t) of
      Served d b x' \<Rightarrow> serve_step (tiered_source P order) (to_page_size P (ts_store t)) off want done (out @ rest) t =
          Continue d (b @ rest) (t\<lparr>ts_store := x'\<rparr>) \<and> I x' \<and> to_head P x' = to_head P (ts_store t) \<and>
          to_page_size P x' = to_page_size P (ts_store t) \<and> length b = length out
    | Halt r b x' \<Rightarrow> \<exists>r'. serve_step (tiered_source P order) (to_page_size P (ts_store t)) off want done (out @ rest) t =
          Stop r' (b @ rest) (t\<lparr>ts_store := x'\<rparr>) \<and> same_result r r'"
proof -
  let ?x = "ts_store t"
  have d: "done < 2 ^ 64" using fits lt by linarith
  have "unat off + unat (word_of_nat done :: u64) < 2 ^ 64"
    using fits lt by (simp only: unat_of_nat_u64 [OF d])
  then have add: "checked_add off (word_of_nat done) = Some (off + word_of_nat done)"
    by (simp add: checked_add_Some)
  note ps = pager_boundedD(1) [OF b I]
  obtain res x' where rd: "to_read P ?x (to_head P ?x) ((off + word_of_nat done) div to_page_size P ?x) = (res, x')"
    by fastforce
  note fr = pager_boundedD(2) [OF b I rd]
  show ?thesis
  proof (cases res)
    case (Inl e)
    with rd ps add show ?thesis
      by (simp add: shim_serve_step_def serve_step_def tiered_read_page_def Let_def)
  next
    case (Inr page)
    have small: "length page \<le> unat (to_page_size P ?x)" using fr Inr by simp
    let ?o = "unat ((off + word_of_nat done) mod to_page_size P ?x)"
    show ?thesis
    proof (cases "length page \<le> ?o")
      case True
      with rd ps add small Inr show ?thesis
        by (simp add: shim_serve_step_def serve_step_def tiered_read_page_def Let_def)
    next
      case False
      let ?n = "min (length page - ?o) (want - done)"
      have room: "done + ?n \<le> length out" using lt len by simp
      have "copy_slice out done ?n page ?o = Some (take done out @ take ?n (drop ?o page) @ drop (done + ?n) out)"
        using room False by (simp add: copy_slice_Some)
      moreover from this have "copy_slice (out @ rest) done ?n page ?o =
          Some ((take done out @ take ?n (drop ?o page) @ drop (done + ?n) out) @ rest)"
        by (simp only: copy_slice_append [OF room] option.map)
      ultimately show ?thesis
        using rd ps add small Inr False lt fr room
        by (simp add: shim_serve_step_def serve_step_def tiered_read_page_def Let_def usize_sub_def)
    qed
  qed
qed

lemma shim_loop_agrees:
  assumes b: "pager_bounded P I" and fits: "unat off + want < 2 ^ 64"
  shows "I (ts_store t) \<Longrightarrow> want \<le> length out \<Longrightarrow>
    (case shim_serve_loop P (to_head P (ts_store t)) (to_page_size P (ts_store t)) off want k out (ts_store t) of
       (r, b, x') \<Rightarrow> \<exists>r'. serve_loop (tiered_source P order) (to_page_size P (ts_store t)) off want k (out @ rest) t =
         (r', b @ rest, t\<lparr>ts_store := x'\<rparr>) \<and> same_result r r')"
proof (induction "want - k" arbitrary: k out t rule: less_induct)
  case less
  show ?case
  proof (cases "k < want")
    case False
    then show ?thesis by (simp add: shim_serve_loop.simps serve_loop.simps)
  next
    case True
    let ?s = "shim_serve_step P (to_head P (ts_store t)) (to_page_size P (ts_store t)) off want k out (ts_store t)"
    note step = shim_step_agrees [OF b less.prems(1) fits True less.prems(2), of order rest]
    show ?thesis
    proof (cases ?s)
      case (Halt r b x')
      with step True show ?thesis
        by (auto simp: shim_serve_loop.simps [of _ _ _ _ _ k] serve_loop.simps [of _ _ _ _ k])
    next
      case (Served d b x')
      have "k < d" using shim_step_progress [OF Served True] by simp
      then have "want - d < want - k" using True by simp
      from less.hyps [OF this, of "t\<lparr>ts_store := x'\<rparr>" b] step Served True less.prems(2) show ?thesis
        by (simp add: shim_serve_loop.simps [of _ _ _ _ _ k] serve_loop.simps [of _ _ _ _ k])
    qed
  qed
qed

text \<open>C40: the measured path is the shipped path. Once booted and woken, over a store whose pages are
  no larger than a page, \<open>flock_serve\<close> returns for every non-negative offset what \<open>serve_read\<close>, the
  boundary that ships, returns for the same request on the same store: the same count or a refusal
  where it refuses, the same bytes in memory and the same store state, and never a panic.\<close>

theorem shim_equals_serve_read:
  assumes "pager_bounded P I" "I x" "sp_shim S = Some m" "sm_store m = Some x"
    and "0 \<le> off" "off < 2 ^ 63" "n \<le> length mem" "length mem \<le> isize_max"
    and "serve_read (tiered_source P order) (sm_total_len m) (word_of_int off) (take n mem)
      (new_tiered x (sm_total_len m)) = (r, buf, t)"
  shows "\<exists>S' m'. flock_serve P off mem n S =
      Returned (case r of Ok k \<Rightarrow> int k | _ \<Rightarrow> - 1, buf @ drop n mem, S') \<and>
    sp_shim S' = Some m' \<and> sm_store m' = Some (ts_store t)"
proof -
  let ?off = "word_of_int off :: u64"
  let ?t = "new_tiered x (sm_total_len m)"
  let ?w = "unat (min (sm_total_len m - ?off) (word_of_nat n))"
  have n: "n < 2 ^ 64" using assms(7,8) by (simp add: isize_max_def)
  have ln: "length (take n mem) = n" using assms(7) by simp
  note b = pager_boundedD(1) [OF assms(1,2)]
  show ?thesis
  proof (cases "sm_total_len m \<le> ?off \<or> ?w = 0")
    case True
    have "(r, buf, t) = (Ok 0, take n mem, ?t)"
      unfolding assms(9) [symmetric] serve_read_def Let_def ln using True by auto
    with True assms(3-7) show ?thesis
      by (auto simp: flock_serve_def serve_inner_def Let_def min.commute new_tiered_def)
  next
    case False
    have lt: "?off < sm_total_len m" using False by (meson not_le)
    have wn: "?w \<le> n" by (rule want_le_length)
    have "unat ?off + ?w < 2 ^ 64"
      using clamp_fits [OF lt, of n] want_eq_clamp [OF lt n] by simp
    note loop = shim_loop_agrees [OF assms(1) this, where t = ?t and out = "take ?w mem" and k = 0
        and order = order and rest = "drop ?w (take n mem)"]
    have cat: "take ?w mem @ drop ?w (take n mem) = take n mem"
      using append_take_drop_id [of ?w "take n mem"] wn by (simp only: take_take min_absorb1)
    have sr: "serve_loop (tiered_source P order) (to_page_size P x) ?off ?w 0 (take n mem) ?t = (r, buf, t)"
      unfolding assms(9) [symmetric] serve_read_def Let_def ln using False b
      by (auto simp: new_tiered_def)
    obtain r0 b0 x0 where sh: "shim_serve_loop P (to_head P x) (to_page_size P x) ?off ?w 0 (take ?w mem) x =
        (r0, b0, x0)"
      by (cases "shim_serve_loop P (to_head P x) (to_page_size P x) ?off ?w 0 (take ?w mem) x") auto
    have st: "ts_store ?t = x" by (simp add: new_tiered_def)
    have agree: "buf = b0 @ drop ?w (take n mem)" "t = ?t\<lparr>ts_store := x0\<rparr>" "same_result r0 r"
      using loop [unfolded st cat sr sh] assms(2,7) wn by (auto simp: le_trans)
    have "r \<noteq> Panic"
      using serve_read_no_panic [of "tiered_source P order" "sm_total_len m" ?off "take n mem" ?t] assms(9) by simp
    have tail: "drop ?w (take n mem) @ drop n mem = drop ?w mem"
      using drop_append [of ?w "take n mem" "drop n mem"] wn ln by simp
    have ser: "\<exists>S'. serve_inner P off mem n S = (r0, b0 @ drop ?w mem, S') \<and>
        (\<exists>m'. sp_shim S' = Some m' \<and> sm_store m' = Some x0)"
      using False assms(3-5) sh by (auto simp: serve_inner_def Let_def min.commute not_le)
    with agree tail \<open>r \<noteq> Panic\<close> assms(7) show ?thesis
      by (cases r0) (auto simp: flock_serve_def)
  qed
qed

definition demo_shim :: "(nat, unit, unit) shim_process" where
  "demo_shim =
     \<lparr>sp_shim = Some \<lparr>sm_rt = (), sm_remote = \<lparr>rt_backend = (), rt_pool = ''p''\<rparr>,
        sm_token = \<lparr>wt_pool = ''p'', wt_manifest = ManifestId [], wt_page_size = 4\<rparr>,
        sm_cache_dir = ''c'', sm_total_len = 6, sm_eager = False, sm_store = Some 0, sm_serve_calls = 0\<rparr>,
      sp_fs = demo_disk, sp_log = []\<rparr>"

lemma demo_shim_read:
  "\<exists>t. serve_read (tiered_source (demo_pager [1, 2, 3, 4, 5, 6]) id) 6 3 [0, 0, 0, 0] (new_tiered 0 6) =
     (Ok 3, [4, 5, 6, 0], t)"
  by (simp add: serve_read_def serve_loop.simps serve_step_def checked_add_def usize_sub_def copy_slice_def
      slice_def tiered_source_def tiered_read_page_def demo_pager_def new_tiered_def page_of_def min_def Let_def)

lemma shim_equals_serve_read_witness:
  "\<exists>S'. flock_serve (demo_pager [1, 2, 3, 4, 5, 6]) 3 [0, 0, 0, 0] 4 demo_shim = Returned (3, [4, 5, 6, 0], S')"
proof -
  let ?P = "demo_pager [1, 2, 3, 4, 5, 6]"
  have b: "pager_bounded ?P (\<lambda>_. True)" by (auto simp: pager_bounded_def demo_pager_def)
  obtain r buf t where run: "serve_read (tiered_source ?P id) 6 3 [0, 0, 0, 0] (new_tiered 0 6) = (r, buf, t)"
    by (cases "serve_read (tiered_source ?P id) 6 3 [0, 0, 0, 0] (new_tiered 0 6)") auto
  have res: "r = Ok 3" "buf = [4, 5, 6, 0]" using run demo_shim_read by auto
  let ?m = "the (sp_shim demo_shim)"
  have m: "sp_shim demo_shim = Some ?m" "sm_store ?m = Some 0" "sm_total_len ?m = 6"
    by (simp_all add: demo_shim_def)
  have run': "serve_read (tiered_source ?P id) (sm_total_len ?m) (word_of_int 3) (take 4 [0, 0, 0, 0])
      (new_tiered 0 (sm_total_len ?m)) = (r, buf, t)"
    using run m(3) by simp
  show ?thesis
    using shim_equals_serve_read [OF b TrueI m(1,2) _ _ _ _ run'] res by (auto simp: isize_max_def)
qed

text \<open>
  Where the two differ: \<open>flock_serve\<close> takes a negative offset for offset 0 and serves the start of
  the file; \<open>flock_vfs_pread\<close>, like \<open>pread\<close>, refuses it.
\<close>

lemma shim_negative_offset: "off < 0 \<Longrightarrow> flock_serve P off mem n S = flock_serve P 0 mem n S"
  by (simp add: flock_serve_def serve_inner_def Let_def cong: option.case_cong)

end
