(* ===== verification/Sync_Log.thy ===== *)
theory Sync_Log
  imports Text_Format Vfs_Tiered
begin

section \<open>Reading the primary's write-ahead log\<close>

text \<open>
  \<open>crates/flock-sync/src/error.rs\<close> and the lower half of \<open>source.rs\<close>: which segment files there
  are, the records they hold up to the first torn tail, and the checkpoint marker. The vfs, the
  content-addressed store and the record decoder are substrate's, so they are the record
  \<open>wal_env\<close> of the calls a source makes; it is a snapshot of the primary's directory during one
  call. Reading is a loop over an external decoder, so a result is \<open>Some\<close> of an error or a value,
  and \<open>None\<close> when the loop does not return; with a decoder that consumes bytes it always does
  (\<open>records_returns\<close>).
\<close>

subsection \<open>Errors and records\<close>

type_synonym lsn = u64
type_synonym page_no = u64
type_synonym wal_error = string

datatype page_id = PageId bytes

datatype sync_error =
    SyncPager string pager_error
  | SyncWal string wal_error
  | OutOfOrder lsn manifest_id manifest_id
  | Diverged lsn manifest_id manifest_id
  | PageHashMismatch page_no page_id page_id
  | MissingPage lsn page_no page_id
  | FollowerUnknown manifest_id
  | SyncIo path io_error
  | SyncUnsupported string string

datatype record_kind =
    WriteRec page_no "page_id option"
  | CommitRec manifest_id u64
  | CheckpointRec manifest_id

record wal_record =
  rec_lsn :: lsn
  rec_kind :: record_kind

datatype read_outcome = ReadRecord wal_record nat | Torn

record wal_env =
  we_exists :: "path \<Rightarrow> bool"
  we_read :: "path \<Rightarrow> io_error + bytes"
  we_read_dir :: "path \<Rightarrow> io_error + path list"
  we_cas_get :: "page_id \<Rightarrow> pager_error + bytes"
  we_decode :: "bytes \<Rightarrow> read_outcome"
  we_empty_id :: "nat \<Rightarrow> pager_error + manifest_id"

record wal_source =
  src_wal_dir :: path
  src_wal_page_size :: nat

definition wal_source_open :: "path \<Rightarrow> nat \<Rightarrow> wal_source" where
  "wal_source_open store_dir page_size =
     \<lparr>src_wal_dir = join store_dir ''wal'', src_wal_page_size = page_size\<rparr>"

subsection \<open>Runs: results of code that may not return\<close>

type_synonym ('e, 'a) run = "('e + 'a) option"

definition bind_run :: "('e, 'a) run \<Rightarrow> ('a \<Rightarrow> ('e, 'b) run) \<Rightarrow> ('e, 'b) run" where
  "bind_run m f = (case m of None \<Rightarrow> None | Some (Inl e) \<Rightarrow> Some (Inl e) | Some (Inr a) \<Rightarrow> f a)"

lemma bind_run_simps [simp, result_simps]:
  "bind_run (Some (Inr a)) f = f a" "bind_run (Some (Inl e)) f = Some (Inl e)" "bind_run None f = None"
  by (simp_all add: bind_run_def)

lemma bind_run_Ok: "bind_run m f = Some (Inr b) \<longleftrightarrow> (\<exists>a. m = Some (Inr a) \<and> f a = Some (Inr b))"
  by (auto simp: bind_run_def split: option.split sum.split)

subsection \<open>Segments\<close>

definition segment_number :: "path \<Rightarrow> u64 option" where
  "segment_number p =
     Option.bind (file_name p) (\<lambda>name. Option.bind (strip_suffix ''.wal'' name) parse_u64)"

definition segments :: "wal_env \<Rightarrow> wal_source \<Rightarrow> sync_error + u64 list" where
  "segments E w =
     (case we_read_dir E (src_wal_dir w) of
        Inl IoNotFound \<Rightarrow> Inr []
      | Inl e \<Rightarrow> Inl (SyncIo (src_wal_dir w) e)
      | Inr entries \<Rightarrow> Inr (sort (List.map_filter segment_number entries)))"

definition segment_path :: "path \<Rightarrow> u64 \<Rightarrow> path" where
  "segment_path dir n = join dir (pad_dec 12 (unat n) @ ''.wal'')"

lemma set_dec: "set (dec n) \<subseteq> digit_char ` {..<10}"
proof (induction n rule: dec.induct)
  case (1 n)
  then show ?case by (cases "n < 10") (auto simp: dec.simps [of n])
qed

lemma slash_notin_segment: "CHR ''/'' \<notin> set (pad_dec k n @ ''.wal'')"
proof
  assume "CHR ''/'' \<in> set (pad_dec k n @ ''.wal'')"
  then have "CHR ''/'' \<in> digit_char ` {..<10}"
    using set_dec [of n] by (auto simp: pad_dec_def)
  then obtain d where "d < 10" "char_digit (CHR ''/'') = Some d" by (metis char_digit_digit_char image_iff lessThan_iff)
  then show False by (simp add: char_digit_def)
qed

text \<open>A segment is read back from the name it is written under.\<close>

lemma segment_number_path: "segment_number (segment_path dir n) = Some n"
proof -
  have ne: "pad_dec 12 (unat n) \<noteq> []" by (simp add: pad_dec_def)
  have "file_name (segment_path dir n) = Some (pad_dec 12 (unat n) @ ''.wal'')"
    unfolding segment_path_def
    by (rule file_name_join [OF _ _ _ slash_notin_segment]) (use ne in \<open>auto simp: append_eq_Cons_conv\<close>)
  then show ?thesis
    using parse_pad_dec [OF unat_lt_2p64, of 12 n] by (simp add: segment_number_def)
qed

subsection \<open>Records\<close>

text \<open>One segment from \<open>offset\<close>. The flag says that a torn tail ended the whole log.\<close>

partial_function (option) read_segment ::
  "(bytes \<Rightarrow> read_outcome) \<Rightarrow> bytes \<Rightarrow> nat \<Rightarrow> wal_record list \<Rightarrow> (wal_record list \<times> bool) option" where
  "read_segment decode bs offset out =
     (if length bs < offset then None
      else
        (case decode (drop offset bs) of
           ReadRecord record consumed \<Rightarrow> read_segment decode bs (offset + consumed) (out @ [record])
         | Torn \<Rightarrow> Some (out, offset < length bs)))"

fun read_segments ::
  "wal_env \<Rightarrow> wal_source \<Rightarrow> u64 list \<Rightarrow> wal_record list \<Rightarrow> (sync_error, wal_record list) run" where
  "read_segments E w [] out = Some (Inr out)"
| "read_segments E w (segment # rest) out =
     (let path = segment_path (src_wal_dir w) segment
      in case we_read E path of
           Inl e \<Rightarrow> Some (Inl (SyncIo path e))
         | Inr bs \<Rightarrow>
             (case read_segment (we_decode E) bs 0 out of
                None \<Rightarrow> None
              | Some (out', torn) \<Rightarrow>
                  if torn then Some (Inr out') else read_segments E w rest out'))"

definition records :: "wal_env \<Rightarrow> wal_source \<Rightarrow> (sync_error, wal_record list) run" where
  "records E w =
     (case segments E w of Inl e \<Rightarrow> Some (Inl e) | Inr segs \<Rightarrow> read_segments E w segs [])"

definition read_checkpoint :: "wal_env \<Rightarrow> wal_source \<Rightarrow> sync_error + (manifest_id \<times> lsn) option" where
  "read_checkpoint E w =
     (let path = join (src_wal_dir w) ''CHECKPOINT''
      in if \<not> we_exists E path then Inr None
         else
           (case we_read E path of
              Inl e \<Rightarrow> Inl (SyncIo path e)
            | Inr bs \<Rightarrow>
                (case we_decode E bs of
                   ReadRecord record _ \<Rightarrow>
                     (case rec_kind record of
                        CheckpointRec manifest \<Rightarrow> Inr (Some (manifest, rec_lsn record))
                      | _ \<Rightarrow> Inr None)
                 | Torn \<Rightarrow> Inr None)))"

subsection \<open>What a log on disk reads as\<close>

text \<open>
  Substrate's decoder: a decoded record consumed at least one byte and no more than there are.
\<close>

definition decoder_ok :: "(bytes \<Rightarrow> read_outcome) \<Rightarrow> bool" where
  "decoder_ok decode \<longleftrightarrow> (\<forall>bs r n. decode bs = ReadRecord r n \<longrightarrow> 0 < n \<and> n \<le> length bs)"

lemma read_segment_returns:
  assumes "decoder_ok decode" "offset \<le> length bs"
  shows "\<exists>rs torn. read_segment decode bs offset out = Some (out @ rs, torn)"
  using assms(2)
proof (induction "length bs - offset" arbitrary: offset out rule: less_induct)
  case less
  show ?case
  proof (cases "decode (drop offset bs)")
    case (ReadRecord r n)
    with assms(1) less.prems have n: "0 < n" "offset + n \<le> length bs"
      by (fastforce simp: decoder_ok_def)+
    then have "length bs - (offset + n) < length bs - offset" using less.prems by linarith
    from less.hyps [OF this n(2), of "out @ [r]"] obtain rs torn where
      "read_segment decode bs (offset + n) (out @ [r]) = Some ((out @ [r]) @ rs, torn)" by blast
    then show ?thesis using less.prems ReadRecord
      by (subst read_segment.simps) auto
  next
    case Torn
    then show ?thesis using less.prems by (subst read_segment.simps) auto
  qed
qed

lemma read_segments_returns:
  "decoder_ok (we_decode E) \<Longrightarrow> read_segments E w segs out \<noteq> None"
proof (induction E w segs out rule: read_segments.induct)
  case (2 E w segment rest out)
  show ?case
  proof (cases "we_read E (segment_path (src_wal_dir w) segment)")
    case (Inr bs)
    obtain rs torn where "read_segment (we_decode E) bs 0 out = Some (out @ rs, torn)"
      using read_segment_returns [OF 2(2), of 0 bs out] by auto
    with 2 Inr show ?thesis by (auto simp: Let_def)
  qed (simp add: Let_def)
qed simp

lemma records_returns: "decoder_ok (we_decode E) \<Longrightarrow> records E w \<noteq> None"
  using read_segments_returns by (fastforce simp: records_def split: sum.split)

text \<open>
  A segment image: the encodings of its records one after the other, then a tail the decoder
  refuses. \<open>encodes\<close> says the decoder reads an encoding back whatever follows it.
\<close>

definition encodes :: "(bytes \<Rightarrow> read_outcome) \<Rightarrow> (wal_record \<Rightarrow> bytes) \<Rightarrow> wal_record list \<Rightarrow> bool" where
  "encodes decode enc rs \<longleftrightarrow>
     (\<forall>r \<in> set rs. \<forall>rest. decode (enc r @ rest) = ReadRecord r (length (enc r)))"

definition image :: "(wal_record \<Rightarrow> bytes) \<Rightarrow> wal_record list \<Rightarrow> bytes \<Rightarrow> bytes" where
  "image enc rs tail = concat (map enc rs) @ tail"

lemma read_segment_image:
  assumes "encodes decode enc rs" "decode tail = Torn"
  shows "read_segment decode (pre @ image enc rs tail) (length pre) out = Some (out @ rs, tail \<noteq> [])"
  using assms(1)
proof (induction rs arbitrary: pre out)
  case Nil
  then show ?case using assms(2) by (subst read_segment.simps) (auto simp: image_def)
next
  case (Cons r rs)
  have "decode (enc r @ image enc rs tail) = ReadRecord r (length (enc r))"
    using Cons.prems by (simp add: encodes_def)
  moreover have "image enc (r # rs) tail = enc r @ image enc rs tail" by (simp add: image_def)
  ultimately have "read_segment decode (pre @ image enc (r # rs) tail) (length pre) out =
      read_segment decode ((pre @ enc r) @ image enc rs tail) (length (pre @ enc r)) (out @ [r])"
    by (subst read_segment.simps) simp
  moreover have "encodes decode enc rs" using Cons.prems by (simp add: encodes_def)
  ultimately show ?case using Cons.IH [of "pre @ enc r" "out @ [r]"] by simp
qed

text \<open>
  A log directory: the sealed segments end cleanly, the newest may end in a torn tail. Each entry
  is a segment number with its records and its tail, in ascending order.
\<close>

type_synonym log_image = "(u64 \<times> wal_record list \<times> bytes) list"

definition log_on_disk ::
  "wal_env \<Rightarrow> wal_source \<Rightarrow> (wal_record \<Rightarrow> bytes) \<Rightarrow> log_image \<Rightarrow> bool" where
  "log_on_disk E w enc segs \<longleftrightarrow>
     segments E w = Inr (map fst segs) \<and>
     list_all (\<lambda>(n, rs, tail). encodes (we_decode E) enc rs \<and> we_read E (segment_path (src_wal_dir w) n) = Inr (image enc rs tail) \<and>
       we_decode E tail = Torn) segs"

text \<open>The records of the log: everything up to the first torn tail that has bytes in it.\<close>

fun surviving :: "log_image \<Rightarrow> wal_record list" where
  "surviving [] = []"
| "surviving ((n, rs, tail) # segs) = rs @ (if tail = [] then surviving segs else [])"

lemma read_segments_image:
  assumes "list_all (\<lambda>(n, rs, tail). encodes (we_decode E) enc rs \<and> we_read E (segment_path (src_wal_dir w) n) = Inr (image enc rs tail) \<and>
      we_decode E tail = Torn) segs"
  shows "read_segments E w (map fst segs) out = Some (Inr (out @ surviving segs))"
  using assms
proof (induction segs arbitrary: out rule: surviving.induct)
  case (2 n rs tail segs)
  have "read_segment (we_decode E) (image enc rs tail) 0 out = Some (out @ rs, tail \<noteq> [])"
    using read_segment_image [of "we_decode E" enc rs tail "[]" out] 2(2) by simp
  with 2 show ?case by (auto simp: Let_def)
qed simp

lemma records_image: "log_on_disk E w enc segs \<Longrightarrow> records E w = Some (Inr (surviving segs))"
  using read_segments_image [of E enc w segs "[]"] by (simp add: records_def log_on_disk_def)

subsection \<open>A small log, kept for the concrete instances\<close>

text \<open>Two commits in two segments, the second segment ending in a torn write.\<close>

definition demo_records :: "wal_record list" where
  "demo_records =
     [\<lparr>rec_lsn = 1, rec_kind = WriteRec 0 (Some (PageId [7]))\<rparr>,
      \<lparr>rec_lsn = 2, rec_kind = CommitRec (ManifestId [1, 100]) 100\<rparr>,
      \<lparr>rec_lsn = 3, rec_kind = WriteRec 0 None\<rparr>,
      \<lparr>rec_lsn = 4, rec_kind = CommitRec (ManifestId [1, 100, 1, 200]) 200\<rparr>]"

definition demo_enc :: "wal_record \<Rightarrow> bytes" where
  "demo_enc r = [ucast (rec_lsn r)]"

definition demo_decode :: "bytes \<Rightarrow> read_outcome" where
  "demo_decode bs =
     (case bs of [] \<Rightarrow> Torn
      | b # _ \<Rightarrow> if 1 \<le> b \<and> b \<le> 4 then ReadRecord (demo_records ! (unat b - 1)) 1 else Torn)"

definition demo_source :: wal_source where
  "demo_source = wal_source_open [''db''] 4"

definition demo_env :: wal_env where
  "demo_env =
     \<lparr>we_exists = (\<lambda>_. False),
      we_read = (\<lambda>p. if p = segment_path [''db'', ''wal''] 1 then Inr [1, 2]
                     else if p = segment_path [''db'', ''wal''] 2 then Inr [3, 4, 0] else Inl IoNotFound),
      we_read_dir = (\<lambda>_. Inr [segment_path [''db'', ''wal''] 2, segment_path [''db'', ''wal''] 1]),
      we_cas_get = (\<lambda>i. case i of PageId b \<Rightarrow> Inr b),
      we_decode = demo_decode,
      we_empty_id = (\<lambda>_. Inr (ManifestId []))\<rparr>"

lemma demo_wal_dir: "src_wal_dir demo_source = [''db'', ''wal'']"
  by (simp add: demo_source_def wal_source_open_def join_def)

lemma segment_path_inject [simp]: "segment_path dir m = segment_path dir n \<longleftrightarrow> m = n"
  by (metis option.inject segment_number_path)

lemma demo_log: "log_on_disk demo_env demo_source demo_enc
  [(1, take 2 demo_records, []), (2, drop 2 demo_records, [0])]"
proof -
  have "segments demo_env demo_source = Inr [1, 2]"
    by (simp add: segments_def demo_env_def map_filter_simps segment_number_path word_le_nat_alt)
  then show ?thesis
    by (simp add: log_on_disk_def demo_wal_dir)
      (simp add: demo_env_def encodes_def demo_decode_def demo_enc_def demo_records_def image_def)
qed

lemma demo_decoder: "decoder_ok demo_decode"
  by (auto simp: decoder_ok_def demo_decode_def split: list.splits if_splits)

subsection \<open>The guarantees of reading the log\<close>

text \<open>Reading the log yields every complete record of every segment in order, up to the first
  torn tail that still has bytes: a clean end of a segment leads on to the next segment, and nothing
  after a torn write is read.\<close>

theorem log_read_to_torn_tail:
  assumes "log_on_disk E w enc segs"
  shows "records E w = Some (Inr (surviving segs))"
  by (rule records_image [OF assms])

lemma log_read_to_torn_tail_witness: "records demo_env demo_source = Some (Inr demo_records)"
  using log_read_to_torn_tail [OF demo_log] by (simp add: demo_records_def)

end
