(* ===== verification/Kernel_Paging.thy ===== *)
theory Kernel_Paging
  imports Fs Sync_Log
begin

section \<open>The kernel's paging: a database file as pages\<close>

text \<open>
  \<open>crates/flock-kernel/src/error.rs\<close> and \<open>paging.rs\<close>: \<open>hydrate\<close> writes the pages of a manifest out
  as a file, \<open>persist\<close> reads the file back into a transaction of the pages that changed and commits
  it. The page store is substrate's trait and a parameter; \<open>store_law\<close> is what the two rely on: a
  manifest names a fixed map of pages (\<open>view\<close>), reads return it, and a commit installs the head's
  map changed by the transaction, the head itself when nothing changed.

  The abstract specification is \<open>layout\<close>, a file as its map of pages: \<open>persist\<close> commits exactly the
  difference between the head's map and the file's layout, and \<open>hydrate\<close> inverts \<open>layout\<close>.
  \<open>page_no as usize * page_size\<close> is arithmetic on a 64-bit \<open>usize\<close> and wraps, as in a release build.
\<close>

subsection \<open>Errors\<close>

datatype kernel_error =
    KSql string string
  | KOpen path string
  | KScratch string path io_error
  | KStore string pager_error
  | CorruptLayout manifest_id page_no nat nat
  | KExport path string

subsection \<open>The page store\<close>

record ('x, 't) page_store =
  pst_page_size :: "'x \<Rightarrow> nat"
  pst_head :: "'x \<Rightarrow> manifest_id"
  pst_resolve :: "'x \<Rightarrow> manifest_id \<Rightarrow> (pager_error + (page_no \<times> page_id) list) \<times> 'x"
  pst_read :: "'x \<Rightarrow> manifest_id \<Rightarrow> page_no \<Rightarrow> (pager_error + bytes) \<times> 'x"
  pst_begin :: "'x \<Rightarrow> (pager_error + 't) \<times> 'x"
  pst_write :: "'x \<Rightarrow> 't \<Rightarrow> page_no \<Rightarrow> bytes \<Rightarrow> (pager_error + 't) \<times> 'x"
  pst_remove :: "'x \<Rightarrow> 't \<Rightarrow> page_no \<Rightarrow> (pager_error + 't) \<times> 'x"
  pst_commit :: "'x \<Rightarrow> 't \<Rightarrow> (pager_error + manifest_id) \<times> 'x"

type_synonym page_map = "page_no \<Rightarrow> bytes option"
type_synonym change_map = "page_no \<Rightarrow> bytes option option"

subsection \<open>Pages to file\<close>

fun hydrate_pages :: "('x, 't) page_store \<Rightarrow> nat \<Rightarrow> manifest_id \<Rightarrow> page_no list \<Rightarrow> bytes \<Rightarrow> 'x \<Rightarrow>
    (kernel_error + bytes) \<times> 'x" where
  "hydrate_pages P ps m [] file x = (Inr file, x)"
| "hydrate_pages P ps m (p # pages) file x =
     (let expected = unat p * ps mod 2 ^ 64
      in if length file \<noteq> expected then (Inl (CorruptLayout m p expected (length file)), x)
         else
           (case pst_read P x m p of
              (Inl e, x') \<Rightarrow> (Inl (KStore ''hydrate'' e), x')
            | (Inr page, x') \<Rightarrow> hydrate_pages P ps m pages (file @ page) x'))"

definition hydrate :: "('x, 't) page_store \<Rightarrow> 'x \<Rightarrow> manifest_id \<Rightarrow> path \<Rightarrow> fs \<Rightarrow>
    (kernel_error + unit) \<times> 'x \<times> fs" where
  "hydrate P x m path f =
     (let ps = pst_page_size P x
      in case pst_resolve P x m of
           (Inl e, x') \<Rightarrow> (Inl (KStore ''hydrate'' e), x', f)
         | (Inr pages, x') \<Rightarrow>
             (case hydrate_pages P ps m (map fst pages) [] x' of
                (Inl e, x'') \<Rightarrow> (Inl e, x'', f)
              | (Inr file, x'') \<Rightarrow>
                  if file = [] then
                    (case fs_remove_file f path of
                       (Inr _, f') \<Rightarrow> (Inr (), x'', f')
                     | (Inl IoNotFound, f') \<Rightarrow> (Inr (), x'', f')
                     | (Inl e, f') \<Rightarrow> (Inl (KScratch ''clear scratch file'' path e), x'', f'))
                  else
                    (case fs_write f path file of
                       (Inr _, f') \<Rightarrow> (Inr (), x'', f')
                     | (Inl e, f') \<Rightarrow> (Inl (KScratch ''write hydrated database'' path e), x'', f'))))"

subsection \<open>File to pages\<close>

text \<open>The loop over \<open>bytes.chunks(page_size)\<close>; \<open>i\<close> is the enumeration index.\<close>

fun stage_chunks :: "('x, 't) page_store \<Rightarrow> manifest_id \<Rightarrow> (page_no \<times> page_id) list \<Rightarrow> nat \<Rightarrow>
    bytes list \<Rightarrow> 't \<Rightarrow> 'x \<Rightarrow> (kernel_error + 't) \<times> 'x" where
  "stage_chunks P head old i [] t x = (Inr t, x)"
| "stage_chunks P head old i (chunk # rest) t x =
     (let p = word_of_nat i;
          (same, x1) =
            (if map_of old p \<noteq> None then
               (case pst_read P x head p of
                  (Inl e, x1) \<Rightarrow> (Inl (KStore ''checkpoint'' e), x1)
                | (Inr existing, x1) \<Rightarrow> (Inr (existing = chunk), x1))
             else (Inr False, x))
      in case same of
           Inl e \<Rightarrow> (Inl e, x1)
         | Inr True \<Rightarrow> stage_chunks P head old (Suc i) rest t x1
         | Inr False \<Rightarrow>
             (case pst_write P x1 t p chunk of
                (Inl e, x2) \<Rightarrow> (Inl (KStore ''checkpoint'' e), x2)
              | (Inr t', x2) \<Rightarrow> stage_chunks P head old (Suc i) rest t' x2))"

fun stage_removals :: "('x, 't) page_store \<Rightarrow> page_no list \<Rightarrow> 't \<Rightarrow> 'x \<Rightarrow> (kernel_error + 't) \<times> 'x" where
  "stage_removals P [] t x = (Inr t, x)"
| "stage_removals P (p # pages) t x =
     (case pst_remove P x t p of
        (Inl e, x') \<Rightarrow> (Inl (KStore ''checkpoint'' e), x')
      | (Inr t', x') \<Rightarrow> stage_removals P pages t' x')"

text \<open>Everything of \<open>persist\<close> between reading the file and the commit.\<close>

definition stage_file :: "('x, 't) page_store \<Rightarrow> nat \<Rightarrow> manifest_id \<Rightarrow> bytes \<Rightarrow> 'x \<Rightarrow> (kernel_error + 't) \<times> 'x" where
  "stage_file P ps head bs x =
     (case pst_resolve P x head of
        (Inl e, x1) \<Rightarrow> (Inl (KStore ''checkpoint'' e), x1)
      | (Inr old, x1) \<Rightarrow>
          (case pst_begin P x1 of
             (Inl e, x2) \<Rightarrow> (Inl (KStore ''checkpoint'' e), x2)
           | (Inr t, x2) \<Rightarrow>
               (let cs = chunks ps bs; new_page_count = word_of_nat (length cs)
                in case stage_chunks P head old 0 cs t x2 of
                     (Inl e, x3) \<Rightarrow> (Inl e, x3)
                   | (Inr t', x3) \<Rightarrow>
                       stage_removals P (filter (\<lambda>n. new_page_count \<le> n) (map fst old)) t' x3)))"

text \<open>\<open>chunks(0)\<close> panics.\<close>

definition persist :: "('x, 't) page_store \<Rightarrow> 'x \<Rightarrow> path \<Rightarrow> fs \<Rightarrow>
    (kernel_error, manifest_id) outcome \<times> 'x \<times> fs" where
  "persist P x path f =
     (let ps = pst_page_size P x; head = pst_head P x
      in case fs_read f path of
           (Inl e, f') \<Rightarrow> (Err (KScratch ''read database for checkpoint'' path e), x, f')
         | (Inr bs, f') \<Rightarrow>
             if ps = 0 then (Panic, x, f')
             else
               (case stage_file P ps head bs x of
                  (Inl e, x') \<Rightarrow> (Err e, x', f')
                | (Inr t, x') \<Rightarrow>
                    (case pst_commit P x' t of
                       (Inl e, x'') \<Rightarrow> (Err (KStore ''checkpoint'' e), x'', f')
                     | (Inr m, x'') \<Rightarrow> (Ok m, x'', f'))))"

subsection \<open>What the kernel relies on\<close>

definition apply_changes :: "page_map \<Rightarrow> change_map \<Rightarrow> page_map" where
  "apply_changes v c = (\<lambda>p. case c p of None \<Rightarrow> v p | Some w \<Rightarrow> w)"

definition store_frame :: "('x, 't) page_store \<Rightarrow> ('x \<Rightarrow> bool) \<Rightarrow> 'x \<Rightarrow> 'x \<Rightarrow> bool" where
  "store_frame P I x x' \<longleftrightarrow>
     I x' \<and> pst_head P x' = pst_head P x \<and> pst_page_size P x' = pst_page_size P x"

definition store_law :: "('x, 't) page_store \<Rightarrow> ('x \<Rightarrow> bool) \<Rightarrow> (manifest_id \<Rightarrow> page_map) \<Rightarrow>
    ('t \<Rightarrow> change_map) \<Rightarrow> bool" where
  "store_law P I view chg \<longleftrightarrow> (\<forall>x. I x \<longrightarrow>
     0 < pst_page_size P x \<and>
     (\<forall>m r x'. pst_resolve P x m = (r, x') \<longrightarrow> store_frame P I x x' \<and>
        (\<forall>l. r = Inr l \<longrightarrow> bt_ok l \<and> fst ` set l = dom (view m))) \<and>
     (\<forall>m p r x'. pst_read P x m p = (r, x') \<longrightarrow> store_frame P I x x' \<and>
        (\<forall>b. r = Inr b \<longrightarrow> view m p = Some b)) \<and>
     (\<forall>r x'. pst_begin P x = (r, x') \<longrightarrow> store_frame P I x x' \<and> (\<forall>t. r = Inr t \<longrightarrow> chg t = Map.empty)) \<and>
     (\<forall>t p b r x'. pst_write P x t p b = (r, x') \<longrightarrow> store_frame P I x x' \<and>
        (\<forall>t'. r = Inr t' \<longrightarrow> chg t' = (chg t)(p \<mapsto> Some b))) \<and>
     (\<forall>t p r x'. pst_remove P x t p = (r, x') \<longrightarrow> store_frame P I x x' \<and>
        (\<forall>t'. r = Inr t' \<longrightarrow> chg t' = (chg t)(p \<mapsto> None))) \<and>
     (\<forall>t m x'. pst_commit P x t = (Inr m, x') \<longrightarrow> I x' \<and> pst_head P x' = m \<and>
        pst_page_size P x' = pst_page_size P x \<and>
        view m = apply_changes (view (pst_head P x)) (chg t) \<and>
        (chg t = Map.empty \<longrightarrow> m = pst_head P x)))"

text \<open>
  A healthy store answers for its head: the manifest it is positioned on resolves, and every page of it
  is read. Of any other manifest, one it may never have seen, nothing is assumed.
\<close>

definition store_serves :: "('x, 't) page_store \<Rightarrow> ('x \<Rightarrow> bool) \<Rightarrow> (manifest_id \<Rightarrow> page_map) \<Rightarrow> bool" where
  "store_serves P I view \<longleftrightarrow> (\<forall>x. I x \<longrightarrow>
     \<not> isl (fst (pst_resolve P x (pst_head P x))) \<and>
     (\<forall>p \<in> dom (view (pst_head P x)). \<not> isl (fst (pst_read P x (pst_head P x) p))))"

lemma store_frame_trans: "store_frame P I x y \<Longrightarrow> store_frame P I y z \<Longrightarrow> store_frame P I x z"
  by (simp add: store_frame_def)

lemma store_frame_inv: "store_frame P I x y \<Longrightarrow> I y"
  by (simp add: store_frame_def)

lemma store_lawD:
  assumes "store_law P I view chg" "I x"
  shows "0 < pst_page_size P x"
    and "pst_resolve P x m = (r1, x') \<Longrightarrow> store_frame P I x x' \<and>
      (\<forall>l. r1 = Inr l \<longrightarrow> bt_ok l \<and> fst ` set l = dom (view m))"
    and "pst_read P x m p = (r2, x') \<Longrightarrow> store_frame P I x x' \<and> (\<forall>b. r2 = Inr b \<longrightarrow> view m p = Some b)"
    and "pst_begin P x = (r3, x') \<Longrightarrow> store_frame P I x x' \<and> (\<forall>t. r3 = Inr t \<longrightarrow> chg t = Map.empty)"
    and "pst_write P x t p b = (r4, x') \<Longrightarrow> store_frame P I x x' \<and>
      (\<forall>t'. r4 = Inr t' \<longrightarrow> chg t' = (chg t)(p \<mapsto> Some b))"
    and "pst_remove P x t p = (r4, x') \<Longrightarrow> store_frame P I x x' \<and>
      (\<forall>t'. r4 = Inr t' \<longrightarrow> chg t' = (chg t)(p \<mapsto> None))"
    and "pst_commit P x t = (Inr m, x') \<Longrightarrow> I x' \<and> pst_head P x' = m \<and>
      pst_page_size P x' = pst_page_size P x \<and>
      view m = apply_changes (view (pst_head P x)) (chg t) \<and> (chg t = Map.empty \<longrightarrow> m = pst_head P x)"
proof -
  note l = assms(1) [unfolded store_law_def, THEN spec, THEN mp, OF assms(2)]
  note l1 = l [THEN conjunct2] note l2 = l1 [THEN conjunct2] note l3 = l2 [THEN conjunct2]
  note l4 = l3 [THEN conjunct2] note l5 = l4 [THEN conjunct2] note l6 = l5 [THEN conjunct2]
  show "0 < pst_page_size P x" by (rule l [THEN conjunct1])
  show "pst_resolve P x m = (r1, x') \<Longrightarrow> store_frame P I x x' \<and>
      (\<forall>l. r1 = Inr l \<longrightarrow> bt_ok l \<and> fst ` set l = dom (view m))"
    by (rule l1 [THEN conjunct1, THEN spec, THEN spec, THEN spec, THEN mp])
  show "pst_read P x m p = (r2, x') \<Longrightarrow> store_frame P I x x' \<and> (\<forall>b. r2 = Inr b \<longrightarrow> view m p = Some b)"
    by (rule l2 [THEN conjunct1, THEN spec, THEN spec, THEN spec, THEN spec, THEN mp])
  show "pst_begin P x = (r3, x') \<Longrightarrow> store_frame P I x x' \<and> (\<forall>t. r3 = Inr t \<longrightarrow> chg t = Map.empty)"
    by (rule l3 [THEN conjunct1, THEN spec, THEN spec, THEN mp])
  show "pst_write P x t p b = (r4, x') \<Longrightarrow> store_frame P I x x' \<and>
      (\<forall>t'. r4 = Inr t' \<longrightarrow> chg t' = (chg t)(p \<mapsto> Some b))"
    by (rule l4 [THEN conjunct1, THEN spec, THEN spec, THEN spec, THEN spec, THEN spec, THEN mp])
  show "pst_remove P x t p = (r4, x') \<Longrightarrow> store_frame P I x x' \<and>
      (\<forall>t'. r4 = Inr t' \<longrightarrow> chg t' = (chg t)(p \<mapsto> None))"
    by (rule l5 [THEN conjunct1, THEN spec, THEN spec, THEN spec, THEN spec, THEN mp])
  show "pst_commit P x t = (Inr m, x') \<Longrightarrow> I x' \<and> pst_head P x' = m \<and>
      pst_page_size P x' = pst_page_size P x \<and>
      view m = apply_changes (view (pst_head P x)) (chg t) \<and> (chg t = Map.empty \<longrightarrow> m = pst_head P x)"
    by (rule l6 [THEN spec, THEN spec, THEN spec, THEN mp])
qed

subsection \<open>The layout of a file\<close>

definition layout :: "nat \<Rightarrow> bytes \<Rightarrow> page_map" where
  "layout ps bs p =
     (if unat p < length (chunks ps bs) then Some (chunks ps bs ! unat p) else None)"

text \<open>Page numbers of chunks are numbers below \<open>2 ^ 64\<close>: a file has at most \<open>isize_max\<close> bytes.\<close>

lemma chunk_count_lt: "0 < ps \<Longrightarrow> length bs \<le> isize_max \<Longrightarrow> length (chunks ps bs) < 2 ^ 64"
proof -
  assume ps: "0 < ps" and len: "length bs \<le> isize_max"
  have "\<not> length bs < length (chunks ps bs)"
  proof
    assume "length bs < length (chunks ps bs)"
    then have "length bs * ps < length bs" using chunks_nth_offset_lt [OF ps, of "length bs" bs] by simp
    with ps show False by (cases ps) simp_all
  qed
  with len show ?thesis by (simp add: isize_max_def)
qed

lemma layout_upto: "unat p < length (chunks ps bs) \<Longrightarrow> layout ps bs p = Some (chunks ps bs ! unat p)"
  by (simp add: layout_def)

subsection \<open>Staging a file stages the difference\<close>

text \<open>The transaction after staging \<open>cs\<close> from page \<open>i\<close>: the pages whose bytes differ.\<close>

definition chunk_delta :: "page_map \<Rightarrow> nat \<Rightarrow> bytes list \<Rightarrow> change_map \<Rightarrow> change_map" where
  "chunk_delta v i cs c = (\<lambda>p.
     if i \<le> unat p \<and> unat p < i + length cs \<and> v p \<noteq> Some (cs ! (unat p - i))
     then Some (Some (cs ! (unat p - i))) else c p)"

lemma chunk_delta_Nil [simp]: "chunk_delta v i [] c = c"
  by (auto simp: chunk_delta_def fun_eq_iff)

lemma chunk_delta_Cons:
  fixes v :: page_map
  assumes "i + length (c # cs) < 2 ^ 64"
  shows "chunk_delta v i (c # cs) m =
    chunk_delta v (Suc i) cs (if v (word_of_nat i) = Some c then m else m(word_of_nat i \<mapsto> Some c))"
proof
  fix p :: u64
  have i: "unat (word_of_nat i :: u64) = i" using assms by (intro unat_of_nat_u64) simp
  show "chunk_delta v i (c # cs) m p =
      chunk_delta v (Suc i) cs (if v (word_of_nat i) = Some c then m else m(word_of_nat i \<mapsto> Some c)) p"
  proof (cases "unat p = i")
    case True
    then have "p = word_of_nat i" by (simp add: u64_eq_iff i)
    with True show ?thesis by (simp add: chunk_delta_def)
  next
    case False
    then have "p \<noteq> word_of_nat i" using i by auto
    moreover have "(c # cs) ! (unat p - i) = cs ! (unat p - Suc i)" if "Suc i \<le> unat p"
      using that by (simp add: nth_Cons' Suc_diff_Suc)
    ultimately show ?thesis using False by (auto simp: chunk_delta_def)
  qed
qed

lemma stage_chunks_delta:
  assumes law: "store_law P I view chg" and I: "I x"
    and old: "fst ` set old = dom (view head)"
    and run: "stage_chunks P head old i cs t x = (Inr t', x')"
    and room: "i + length cs < 2 ^ 64"
  shows "store_frame P I x x' \<and> chg t' = chunk_delta (view head) i cs (chg t)"
  using I run room
proof (induction cs arbitrary: i t x)
  case Nil
  then show ?case by (simp add: store_frame_def)
next
  case (Cons c rest)
  let ?p = "word_of_nat i :: u64"
  have known: "map_of old ?p \<noteq> None \<longleftrightarrow> ?p \<in> dom (view head)"
    using old by (metis dom_map_of_conv_image_fst domIff)
  have "\<exists>x1. store_frame P I x x1 \<and>
      (if view head ?p = Some c then stage_chunks P head old (Suc i) rest t x1 = (Inr t', x')
       else \<exists>t1 x2. pst_write P x1 t ?p c = (Inr t1, x2) \<and>
         stage_chunks P head old (Suc i) rest t1 x2 = (Inr t', x'))"
  proof (cases "?p \<in> dom (view head)")
    case True
    obtain r x1 where rd: "pst_read P x head ?p = (r, x1)" by fastforce
    note lr = store_lawD(3) [OF law Cons.prems(1) rd]
    from Cons.prems(2) True known rd obtain b where b: "r = Inr b" by (cases r) auto
    with lr have v: "view head ?p = Some b" by simp
    show ?thesis
      by (intro exI [of _ x1], cases "b = c")
        (use Cons.prems(2) True known rd b v lr in \<open>auto split: prod.splits sum.splits\<close>)
  next
    case False
    then have "view head ?p = None" by (simp add: domIff)
    with False Cons.prems(1,2) known show ?thesis
      by (intro exI [of _ x]) (auto simp: store_frame_def split: if_splits prod.splits sum.splits)
  qed
  then obtain x1 where f1: "store_frame P I x x1" and rest:
    "if view head ?p = Some c then stage_chunks P head old (Suc i) rest t x1 = (Inr t', x')
     else \<exists>t1 x2. pst_write P x1 t ?p c = (Inr t1, x2) \<and>
       stage_chunks P head old (Suc i) rest t1 x2 = (Inr t', x')" by blast
  have room': "Suc i + length rest < 2 ^ 64" using Cons.prems(3) by simp
  show ?case
  proof (cases "view head ?p = Some c")
    case True
    with Cons.IH [OF store_frame_inv [OF f1] _ room'] rest
    show ?thesis by (simp add: chunk_delta_Cons [OF Cons.prems(3)] store_frame_trans [OF f1])
  next
    case False
    with rest obtain t1 x2 where w: "pst_write P x1 t ?p c = (Inr t1, x2)"
      "stage_chunks P head old (Suc i) rest t1 x2 = (Inr t', x')" by auto
    note lw = store_lawD(5) [OF law store_frame_inv [OF f1] w(1)]
    then have f2: "store_frame P I x x2" using store_frame_trans [OF f1] by blast
    have e: "chg t1 = (chg t)(?p \<mapsto> Some c)" using lw by blast
    note IH = Cons.IH [OF store_frame_inv [OF f2] w(2) room']
    show ?thesis
      unfolding chunk_delta_Cons [OF Cons.prems(3)] if_not_P [OF False] e [symmetric]
      using IH store_frame_trans [OF f2] by blast
  qed
qed

lemma stage_removals_delta:
  assumes law: "store_law P I view chg"
  shows "I x \<Longrightarrow> stage_removals P pages t x = (Inr t', x') \<Longrightarrow>
    store_frame P I x x' \<and> chg t' = (\<lambda>p. if p \<in> set pages then Some None else chg t p)"
proof (induction pages arbitrary: t x)
  case Nil
  then show ?case by (simp add: store_frame_def)
next
  case (Cons p pages)
  obtain r x1 where w: "pst_remove P x t p = (r, x1)" by fastforce
  with Cons.prems(2) obtain t1 where r: "r = Inr t1" by (cases r) auto
  note lw = store_lawD(6) [OF law Cons.prems(1) w]
  then have f: "store_frame P I x x1" by simp
  from Cons.IH [OF store_frame_inv [OF f], of t1] Cons.prems(2) w r lw
  show ?case by (auto simp: fun_eq_iff intro: store_frame_trans [OF f])
qed

text \<open>What a commit of a staged file changes: exactly the pages that differ from its layout.\<close>

definition file_delta :: "page_map \<Rightarrow> page_map \<Rightarrow> change_map" where
  "file_delta v l = (\<lambda>p. if v p = l p then None else Some (l p))"

lemma apply_file_delta: "apply_changes v (file_delta v l) = l"
  by (auto simp: apply_changes_def file_delta_def)

lemma stage_file_delta:
  assumes law: "store_law P I view chg" and I: "I x" and ps: "0 < ps" and len: "length bs \<le> isize_max"
    and run: "stage_file P ps head bs x = (Inr t, x')"
  shows "store_frame P I x x' \<and> chg t = file_delta (view head) (layout ps bs)"
proof -
  let ?cs = "chunks ps bs"
  obtain r1 x1 where s1: "pst_resolve P x head = (r1, x1)" by fastforce
  with run obtain old where old: "r1 = Inr old" by (cases r1) (auto simp: stage_file_def)
  note l1 = store_lawD(2) [OF law I s1]
  have I1: "I x1" by (rule store_frame_inv [OF l1 [THEN conjunct1]])
  obtain r2 x2 where s2: "pst_begin P x1 = (r2, x2)" by fastforce
  with run s1 old obtain t0 where t0: "r2 = Inr t0" by (cases r2) (auto simp: stage_file_def)
  note l2 = store_lawD(4) [OF law I1 s2]
  have I2: "I x2" by (rule store_frame_inv [OF l2 [THEN conjunct1]])
  obtain r3 x3 where s3: "stage_chunks P head old 0 ?cs t0 x2 = (r3, x3)" by fastforce
  with run s1 old s2 t0 obtain t1 where t1: "r3 = Inr t1" by (cases r3) (auto simp: stage_file_def)
  have room: "0 + length ?cs < 2 ^ 64" using chunk_count_lt [OF ps len] by simp
  have dom: "fst ` set old = dom (view head)" using l1 old by simp
  note l3 = stage_chunks_delta [OF law I2 dom s3 [unfolded t1] room]
  have I3: "I x3" by (rule store_frame_inv [OF l3 [THEN conjunct1]])
  have s4: "stage_removals P (filter (\<lambda>n. word_of_nat (length ?cs) \<le> n) (map fst old)) t1 x3 = (Inr t, x')"
    using run s1 old s2 t0 s3 t1 by (simp add: stage_file_def)
  note l4 = stage_removals_delta [OF law I3 s4]
  have n: "unat (word_of_nat (length ?cs) :: u64) = length ?cs" using room by (intro unat_of_nat_u64) simp
  have mem: "p \<in> set (filter (\<lambda>n. word_of_nat (length ?cs) \<le> n) (map fst old)) \<longleftrightarrow>
      length ?cs \<le> unat p \<and> view head p \<noteq> None" for p
  proof -
    have "view head p \<noteq> None \<longleftrightarrow> p \<in> fst ` set old" using dom by (simp add: domIff)
    then show ?thesis by (simp only: set_filter mem_Collect_eq set_map word_le_nat_alt n) blast
  qed
  have "chg t = file_delta (view head) (layout ps bs)"
  proof
    fix p
    have "chg t1 = chunk_delta (view head) 0 ?cs Map.empty" using l3 l2 t0 by simp
    moreover have "chg t p = (if length ?cs \<le> unat p \<and> view head p \<noteq> None then Some None else chg t1 p)"
      using l4 [THEN conjunct2] by (simp only: mem)
    ultimately show "chg t p = file_delta (view head) (layout ps bs) p"
      by (simp add: file_delta_def layout_def chunk_delta_def)
  qed
  moreover have "store_frame P I x x'"
    by (rule store_frame_trans [OF l1 [THEN conjunct1] store_frame_trans [OF l2 [THEN conjunct1]
      store_frame_trans [OF l3 [THEN conjunct1] l4 [THEN conjunct1]]]])
  ultimately show ?thesis by blast
qed

subsection \<open>Persisting\<close>

lemma persist_Ok:
  assumes law: "store_law P I view chg" and I: "I x" and run: "persist P x path f = (Ok m, x', f')"
    and content: "fs_lookup f path = Some (FileNode bs)" and len: "length bs \<le> isize_max"
  shows "view m = layout (pst_page_size P x) bs \<and> I x' \<and> pst_head P x' = m \<and>
    pst_page_size P x' = pst_page_size P x \<and> (\<forall>q. fs_lookup f' q = fs_lookup f q) \<and> fs_faults f' = fs_faults f \<and>
    (view (pst_head P x) = layout (pst_page_size P x) bs \<longrightarrow> m = pst_head P x)"
proof -
  let ?ps = "pst_page_size P x" and ?head = "pst_head P x"
  obtain r f1 where rd: "fs_read f path = (r, f1)" by fastforce
  with run obtain b where b: "r = Inr b" by (cases r) (auto simp: persist_def Let_def)
  note fr = fs_read_frame [OF rd]
  have bs: "b = bs" using fr b content by simp
  have ps: "0 < ?ps" by (rule store_lawD(1) [OF law I])
  obtain s x1 where st: "stage_file P ?ps ?head bs x = (s, x1)" by fastforce
  with run rd b bs ps obtain t where t: "s = Inr t" by (cases s) (auto simp: persist_def Let_def)
  note d = stage_file_delta [OF law I ps len st [unfolded t]]
  obtain c x2 where cm: "pst_commit P x1 t = (c, x2)" by fastforce
  with run rd b bs ps st t have fin: "c = Inr m" "x' = x2" "f' = f1"
    by (cases c; simp add: persist_def Let_def)+
  have I1: "I x1" by (rule store_frame_inv [OF d [THEN conjunct1]])
  note lc = store_lawD(7) [OF law I1 cm [unfolded fin(1)]]
  have same: "pst_head P x1 = ?head" "pst_page_size P x1 = ?ps" using d by (simp_all add: store_frame_def)
  have "view m = layout ?ps bs" using lc d same by (simp add: apply_file_delta)
  moreover have "m = ?head" if "view ?head = layout ?ps bs"
  proof -
    have "chg t = Map.empty" using d that by (simp add: file_delta_def)
    with lc same show ?thesis by simp
  qed
  ultimately show ?thesis using lc same fin(2,3) fr by simp
qed

subsection \<open>Hydrating\<close>

lemma hydrate_pages_Inr:
  assumes law: "store_law P I view chg"
  shows "I x \<Longrightarrow> hydrate_pages P ps m ks dat x = (Inr dat', x') \<Longrightarrow>
    store_frame P I x x' \<and> dat' = dat @ concat (map (\<lambda>k. the (view m k)) ks) \<and>
    (\<forall>i < length ks. unat (ks ! i) * ps mod 2 ^ 64 =
       length dat + length (concat (map (\<lambda>k. the (view m k)) (take i ks))))"
proof (induction ks arbitrary: dat x)
  case Nil
  then show ?case by (simp add: store_frame_def)
next
  case (Cons k ks)
  have off: "unat k * ps mod 2 ^ 64 = length dat"
    using Cons.prems(2) by (simp add: Let_def split: if_splits)
  obtain r x1 where rd: "pst_read P x m k = (r, x1)" by fastforce
  with Cons.prems(2) off obtain b where b: "r = Inr b" by (cases r) (auto simp: Let_def)
  note lr = store_lawD(3) [OF law Cons.prems(1) rd]
  have v: "view m k = Some b" using lr b by simp
  have f: "store_frame P I x x1" by (rule lr [THEN conjunct1])
  have "hydrate_pages P ps m ks (dat @ b) x1 = (Inr dat', x')"
    using Cons.prems(2) off rd b by (simp add: Let_def)
  note IH = Cons.IH [OF store_frame_inv [OF f] this]
  have "unat ((k # ks) ! i) * ps mod 2 ^ 64 =
      length dat + length (concat (map (\<lambda>k. the (view m k)) (take i (k # ks))))"
    if "i < length (k # ks)" for i
    using that IH off v by (cases i) simp_all
  with IH v show ?case by (simp add: store_frame_trans [OF f])
qed

text \<open>A hydrate that succeeds has put the pages of the manifest, in order, into the file.\<close>

lemma hydrate_Inr:
  assumes law: "store_law P I view chg" and I: "I x" and path: "path \<noteq> []"
    and run: "hydrate P x m path f = (Inr (), x', f')"
  shows "\<exists>ks. sorted_wrt (<) ks \<and> set ks = dom (view m) \<and> store_frame P I x x' \<and>
    (let dat = concat (map (\<lambda>k. the (view m k)) ks)
     in (\<forall>q. fs_lookup f' q =
          (if q = path then (if dat = [] then None else Some (FileNode dat)) else fs_lookup f q)) \<and>
        (\<forall>i < length ks. unat (ks ! i) * pst_page_size P x mod 2 ^ 64 =
           length (concat (map (\<lambda>k. the (view m k)) (take i ks)))))"
proof -
  let ?ps = "pst_page_size P x"
  obtain r x1 where rs: "pst_resolve P x m = (r, x1)" by fastforce
  with run obtain l where l: "r = Inr l" by (cases r) (auto simp: hydrate_def Let_def)
  note lr = store_lawD(2) [OF law I rs]
  have f1: "store_frame P I x x1" by (rule lr [THEN conjunct1])
  obtain h x2 where hp: "hydrate_pages P ?ps m (map fst l) [] x1 = (h, x2)" by fastforce
  with run rs l obtain dat where out: "h = Inr dat" by (cases h) (auto simp: hydrate_def Let_def)
  note lh = hydrate_pages_Inr [OF law store_frame_inv [OF f1] hp [unfolded out]]
  have ks: "sorted_wrt (<) (map fst l)" "set (map fst l) = dom (view m)"
    using lr l by (simp_all add: bt_ok_def)
  have eff: "x' = x2 \<and> (\<forall>q. fs_lookup f' q =
      (if q = path then (if dat = [] then None else Some (FileNode dat)) else fs_lookup f q))"
  proof (cases "dat = []")
    case True
    obtain e f1 where rm: "fs_remove_file f path = (e, f1)" by fastforce
    note eff = fs_remove_file_effect [OF rm path]
    have "x' = x2 \<and> f' = f1 \<and> (e = Inr () \<or> e = Inl IoNotFound)"
    proof (cases e)
      case (Inl ie)
      with run rs l hp out True rm show ?thesis by (cases ie) (simp_all add: hydrate_def Let_def)
    qed (use run rs l hp out True rm in \<open>simp add: hydrate_def Let_def\<close>)
    with eff True show ?thesis by (elim conjE disjE) auto
  next
    case False
    obtain e f1 where wr: "fs_write f path dat = (e, f1)" by fastforce
    show ?thesis
      using run rs l hp out False wr fs_write_effect [OF wr path]
      by (cases e) (auto simp: hydrate_def Let_def)
  qed
  show ?thesis
    using ks eff lh store_frame_trans [OF f1]
    by (intro exI [of _ "map fst l"]) (simp add: Let_def)
qed

text \<open>The keys of a file's layout.\<close>

lemma layout_keys:
  assumes "0 < ps" "length bs \<le> isize_max" "sorted_wrt (<) ks" "set ks = dom (layout ps bs)"
  shows "ks = map word_of_nat [0..<length (chunks ps bs)]"
proof (rule strict_sorted_equal)
  let ?n = "length (chunks ps bs)"
  have n: "?n < 2 ^ 64" by (rule chunk_count_lt [OF assms(1,2)])
  have u: "unat (word_of_nat i :: u64) = i" if "i < ?n" for i
    using that n by (intro unat_of_nat_u64) simp
  show "sorted_wrt (<) (map word_of_nat [0..<?n] :: u64 list)"
    unfolding sorted_wrt_map
    by (rule sorted_wrt_mono_rel [OF _ sorted_wrt_upt]) (use u in \<open>simp add: word_less_nat_alt\<close>)
  show "sorted_wrt (<) ks" by (rule assms(3))
  have "p \<in> set (map word_of_nat [0..<?n]) \<longleftrightarrow> p \<in> dom (layout ps bs)" for p :: u64
  proof
    assume "p \<in> dom (layout ps bs)"
    then have "unat p \<in> {0..<?n}" by (auto simp: layout_def split: if_splits)
    then have "word_of_nat (unat p) \<in> set (map (word_of_nat :: nat \<Rightarrow> u64) [0..<?n])"
      by (simp only: set_map set_upt) (rule imageI)
    then show "p \<in> set (map word_of_nat [0..<?n])" by simp
  qed (use u in \<open>auto simp: layout_def\<close>)
  then show "set ks = set (map word_of_nat [0..<?n])" using assms(4) by blast
qed

lemma concat_layout:
  assumes "0 < ps" "length bs \<le> isize_max" "sorted_wrt (<) ks" "set ks = dom (layout ps bs)"
  shows "concat (map (\<lambda>k. the (layout ps bs k)) ks) = bs"
proof -
  let ?n = "length (chunks ps bs)"
  have n: "?n < 2 ^ 64" by (rule chunk_count_lt [OF assms(1,2)])
  have "map (\<lambda>k. the (layout ps bs k)) ks = map (nth (chunks ps bs)) [0..<?n]"
    unfolding layout_keys [OF assms] map_map
  proof (rule map_cong [OF refl])
    fix i
    assume "i \<in> set [0..<?n]"
    then have "unat (word_of_nat i :: u64) = i" "i < ?n" using n by (simp_all add: unat_of_nat_u64)
    then show "((\<lambda>k. the (layout ps bs k)) \<circ> word_of_nat) i = chunks ps bs ! i" by (simp add: layout_def)
  qed
  then show ?thesis using assms(1) by (simp add: map_nth)
qed

lemma hydrate_pages_total:
  assumes law: "store_law P I view chg" and up: "store_serves P I view"
    and ps: "0 < ps" and len: "length bs \<le> isize_max" and v: "view m = layout ps bs"
  shows "i \<le> length (chunks ps bs) \<Longrightarrow> I x \<Longrightarrow> pst_head P x = m \<Longrightarrow>
    \<exists>x'. hydrate_pages P ps m (map word_of_nat [i..<length (chunks ps bs)]) (take (i * ps) bs) x = (Inr bs, x')"
proof (induction "length (chunks ps bs) - i" arbitrary: i x)
  case 0
  then have i: "i = length (chunks ps bs)" by simp
  have "\<not> i * ps < length bs" using chunks_nth_offset_lt [OF ps, of i bs] i by simp
  then show ?case using i by simp
next
  case (Suc k)
  let ?n = "length (chunks ps bs)"
  have i: "i < ?n" using Suc.hyps(2) by simp
  have n: "?n < 2 ^ 64" by (rule chunk_count_lt [OF ps len])
  have u: "unat (word_of_nat i :: u64) = i" using i n by (intro unat_of_nat_u64) simp
  have off: "i * ps < length bs" using chunks_nth_offset_lt [OF ps, of i bs] i by simp
  then have m: "unat (word_of_nat i :: u64) * ps mod 2 ^ 64 = length (take (i * ps) bs)"
    using len by (simp add: u isize_max_def)
  have vi: "view m (word_of_nat i) = Some (take ps (drop (i * ps) bs))"
    using i u by (simp add: v layout_def nth_chunks [OF ps i])
  obtain r x1 where rd: "pst_read P x m (word_of_nat i) = (r, x1)" by fastforce
  have "\<not> isl (fst (pst_read P x m (word_of_nat i)))"
    using up Suc.prems(2,3) vi unfolding store_serves_def by blast
  then obtain b where b: "r = Inr b" by (cases r) (auto simp: rd)
  note lr = store_lawD(3) [OF law Suc.prems(2) rd]
  have "b = take ps (drop (i * ps) bs)" using lr b vi by simp
  moreover have "Suc i * ps = i * ps + ps" by simp
  ultimately have "take (i * ps) bs @ b = take (Suc i * ps) bs" by (simp only: take_add)
  moreover have "I x1" "pst_head P x1 = m" using lr Suc.prems(3) by (simp_all add: store_frame_def)
  moreover have "k = ?n - Suc i" using Suc.hyps(2) by simp
  ultimately obtain x' where
    "hydrate_pages P ps m (map word_of_nat [Suc i..<?n]) (take (i * ps) bs @ b) x1 = (Inr bs, x')"
    using Suc.hyps(1) [of "Suc i" x1] i by auto
  with i m rd b show ?case by (simp add: upt_conv_Cons)
qed

lemma hydrate_total:
  assumes law: "store_law P I view chg" and up: "store_serves P I view" and I: "I x" "pst_head P x = m"
    and len: "length bs \<le> isize_max" and v: "view m = layout (pst_page_size P x) bs"
    and fs: "fs_quiet f" "path \<noteq> []" "is_dir f (butlast path)" "\<not> is_dir f path"
  shows "\<exists>x' f'. hydrate P x m path f = (Inr (), x', f')"
proof -
  let ?ps = "pst_page_size P x"
  have ps: "0 < ?ps" by (rule store_lawD(1) [OF law I(1)])
  obtain r x1 where rs: "pst_resolve P x m = (r, x1)" by fastforce
  have "\<not> isl (fst (pst_resolve P x m))" using up I unfolding store_serves_def by blast
  then obtain l where l: "r = Inr l" by (cases r) (auto simp: rs)
  note lr = store_lawD(2) [OF law I(1) rs]
  have "map fst l = map word_of_nat [0..<length (chunks ?ps bs)]"
    using lr l by (intro layout_keys [OF ps len]) (simp_all add: bt_ok_def v)
  moreover have "I x1" "pst_head P x1 = m" using lr I(2) by (simp_all add: store_frame_def)
  ultimately obtain x2 where hp: "hydrate_pages P ?ps m (map fst l) [] x1 = (Inr bs, x2)"
    using hydrate_pages_total [OF law up ps len v, of 0 x1] by auto
  show ?thesis
  proof (cases "bs = []")
    case True
    have "fst (fs_remove_file f path) = Inr () \<or> fst (fs_remove_file f path) = Inl IoNotFound"
    proof (cases "fs_lookup f path")
      case None
      then show ?thesis using fs(1) by (simp add: fs_remove_file_def fs_call_quiet)
    next
      case (Some n)
      then show ?thesis using fs(1,4)
        by (cases n) (simp_all add: fs_remove_file_def fs_call_quiet is_dir_def)
    qed
    moreover obtain e f1 where "fs_remove_file f path = (e, f1)" by fastforce
    ultimately show ?thesis using rs l hp True
      by (elim disjE) (simp_all add: hydrate_def Let_def)
  next
    case False
    have "fst (fs_write f path bs) = Inr ()" using fs by (simp add: fs_write_def fs_call_quiet)
    then show ?thesis using rs l hp False
      by (cases "fs_write f path bs") (auto simp: hydrate_def Let_def)
  qed
qed

subsection \<open>The guarantees of paging\<close>

text \<open>A store with one committed database of five bytes on pages of four, for the concrete instances.\<close>

definition demo_view :: "manifest_id \<Rightarrow> page_map" where
  "demo_view m = (if m = ManifestId [1] then [0 \<mapsto> [1, 2, 3, 4], 1 \<mapsto> [5]] else Map.empty)"

definition demo_pst :: "(manifest_id, (page_no \<times> bytes option) list) page_store" where
  "demo_pst =
     \<lparr>pst_page_size = (\<lambda>_. 4), pst_head = (\<lambda>x. x),
      pst_resolve = (\<lambda>x m. (if m = ManifestId [1] then Inr [(0, PageId [0]), (1, PageId [1])]
        else if m = ManifestId [] then Inr [] else Inl ''unknown manifest'', x)),
      pst_read = (\<lambda>x m p. (case demo_view m p of None \<Rightarrow> Inl ''no such page'' | Some b \<Rightarrow> Inr b, x)),
      pst_begin = (\<lambda>x. (Inr [], x)),
      pst_write = (\<lambda>x t p b. (Inr ((p, Some b) # t), x)),
      pst_remove = (\<lambda>x t p. (Inr ((p, None) # t), x)),
      pst_commit = (\<lambda>x t. if t = [] then (Inr x, x)
        else if x = ManifestId [] \<and> t = [(1, Some [5]), (0, Some [1, 2, 3, 4])]
        then (Inr (ManifestId [1]), ManifestId [1]) else (Inl ''full'', x))\<rparr>"

lemma demo_pst_law: "store_law demo_pst (\<lambda>_. True) demo_view map_of"
  unfolding store_law_def
  by (intro allI impI conjI)
    (auto simp: demo_pst_def store_frame_def demo_view_def bt_ok_def apply_changes_def fun_eq_iff
      image_iff split: option.splits if_splits)

text \<open>It stands on one of the two manifests it knows, and answers for those.\<close>

definition demo_known :: "manifest_id \<Rightarrow> bool" where
  "demo_known m \<longleftrightarrow> m = ManifestId [] \<or> m = ManifestId [1]"

lemma demo_pst_known: "store_law demo_pst demo_known demo_view map_of"
  unfolding store_law_def
  by (intro allI impI conjI)
    (auto simp: demo_pst_def demo_known_def store_frame_def demo_view_def bt_ok_def apply_changes_def fun_eq_iff
      image_iff split: option.splits if_splits)

lemma demo_pst_serves: "store_serves demo_pst demo_known demo_view"
  by (auto simp: store_serves_def demo_pst_def demo_known_def split: option.splits)

lemma demo_layout: "demo_view (ManifestId [1]) = layout 4 [1, 2, 3, 4, 5]"
proof
  fix p :: page_no
  have "p = 0 \<longleftrightarrow> unat p = 0" "p = 1 \<longleftrightarrow> unat p = 1" by (simp_all add: u64_eq_iff)
  then show "demo_view (ManifestId [1]) p = layout 4 [1, 2, 3, 4, 5] p"
    by (auto simp: layout_def demo_view_def chunks.simps less_2_cases_iff)
qed

definition demo_fs :: fs where
  "demo_fs = \<lparr>fs_tree = [([''db''], FileNode [1, 2, 3, 4, 5])], fs_faults = (\<lambda>_. None), fs_calls = 0,
     fs_done = (\<lambda>_. None), fs_gone = (\<lambda>_ _. False)\<rparr>"

lemma demo_persist: "persist demo_pst (ManifestId []) [''db''] demo_fs =
  (Ok (ManifestId [1]), ManifestId [1], demo_fs\<lparr>fs_calls := 1\<rparr>)"
  by (simp add: persist_def Let_def fs_read_def fs_call_def fs_call_in_parts_def demo_fs_def fs_lookup_def stage_file_def
      demo_pst_def chunks.simps)

text \<open>C6: a checkpoint loses nothing. Persisting a file and hydrating the manifest it returns, to any
  free path, gives back the file byte for byte, whatever was at that path and whatever pages the
  head had before; an empty database gives back no file at all.\<close>

theorem checkpoint_roundtrip:
  assumes "store_law P I view chg" "store_serves P I view" "I x"
    and "fs_lookup f path = Some (FileNode bs)" "length bs \<le> isize_max" "fs_quiet f"
    and "persist P x path f = (Ok m, x1, f1)"
    and "target \<noteq> []" "is_dir f (butlast target)" "\<not> is_dir f target"
  shows "\<exists>x2 f2. hydrate P x1 m target f1 = (Inr (), x2, f2) \<and>
    fs_lookup f2 target = (if bs = [] then None else Some (FileNode bs))"
proof -
  note p = persist_Ok [OF assms(1,3,7,4,5)]
  have v: "view m = layout (pst_page_size P x1) bs" and I1: "I x1" "pst_head P x1 = m" using p by simp_all
  have ps: "0 < pst_page_size P x1" by (rule store_lawD(1) [OF assms(1) I1(1)])
  have "fs_quiet f1" "is_dir f1 (butlast target)" "\<not> is_dir f1 target"
    using p assms(6,9,10) by (simp_all add: fs_quiet_def is_dir_def)
  from hydrate_total [OF assms(1,2) I1 assms(5) v this(1) assms(8) this(2,3)] obtain x2 f2 where
    h: "hydrate P x1 m target f1 = (Inr (), x2, f2)" by blast
  from hydrate_Inr [OF assms(1) I1(1) assms(8) h] obtain ks where
    ks: "sorted_wrt (<) ks" "set ks = dom (view m)"
    and eff: "\<forall>q. fs_lookup f2 q = (if q = target then
        (if concat (map (\<lambda>k. the (view m k)) ks) = [] then None
         else Some (FileNode (concat (map (\<lambda>k. the (view m k)) ks)))) else fs_lookup f1 q)"
    by (auto simp: Let_def)
  have "concat (map (\<lambda>k. the (view m k)) ks) = bs"
    unfolding v by (rule concat_layout [OF ps assms(5) ks [unfolded v]])
  with eff h show ?thesis by auto
qed

lemma checkpoint_roundtrip_witness:
  "\<exists>x2 f2. hydrate demo_pst (ManifestId [1]) (ManifestId [1]) [''copy''] (demo_fs\<lparr>fs_calls := 1\<rparr>) = (Inr (), x2, f2) \<and>
    fs_lookup f2 [''copy''] = Some (FileNode [1, 2, 3, 4, 5])"
  using checkpoint_roundtrip [OF demo_pst_known demo_pst_serves, of "ManifestId []" demo_fs "[''db'']" "[1, 2, 3, 4, 5]"
      "ManifestId [1]" "ManifestId [1]" "demo_fs\<lparr>fs_calls := 1\<rparr>" "[''copy'']"] demo_persist
  by (simp add: demo_known_def demo_fs_def fs_lookup_def isize_max_def fs_quiet_def is_dir_def)

text \<open>C36: only what changed enters a commit. Staging a file against a head stages exactly the
  difference: every page whose bytes differ from the file's layout, with the file's bytes, or as a
  removal past the file's end, and no other page.\<close>

theorem checkpoint_stages_difference:
  assumes "store_law P I view chg" "I x" "0 < ps" "length bs \<le> isize_max"
    and "stage_file P ps head bs x = (Inr t, x')"
  shows "chg t p = (if view head p = layout ps bs p then None else Some (layout ps bs p)) \<and>
    pst_head P x' = pst_head P x"
  using stage_file_delta [OF assms] by (simp add: file_delta_def store_frame_def)

lemma checkpoint_stages_difference_witness:
  "\<exists>t x'. stage_file demo_pst 4 (ManifestId [1]) [1, 2, 3, 4] (ManifestId [1]) = (Inr t, x') \<and>
     map_of t 0 = None \<and> map_of t 1 = Some None"
proof -
  obtain t x' where s: "stage_file demo_pst 4 (ManifestId [1]) [1, 2, 3, 4] (ManifestId [1]) = (Inr t, x')"
    by (simp add: stage_file_def demo_pst_def demo_view_def chunks.simps word_le_nat_alt)
  have "length [1, 2, 3, 4 :: u8] \<le> isize_max" by (simp add: isize_max_def)
  from checkpoint_stages_difference [OF demo_pst_law TrueI _ this s, of 0]
    checkpoint_stages_difference [OF demo_pst_law TrueI _ this s, of 1]
  show ?thesis using s by (simp add: demo_view_def layout_def chunks.simps)
qed

text \<open>A checkpoint of an unmodified database is free: when the file is what the head describes,
  \<open>persist\<close> returns the head itself, not a new manifest.\<close>

theorem checkpoint_unmodified_keeps_head:
  assumes "store_law P I view chg" "I x" "fs_lookup f path = Some (FileNode bs)" "length bs \<le> isize_max"
    and "view (pst_head P x) = layout (pst_page_size P x) bs"
    and "persist P x path f = (Ok m, x', f')"
  shows "m = pst_head P x \<and> pst_head P x' = pst_head P x"
  using persist_Ok [OF assms(1,2,6,3,4)] assms(5) by simp

lemma checkpoint_unmodified_keeps_head_witness:
  "\<exists>x' f'. persist demo_pst (ManifestId [1]) [''db''] demo_fs = (Ok (ManifestId [1]), x', f') \<and>
     pst_head demo_pst x' = ManifestId [1]"
proof -
  have run: "persist demo_pst (ManifestId [1]) [''db''] demo_fs =
      (Ok (ManifestId [1]), ManifestId [1], demo_fs\<lparr>fs_calls := 1\<rparr>)"
    by (simp add: persist_def Let_def fs_read_def fs_call_def fs_call_in_parts_def demo_fs_def fs_lookup_def stage_file_def
        demo_pst_def demo_view_def chunks.simps word_le_nat_alt)
  have content: "fs_lookup demo_fs [''db''] = Some (FileNode [1, 2, 3, 4, 5])"
    by (simp add: demo_fs_def fs_lookup_def)
  have "demo_view (pst_head demo_pst (ManifestId [1])) =
      layout (pst_page_size demo_pst (ManifestId [1])) [1, 2, 3, 4, 5]"
    using demo_layout by (simp add: demo_pst_def)
  from checkpoint_unmodified_keeps_head [OF demo_pst_law TrueI content _ this run] run
  show ?thesis by (simp add: isize_max_def)
qed

text \<open>A hydrated file has no hole. When \<open>hydrate\<close> succeeds on a manifest whose page numbers do not
  overflow an offset, every page of the manifest lies in the file at its own offset,
  \<open>page_no * page_size\<close>, and no other file was touched.\<close>

theorem hydrate_places_pages:
  assumes "store_law P I view chg" "I x" "path \<noteq> []" "hydrate P x m path f = (Inr (), x', f')"
    and "view m p = Some page" "page \<noteq> []" "\<forall>q \<in> dom (view m). unat q * pst_page_size P x < 2 ^ 64"
  shows "\<exists>bs. fs_lookup f' path = Some (FileNode bs) \<and>
    take (length page) (drop (unat p * pst_page_size P x) bs) = page \<and>
    fs_lookup f' (path @ [c]) = fs_lookup f (path @ [c])"
proof -
  let ?pg = "\<lambda>k. the (view m k)"
  from hydrate_Inr [OF assms(1-4)] obtain ks where ks: "set ks = dom (view m)"
    and eff: "\<forall>q. fs_lookup f' q = (if q = path then
        (if concat (map ?pg ks) = [] then None else Some (FileNode (concat (map ?pg ks)))) else fs_lookup f q)"
    and off: "\<forall>i < length ks. unat (ks ! i) * pst_page_size P x mod 2 ^ 64 = length (concat (map ?pg (take i ks)))"
    by (auto simp: Let_def)
  have "p \<in> set ks" using ks assms(5) by auto
  then obtain i where i: "i < length ks" "ks ! i = p" by (meson in_set_conv_nth)
  have at: "unat p * pst_page_size P x = length (concat (map ?pg (take i ks)))"
    using off i assms(5,7) by (metis domI mod_less)
  have "map ?pg ks = map ?pg (take i ks) @ page # map ?pg (drop (Suc i) ks)"
    by (subst id_take_nth_drop [OF i(1)]) (simp add: i(2) assms(5))
  then have "concat (map ?pg ks) = concat (map ?pg (take i ks)) @ page @ concat (map ?pg (drop (Suc i) ks))"
    by simp
  then have "take (length page) (drop (unat p * pst_page_size P x) (concat (map ?pg ks))) = page"
    "concat (map ?pg ks) \<noteq> []"
    using at assms(6) by simp_all
  with eff show ?thesis by (intro exI [of _ "concat (map ?pg ks)"]) simp
qed

lemma hydrate_places_pages_witness:
  "\<exists>bs x' f'. hydrate demo_pst (ManifestId []) (ManifestId [1]) [''copy''] demo_fs = (Inr (), x', f') \<and>
    fs_lookup f' [''copy''] = Some (FileNode bs) \<and> take 1 (drop 4 bs) = [5]"
proof -
  obtain x' f' where h: "hydrate demo_pst (ManifestId []) (ManifestId [1]) [''copy''] demo_fs = (Inr (), x', f')"
    by (simp add: hydrate_def demo_pst_def demo_view_def fs_write_def fs_call_def fs_call_in_parts_def demo_fs_def is_dir_def
        fs_lookup_def Let_def)
  have "demo_view (ManifestId [1]) 1 = Some [5]" by (simp add: demo_view_def)
  moreover have "\<forall>q \<in> dom (demo_view (ManifestId [1])). unat q * pst_page_size demo_pst (ManifestId []) < 2 ^ 64"
    by (auto simp: demo_view_def demo_pst_def split: if_splits)
  ultimately obtain bs where "fs_lookup f' [''copy''] = Some (FileNode bs)" "take 1 (drop 4 bs) = [5]"
    using hydrate_places_pages [OF demo_pst_law TrueI _ h, of 1 "[5]" "''c''"]
    by (auto simp: demo_pst_def)
  with h show ?thesis by blast
qed

text \<open>
  The offset check computes \<open>page_no as usize * page_size\<close>, which wraps: with pages of 4096 bytes a
  manifest whose only page is number \<open>2 ^ 52\<close> passes the check meant to refuse holes, and its page
  becomes the start of the file.
\<close>

lemma wrapped_page_accepted:
  "pst_read P x m (2 ^ 52) = (Inr b, x') \<Longrightarrow> hydrate_pages P 4096 m [2 ^ 52] [] x = (Inr b, x')"
  by (simp add: Let_def)

end
