(* ===== verification/Kernel_Duck.thy ===== *)
theory Kernel_Duck
  imports Kernel_Paging
begin

section \<open>The DuckDB kernel\<close>

text \<open>
  \<open>crates/flock-kernel/src/duck.rs\<close>, \<open>stream.rs\<close> and the trait of \<open>lib.rs\<close>: a kernel is a DuckDB
  connection over a scratch file hydrated from a page store. DuckDB and the temporary directories
  are third-party code and parameters (\<open>duck_ops\<close>); DuckDB may change any file, so its calls take
  and return the file system. The page store is shared with the kernel's owner: its state is passed
  in and returned. Statements and catalog names are strings; quoting is modelled with the part of
  SQL's lexer it must survive, as the reference definition \<open>lex_quoted\<close>. The texts of the errors are
  shortened to the part that carries a value.
\<close>

subsection \<open>Quoting\<close>

definition replace_char :: "char \<Rightarrow> string \<Rightarrow> string \<Rightarrow> string" where
  "replace_char c r s = concat (map (\<lambda>x. if x = c then r else [x]) s)"

definition sql_string_literal :: "string \<Rightarrow> string" where
  "sql_string_literal s = [CHR 0x27] @ replace_char (CHR 0x27) [CHR 0x27, CHR 0x27] s @ [CHR 0x27]"

definition sql_identifier :: "string \<Rightarrow> string" where
  "sql_identifier s = [CHR 0x22] @ replace_char (CHR 0x22) [CHR 0x22, CHR 0x22] s @ [CHR 0x22]"

text \<open>
  How SQL reads a quoted token, after its opening quote: a doubled quote is one quote, a single one
  ends the token. The token's value and the rest of the statement; \<open>None\<close> when it never ends.
\<close>

fun lex_quoted :: "char \<Rightarrow> string \<Rightarrow> (string \<times> string) option" where
  "lex_quoted q [] = None"
| "lex_quoted q (c # cs) =
     (if c \<noteq> q then map_option (\<lambda>(v, rest). (c # v, rest)) (lex_quoted q cs)
      else
        (case cs of
           d # ds \<Rightarrow> if d = q then map_option (\<lambda>(v, rest). (q # v, rest)) (lex_quoted q ds) else Some ([], cs)
         | [] \<Rightarrow> Some ([], [])))"

lemma lex_quoted_replace:
  "rest = [] \<or> hd rest \<noteq> q \<Longrightarrow> lex_quoted q (replace_char q [q, q] s @ q # rest) = Some (s, rest)"
proof (induction s)
  case Nil
  then show ?case by (cases rest) (simp_all add: replace_char_def)
next
  case (Cons c s)
  then show ?case by (simp add: replace_char_def)
qed

subsection \<open>Results of a query\<close>

record ('h, 'b) arrow_stream =
  as_schema :: 'h
  as_batches :: "'b list"

definition stream_new :: "'h \<Rightarrow> 'b list \<Rightarrow> ('h, 'b) arrow_stream" where
  "stream_new schema batches = \<lparr>as_schema = schema, as_batches = batches\<rparr>"

definition num_rows :: "('b \<Rightarrow> nat) \<Rightarrow> ('h, 'b) arrow_stream \<Rightarrow> nat" where
  "num_rows rows s = sum_list (map rows (as_batches s))"

definition stream_is_empty :: "('b \<Rightarrow> nat) \<Rightarrow> ('h, 'b) arrow_stream \<Rightarrow> bool" where
  "stream_is_empty rows s = (num_rows rows s = 0)"

subsection \<open>The kernel\<close>

record ('c, 'h, 'b) duck_ops =
  duck_temp_dir :: "fs \<Rightarrow> (io_error + path) \<times> fs"
  duck_threads :: "int \<Rightarrow> string option"
  duck_max_memory :: "string \<Rightarrow> string option"
  duck_open :: "path \<Rightarrow> int option \<Rightarrow> string option \<Rightarrow> fs \<Rightarrow> (string + 'c) \<times> fs"
  duck_prepare :: "'c \<Rightarrow> string \<Rightarrow> string + unit"
  duck_query :: "'c \<Rightarrow> string \<Rightarrow> fs \<Rightarrow> (string + 'h \<times> 'b list) \<times> 'c \<times> fs"
  duck_execute :: "'c \<Rightarrow> string \<Rightarrow> fs \<Rightarrow> (string + nat) \<times> 'c \<times> fs"
  duck_batch :: "'c \<Rightarrow> string \<Rightarrow> fs \<Rightarrow> (string + unit) \<times> 'c \<times> fs"
  duck_current_db :: "'c \<Rightarrow> string + string"

record kernel_opts =
  ko_threads :: "int option"
  ko_max_memory :: "string option"

definition opts_default :: kernel_opts where
  "opts_default = \<lparr>ko_threads = None, ko_max_memory = None\<rparr>"

definition opts_threads :: "kernel_opts \<Rightarrow> int \<Rightarrow> kernel_opts" where
  "opts_threads opts n = opts\<lparr>ko_threads := Some n\<rparr>"

definition opts_max_memory :: "kernel_opts \<Rightarrow> string \<Rightarrow> kernel_opts" where
  "opts_max_memory opts limit = opts\<lparr>ko_max_memory := Some limit\<rparr>"

record 'c kernel =
  k_conn :: 'c
  k_path :: path
  k_scratch :: path

definition SCRATCH_FILE :: string where
  "SCRATCH_FILE = ''flock.duckdb''"

text \<open>
  A scratch directory is deleted when its owner goes: with the kernel, or when \<open>open\<close> fails after
  making it. A failure to delete it is ignored.
\<close>

definition drop_scratch :: "path \<Rightarrow> fs \<Rightarrow> fs" where
  "drop_scratch dir f = snd (fs_remove_dir_all f dir)"

definition kernel_open :: "('c, 'h, 'b) duck_ops \<Rightarrow> ('x, 't) page_store \<Rightarrow> 'x \<Rightarrow> kernel_opts \<Rightarrow> fs \<Rightarrow>
    (kernel_error + 'c kernel) \<times> 'x \<times> fs" where
  "kernel_open D P x opts f =
     (case duck_temp_dir D f of
        (Inl e, f1) \<Rightarrow> (Inl (KScratch ''create scratch dir'' [''$TMPDIR''] e), x, f1)
      | (Inr dir, f1) \<Rightarrow>
          (let path = join dir SCRATCH_FILE
           in case hydrate P x (pst_head P x) path f1 of
                (Inl e, x1, f2) \<Rightarrow> (Inl e, x1, drop_scratch dir f2)
              | (Inr _, x1, f2) \<Rightarrow>
                  (case Option.bind (ko_threads opts) (duck_threads D) of
                     Some e \<Rightarrow> (Inl (KOpen path e), x1, drop_scratch dir f2)
                   | None \<Rightarrow>
                       (case Option.bind (ko_max_memory opts) (duck_max_memory D) of
                          Some e \<Rightarrow> (Inl (KOpen path e), x1, drop_scratch dir f2)
                        | None \<Rightarrow>
                            (case duck_open D path (ko_threads opts) (ko_max_memory opts) f2 of
                               (Inl e, f3) \<Rightarrow> (Inl (KOpen path e), x1, drop_scratch dir f3)
                             | (Inr c, f3) \<Rightarrow>
                                 (Inr \<lparr>k_conn = c, k_path = path, k_scratch = dir\<rparr>, x1, f3))))))"

definition kernel_batch :: "('c, 'h, 'b) duck_ops \<Rightarrow> 'c kernel \<Rightarrow> string \<Rightarrow> fs \<Rightarrow>
    (kernel_error + unit) \<times> 'c kernel \<times> fs" where
  "kernel_batch D k sql f =
     (case duck_batch D (k_conn k) sql f of (r, c, f') \<Rightarrow> (map_err (KSql sql) r, k\<lparr>k_conn := c\<rparr>, f'))"

definition kernel_query :: "('c, 'h, 'b) duck_ops \<Rightarrow> 'c kernel \<Rightarrow> string \<Rightarrow> fs \<Rightarrow>
    (kernel_error + ('h, 'b) arrow_stream) \<times> 'c kernel \<times> fs" where
  "kernel_query D k sql f =
     (case duck_prepare D (k_conn k) sql of
        Inl e \<Rightarrow> (Inl (KSql sql e), k, f)
      | Inr _ \<Rightarrow>
          (case duck_query D (k_conn k) sql f of
             (Inl e, c, f') \<Rightarrow> (Inl (KSql sql e), k\<lparr>k_conn := c\<rparr>, f')
           | (Inr (schema, batches), c, f') \<Rightarrow> (Inr (stream_new schema batches), k\<lparr>k_conn := c\<rparr>, f')))"

definition kernel_execute :: "('c, 'h, 'b) duck_ops \<Rightarrow> 'c kernel \<Rightarrow> string \<Rightarrow> fs \<Rightarrow>
    (kernel_error + u64) \<times> 'c kernel \<times> fs" where
  "kernel_execute D k sql f =
     (case duck_execute D (k_conn k) sql f of
        (r, c, f') \<Rightarrow> (map_err (KSql sql) (map_sum id word_of_nat r), k\<lparr>k_conn := c\<rparr>, f'))"

text \<open>\<open>with_extension\<close>: the name up to its last dot, unless that dot is its first character.\<close>

definition file_stem :: "string \<Rightarrow> string" where
  "file_stem name =
     (let before = rev (dropWhile (\<lambda>c. c \<noteq> CHR ''.'') (rev name))
      in if length before \<le> 1 then name else butlast before)"

definition with_extension :: "path \<Rightarrow> string \<Rightarrow> path" where
  "with_extension p ext =
     (case file_name p of
        None \<Rightarrow> p
      | Some name \<Rightarrow> butlast p @ [file_stem name @ (if ext = [] then [] else ''.'' @ ext)])"

definition wal_path :: "path \<Rightarrow> path" where
  "wal_path p = with_extension p ''duckdb.wal''"

definition fold_wal :: "('c, 'h, 'b) duck_ops \<Rightarrow> 'c kernel \<Rightarrow> fs \<Rightarrow>
    (kernel_error + unit) \<times> 'c kernel \<times> fs" where
  "fold_wal D k f =
     (case kernel_batch D k ''CHECKPOINT'' f of
        (Inl e, k', f') \<Rightarrow> (Inl e, k', f')
      | (Inr _, k', f') \<Rightarrow>
          (let wal = wal_path (k_path k')
           in case fs_metadata_len f' wal of
                (Inl IoNotFound, f'') \<Rightarrow> (Inr (), k', f'')
              | (Inl e, f'') \<Rightarrow> (Inl (KScratch ''stat DuckDB's WAL after CHECKPOINT'' wal e), k', f'')
              | (Inr n, f'') \<Rightarrow>
                  if n = 0 then (Inr (), k', f'')
                  else (Inl (KScratch ''verify DuckDB's WAL is empty after CHECKPOINT'' wal
                    (IoOther (''DuckDB left '' @ dec n @ '' bytes''))), k', f'')))"

definition kernel_checkpoint :: "('c, 'h, 'b) duck_ops \<Rightarrow> ('x, 't) page_store \<Rightarrow> 'c kernel \<Rightarrow> 'x \<Rightarrow> fs \<Rightarrow>
    (kernel_error, manifest_id) outcome \<times> 'c kernel \<times> 'x \<times> fs" where
  "kernel_checkpoint D P k x f =
     (case fold_wal D k f of
        (Inl e, k', f') \<Rightarrow> (Err e, k', x, f')
      | (Inr _, k', f') \<Rightarrow> (case persist P x (k_path k') f' of (r, x', f'') \<Rightarrow> (r, k', x', f'')))"

definition export_script :: "path \<Rightarrow> string \<Rightarrow> string" where
  "export_script path source =
     ''ATTACH '' @ sql_string_literal (path_string path) @ '' AS flock_export (TYPE DUCKDB); '' @
     ''COPY FROM DATABASE '' @ sql_identifier source @ '' TO flock_export; '' @
     ''DETACH flock_export;''"

text \<open>The message of a \<open>Sql\<close> error, which an export's error quotes.\<close>

definition sql_error_text :: "string \<Rightarrow> string \<Rightarrow> string" where
  "sql_error_text sql e =
     ''SQL failed: '' @ e @ [CHR 0x0A] @ ''The statement was:'' @ [CHR 0x0A] @ ''  '' @ sql @ [CHR 0x0A] @
     ''If the object is missing, `SHOW TABLES` lists what this database actually contains.''"

definition kernel_current_database :: "('c, 'h, 'b) duck_ops \<Rightarrow> 'c kernel \<Rightarrow> kernel_error + string" where
  "kernel_current_database D k = map_err (KSql ''SELECT current_database()'') (duck_current_db D (k_conn k))"

definition kernel_export :: "('c, 'h, 'b) duck_ops \<Rightarrow> 'c kernel \<Rightarrow> path \<Rightarrow> fs \<Rightarrow>
    (kernel_error + unit) \<times> 'c kernel \<times> fs" where
  "kernel_export D k path f =
     (if path_exists f path then (Inl (KExport path ''a file already exists there''), k, f)
      else
        (case kernel_current_database D k of
           Inl e \<Rightarrow> (Inl e, k, f)
         | Inr source \<Rightarrow>
             (let sql = export_script path source
              in case duck_batch D (k_conn k) sql f of
                   (Inl e, c, f') \<Rightarrow>
                     (Inl (KExport path (''DuckDB refused to write it: '' @ sql_error_text sql e)), k\<lparr>k_conn := c\<rparr>, f')
                 | (Inr _, c, f') \<Rightarrow> (Inr (), k\<lparr>k_conn := c\<rparr>, f'))))"

definition kernel_drop :: "'c kernel \<Rightarrow> fs \<Rightarrow> fs" where
  "kernel_drop k f = drop_scratch (k_scratch k) f"

subsection \<open>The guarantees of the kernel\<close>

text \<open>Quoting cannot be broken out of. Whatever characters a path or a catalog name has, SQL's
  lexer reads the quoted text back as exactly that string and goes on with the statement right after
  it, for the string literal and for the identifier.\<close>

theorem quoting_roundtrip:
  assumes "rest \<noteq> [] \<longrightarrow> hd rest \<noteq> CHR 0x27 \<and> hd rest \<noteq> CHR 0x22"
  shows "lex_quoted (CHR 0x27) (tl (sql_string_literal s @ rest)) = Some (s, rest) \<and>
    lex_quoted (CHR 0x22) (tl (sql_identifier s @ rest)) = Some (s, rest)"
  using assms lex_quoted_replace [of rest _ s]
  by (auto simp: sql_string_literal_def sql_identifier_def)

lemma quoting_roundtrip_witness:
  "lex_quoted (CHR 0x27) (tl (sql_string_literal [CHR ''o'', CHR 0x27, CHR ''b''] @ '' AS x'')) =
     Some ([CHR ''o'', CHR 0x27, CHR ''b''], '' AS x'')"
  using quoting_roundtrip [of "'' AS x''"] by simp

lemma fold_wal_Inr:
  assumes "fold_wal D k f = (Inr u, k', f')"
  shows "\<exists>c f1. duck_batch D (k_conn k) ''CHECKPOINT'' f = (Inr (), c, f1) \<and> k' = k\<lparr>k_conn := c\<rparr> \<and>
    (\<forall>q. fs_lookup f' q = fs_lookup f1 q) \<and>
    (\<forall>w. fs_lookup f1 (wal_path (k_path k)) = Some (FileNode w) \<longrightarrow> w = [])"
proof -
  obtain r c f1 where b: "duck_batch D (k_conn k) ''CHECKPOINT'' f = (r, c, f1)"
    by (cases "duck_batch D (k_conn k) ''CHECKPOINT'' f") auto
  with assms have r: "r = Inr ()" by (cases r) (auto simp: fold_wal_def kernel_batch_def)
  obtain n f2 where m: "fs_metadata_len f1 (wal_path (k_path k)) = (n, f2)" by fastforce
  have "k' = k\<lparr>k_conn := c\<rparr> \<and> f' = f2 \<and> (n = Inl IoNotFound \<or> n = Inr 0)"
  proof (cases n)
    case (Inl e)
    with assms b r m show ?thesis by (cases e) (simp_all add: fold_wal_def kernel_batch_def Let_def)
  next
    case (Inr l)
    with assms b r m show ?thesis
      by (simp add: fold_wal_def kernel_batch_def Let_def split: if_splits)
  qed
  with b r fs_metadata_len_frame [OF m] show ?thesis by auto
qed

lemma kernel_checkpoint_Ok:
  assumes "store_law P I view chg" "I x" "kernel_checkpoint D P k x f = (Ok m, k', x', f')"
  shows "\<exists>c f1. duck_batch D (k_conn k) ''CHECKPOINT'' f = (Inr (), c, f1) \<and>
    (\<forall>w. fs_lookup f1 (wal_path (k_path k)) = Some (FileNode w) \<longrightarrow> w = []) \<and>
    (\<forall>bs. fs_lookup f1 (k_path k) = Some (FileNode bs) \<longrightarrow> length bs \<le> isize_max \<longrightarrow>
       view m = layout (pst_page_size P x) bs \<and> pst_head P x' = m)"
proof -
  obtain r k1 f2 where fw: "fold_wal D k f = (r, k1, f2)" by (cases "fold_wal D k f") auto
  with assms(3) obtain u where u: "r = Inr u" by (cases r) (auto simp: kernel_checkpoint_def)
  from fold_wal_Inr [OF fw [unfolded u]] obtain c f1 where
    b: "duck_batch D (k_conn k) ''CHECKPOINT'' f = (Inr (), c, f1)" "k1 = k\<lparr>k_conn := c\<rparr>"
      "\<forall>q. fs_lookup f2 q = fs_lookup f1 q"
      "\<forall>w. fs_lookup f1 (wal_path (k_path k)) = Some (FileNode w) \<longrightarrow> w = []" by blast
  have pers: "persist P x (k_path k) f2 = (Ok m, x', f')"
    using assms(3) fw u b(2) by (auto simp: kernel_checkpoint_def split: prod.splits)
  have "view m = layout (pst_page_size P x) bs \<and> pst_head P x' = m"
    if "fs_lookup f1 (k_path k) = Some (FileNode bs)" "length bs \<le> isize_max" for bs
    using persist_Ok [OF assms(1,2) pers _ that(2)] that(1) b(3) by simp
  with b(1,4) show ?thesis by blast
qed

text \<open>C20: a checkpoint commits the whole database or nothing. When \<open>checkpoint\<close> returns a manifest,
  DuckDB's own CHECKPOINT succeeded, it left no bytes in the write-ahead log beside the file, and the
  manifest's pages are exactly the file as DuckDB left it.\<close>

theorem checkpoint_is_whole_database:
  assumes "store_law P I view chg" "I x" "kernel_checkpoint D P k x f = (Ok m, k', x', f')"
  shows "\<exists>c f1. duck_batch D (k_conn k) ''CHECKPOINT'' f = (Inr (), c, f1) \<and>
    (\<forall>w. fs_lookup f1 (wal_path (k_path k)) = Some (FileNode w) \<longrightarrow> w = []) \<and>
    (\<forall>bs. fs_lookup f1 (k_path k) = Some (FileNode bs) \<longrightarrow> length bs \<le> isize_max \<longrightarrow>
       view m = layout (pst_page_size P x) bs \<and> pst_head P x' = m)"
  by (rule kernel_checkpoint_Ok [OF assms])

text \<open>A DuckDB that keeps the file it is given and has nothing in its log.\<close>

definition demo_duck :: "(unit, unit, unit) duck_ops" where
  "demo_duck =
     \<lparr>duck_temp_dir = (\<lambda>f. (Inr [''tmp''], fs_put f [''tmp''] DirNode)),
      duck_threads = (\<lambda>n. if n < 1 then Some ''at least one thread'' else None), duck_max_memory = (\<lambda>_. None),
      duck_open = (\<lambda>p t l f. (Inr (), f)), duck_prepare = (\<lambda>c s. Inr ()),
      duck_query = (\<lambda>c s f. (Inr ((), []), c, f)), duck_execute = (\<lambda>c s f. (Inr 0, c, f)),
      duck_batch = (\<lambda>c s f. (Inr (), c, f)), duck_current_db = (\<lambda>_. Inr ''flock'')\<rparr>"

lemma checkpoint_is_whole_database_witness:
  "\<exists>k' x' f'. kernel_checkpoint demo_duck demo_pst \<lparr>k_conn = (), k_path = [''db''], k_scratch = [''tmp'']\<rparr>
     (ManifestId []) demo_fs = (Ok (ManifestId [1]), k', x', f') \<and>
     demo_view (ManifestId [1]) = layout 4 [1, 2, 3, 4, 5]"
proof -
  let ?k = "\<lparr>k_conn = (), k_path = [''db''], k_scratch = [''tmp'']\<rparr>"
  obtain k' x' f' where run: "kernel_checkpoint demo_duck demo_pst ?k (ManifestId []) demo_fs =
      (Ok (ManifestId [1]), k', x', f')"
    by (simp add: kernel_checkpoint_def fold_wal_def kernel_batch_def demo_duck_def Let_def
        fs_metadata_len_def follow.simps fs_call_def fs_call_in_parts_def demo_fs_def fs_lookup_def wal_path_def with_extension_def
        file_name_def persist_def fs_read_def stage_file_def demo_pst_def chunks.simps)
  from checkpoint_is_whole_database [OF demo_pst_law TrueI run] run show ?thesis
    by (auto simp: demo_duck_def demo_fs_def fs_lookup_def isize_max_def demo_pst_def)
qed

lemma kernel_open_Inr:
  assumes "store_law P I view chg" "I x" "view (pst_head P x) = layout (pst_page_size P x) bs"
    and "length bs \<le> isize_max" "kernel_open D P x opts f = (Inr k, x', f')"
  shows "\<exists>f2. duck_open D (k_path k) (ko_threads opts) (ko_max_memory opts) f2 = (Inr (k_conn k), f') \<and>
    fs_lookup f2 (k_path k) = (if bs = [] then None else Some (FileNode bs)) \<and>
    store_frame P I x x'"
proof -
  obtain d f1 where t: "duck_temp_dir D f = (d, f1)" by fastforce
  with assms(5) obtain dir where dir: "d = Inr dir" by (cases d) (auto simp: kernel_open_def)
  define path where "path = join dir SCRATCH_FILE"
  have "path \<noteq> []" by (simp add: path_def join_plain SCRATCH_FILE_def)
  obtain h x1 f2 where hy: "hydrate P x (pst_head P x) path f1 = (h, x1, f2)"
    by (cases "hydrate P x (pst_head P x) path f1") auto
  with assms(5) t dir obtain u where u: "h = Inr u"
    by (cases h) (auto simp: kernel_open_def Let_def path_def)
  have k: "duck_open D path (ko_threads opts) (ko_max_memory opts) f2 = (Inr (k_conn k), f')"
    "k_path k = path" "x' = x1"
    using assms(5) t dir hy u
    by (auto simp: kernel_open_def Let_def path_def split: option.splits prod.splits sum.splits)
  have hy': "hydrate P x (pst_head P x) path f1 = (Inr (), x1, f2)" using hy u by simp
  from hydrate_Inr [OF assms(1,2) \<open>path \<noteq> []\<close> hy'] obtain ks where
    ks: "sorted_wrt (<) ks" "set ks = dom (view (pst_head P x))" "store_frame P I x x1"
    and eff: "\<forall>q. fs_lookup f2 q = (if q = path then
        (if concat (map (\<lambda>k. the (view (pst_head P x) k)) ks) = [] then None
         else Some (FileNode (concat (map (\<lambda>k. the (view (pst_head P x) k)) ks)))) else fs_lookup f1 q)"
    by (auto simp: Let_def)
  have "concat (map (\<lambda>k. the (view (pst_head P x) k)) ks) = bs"
    unfolding assms(3)
    by (rule concat_layout [OF store_lawD(1) [OF assms(1,2)] assms(4) ks(1,2) [unfolded assms(3)]])
  with eff k ks(3) show ?thesis by auto
qed

text \<open>A kernel opens on the head. When \<open>open\<close> succeeds, the file DuckDB was opened over is the
  file the store's head describes, or no file at all for a database that is still empty.\<close>

theorem kernel_opens_head:
  assumes "store_law P I view chg" "I x" "view (pst_head P x) = layout (pst_page_size P x) bs"
    and "length bs \<le> isize_max" "kernel_open D P x opts f = (Inr k, x', f')"
  shows "\<exists>f2. duck_open D (k_path k) (ko_threads opts) (ko_max_memory opts) f2 = (Inr (k_conn k), f') \<and>
    fs_lookup f2 (k_path k) = (if bs = [] then None else Some (FileNode bs)) \<and>
    store_frame P I x x'"
  by (rule kernel_open_Inr [OF assms])

definition demo_home :: fs where
  "demo_home = fs_put demo_fs [''tmp''] DirNode"

lemma demo_hydrate:
  "hydrate demo_pst (ManifestId [1]) (ManifestId [1]) [''tmp'', ''flock.duckdb''] demo_home =
     (Inr (), ManifestId [1], snd (fs_write demo_home [''tmp'', ''flock.duckdb''] [1, 2, 3, 4, 5]))"
  by (simp add: hydrate_def demo_pst_def demo_view_def fs_write_def fs_call_def fs_call_in_parts_def demo_fs_def is_dir_def
      fs_lookup_def fs_put_def demo_home_def Let_def)

lemma demo_open_at: "join [''tmp''] SCRATCH_FILE = [''tmp'', ''flock.duckdb'']"
  by (simp add: join_plain SCRATCH_FILE_def)

lemma kernel_opens_head_witness:
  "\<exists>k x' f'. kernel_open demo_duck demo_pst (ManifestId [1]) opts_default demo_fs = (Inr k, x', f') \<and>
     fs_lookup f' (k_path k) = Some (FileNode [1, 2, 3, 4, 5])"
proof -
  have head: "pst_head demo_pst (ManifestId [1]) = ManifestId [1]" by (simp add: demo_pst_def)
  obtain k x' f' where run: "kernel_open demo_duck demo_pst (ManifestId [1]) opts_default demo_fs = (Inr k, x', f')"
    using demo_hydrate
    by (simp add: kernel_open_def demo_duck_def Let_def opts_default_def head demo_open_at flip: demo_home_def)
  have v: "demo_view (pst_head demo_pst (ManifestId [1])) =
      layout (pst_page_size demo_pst (ManifestId [1])) [1, 2, 3, 4, 5]"
    using demo_layout by (simp add: demo_pst_def)
  have "length [1, 2, 3, 4, 5 :: u8] \<le> isize_max" by (simp add: isize_max_def)
  from kernel_opens_head [OF demo_pst_law TrueI v this run] run show ?thesis
    by (auto simp: demo_duck_def)
qed

end
