(* ===== verification/Kernel_Trait.thy ===== *)
theory Kernel_Trait
  imports Kernel_Duck
begin

section \<open>The kernel's trait\<close>

text \<open>
  \<open>SqlKernel\<close> of \<open>crates/flock-kernel/src/lib.rs\<close>: the five operations storage has on an SQL engine, as
  a record over the engine's state, and DuckDB's implementation of them. Its documentation promises
  that a checkpoint describes every byte of the database, and that it "returns the store's unchanged
  head when nothing changed, so calling it repeatedly does not litter the manifest DAG": the locale
  \<open>flushing_kernel\<close>, whose client is an owner that checkpoints again and again.
\<close>

record ('x, 't, 'k, 'a, 'b) sql_kernel =
  sk_open :: "('x, 't) page_store \<Rightarrow> 'x \<Rightarrow> kernel_opts \<Rightarrow> fs \<Rightarrow> (kernel_error + 'k) \<times> 'x \<times> fs"
  sk_query :: "'k \<Rightarrow> string \<Rightarrow> fs \<Rightarrow> (kernel_error + ('a, 'b) arrow_stream) \<times> 'k \<times> fs"
  sk_execute :: "'k \<Rightarrow> string \<Rightarrow> fs \<Rightarrow> (kernel_error + u64) \<times> 'k \<times> fs"
  sk_checkpoint :: "('x, 't) page_store \<Rightarrow> 'k \<Rightarrow> 'x \<Rightarrow> fs \<Rightarrow> (kernel_error, manifest_id) outcome \<times> 'k \<times> 'x \<times> fs"
  sk_export :: "'k \<Rightarrow> path \<Rightarrow> fs \<Rightarrow> (kernel_error + unit) \<times> 'k \<times> fs"

definition duckdb_kernel :: "('c, 'a, 'b) duck_ops \<Rightarrow> ('x, 't, 'c kernel, 'a, 'b) sql_kernel" where
  "duckdb_kernel D =
     \<lparr>sk_open = kernel_open D, sk_query = kernel_query D, sk_execute = kernel_execute D,
      sk_checkpoint = kernel_checkpoint D, sk_export = kernel_export D\<rparr>"

text \<open>An owner that checkpoints \<open>n\<close> times, up to the first failure: the manifests it was given.\<close>

fun checkpoints :: "('x, 't, 'k, 'a, 'b) sql_kernel \<Rightarrow> ('x, 't) page_store \<Rightarrow> nat \<Rightarrow> 'k \<Rightarrow> 'x \<Rightarrow> fs \<Rightarrow>
    manifest_id list \<times> 'k \<times> 'x \<times> fs" where
  "checkpoints K P 0 k x f = ([], k, x, f)"
| "checkpoints K P (Suc n) k x f =
     (case sk_checkpoint K P k x f of
        (Ok m, k1, x1, f1) \<Rightarrow> (case checkpoints K P n k1 x1 f1 of (ms, r) \<Rightarrow> (m # ms, r))
      | (_, k1, x1, f1) \<Rightarrow> ([], k1, x1, f1))"

subsection \<open>What an owner of a kernel relies on\<close>

text \<open>
  Good states (\<open>good\<close>), the database as the kernel's scratch state holds it (\<open>content\<close>), and the states
  in which the engine has nothing left to flush (\<open>settled\<close>).
\<close>

locale flushing_kernel =
  fixes K :: "('x, 't, 'k, 'a, 'b) sql_kernel" and P :: "('x, 't) page_store"
    and good :: "'k \<Rightarrow> 'x \<Rightarrow> fs \<Rightarrow> bool" and content :: "'k \<Rightarrow> fs \<Rightarrow> bytes option"
    and settled :: "'k \<Rightarrow> fs \<Rightarrow> bool" and view :: "manifest_id \<Rightarrow> page_map"
  assumes flushes: "good k x f \<Longrightarrow> sk_checkpoint K P k x f = (Ok m, k', x', f') \<Longrightarrow>
      content k' f' = Some bs \<Longrightarrow> length bs \<le> isize_max \<Longrightarrow>
      good k' x' f' \<and> settled k' f' \<and> pst_head P x' = m \<and> view m = layout (pst_page_size P x') bs"
    and idle: "good k x f \<Longrightarrow> settled k f \<Longrightarrow> sk_checkpoint K P k x f = (Ok m, k', x', f') \<Longrightarrow>
      content k f = Some bs \<Longrightarrow> length bs \<le> isize_max \<Longrightarrow>
      view (pst_head P x) = layout (pst_page_size P x) bs \<Longrightarrow> content k' f' = Some bs \<and> m = pst_head P x"
begin

lemma idle_again:
  assumes "good k x f" "settled k f" "content k f = Some bs" "length bs \<le> isize_max"
    and "view (pst_head P x) = layout (pst_page_size P x) bs"
    and "checkpoints K P n k x f = (ms, k', x', f')"
  shows "set ms \<subseteq> {pst_head P x} \<and> (length ms = n \<longrightarrow> pst_head P x' = pst_head P x \<and> content k' f' = Some bs)"
  using assms
proof (induction n arbitrary: k x f ms)
  case (Suc n)
  obtain r k1 x1 f1 where c: "sk_checkpoint K P k x f = (r, k1, x1, f1)"
    by (cases "sk_checkpoint K P k x f") auto
  show ?case
  proof (cases r)
    case (Ok m)
    note i = idle [OF Suc.prems(1,2) c [unfolded Ok] Suc.prems(3,4,5)]
    note g = flushes [OF Suc.prems(1) c [unfolded Ok] i [THEN conjunct1] Suc.prems(4)]
    obtain ms1 where run: "checkpoints K P n k1 x1 f1 = (ms1, k', x', f')" and ms: "ms = m # ms1"
      using Suc.prems(6) c Ok by (auto split: prod.splits)
    have "set ms1 \<subseteq> {pst_head P x1} \<and>
        (length ms1 = n \<longrightarrow> pst_head P x' = pst_head P x1 \<and> content k' f' = Some bs)"
      using Suc.IH [OF _ _ i [THEN conjunct1] Suc.prems(4) _ run] g by simp
    with i g ms show ?thesis by auto
  qed (use Suc.prems(6) c in auto)
qed simp

lemma flush_again:
  assumes "good k x f" "sk_checkpoint K P k x f = (Ok m, k1, x1, f1)" "content k1 f1 = Some bs"
    and "length bs \<le> isize_max" "checkpoints K P n k1 x1 f1 = (ms, k', x', f')"
  shows "set ms \<subseteq> {m} \<and> (length ms = n \<longrightarrow> pst_head P x' = m \<and> content k' f' = Some bs)"
  using flushes [OF assms(1-4)] idle_again [OF _ _ assms(3,4) _ assms(5)] by auto

end

subsection \<open>DuckDB keeps the promise\<close>

definition file_content :: "'c kernel \<Rightarrow> fs \<Rightarrow> bytes option" where
  "file_content k f = (case fs_lookup f (k_path k) of Some (FileNode bs) \<Rightarrow> Some bs | _ \<Rightarrow> None)"

text \<open>
  What is relied on of DuckDB: its CHECKPOINT leaves nothing to flush (a predicate \<open>S\<close> of the
  connection), and a CHECKPOINT with nothing to flush changes no file.
\<close>

definition duck_settles :: "('c, 'a, 'b) duck_ops \<Rightarrow> ('c \<Rightarrow> bool) \<Rightarrow> bool" where
  "duck_settles D S \<longleftrightarrow> (\<forall>c f c' f'. duck_batch D c ''CHECKPOINT'' f = (Inr (), c', f') \<longrightarrow>
     S c' \<and> (S c \<longrightarrow> (\<forall>q. fs_lookup f' q = fs_lookup f q)))"

lemma duck_settlesD:
  assumes "duck_settles D S" "duck_batch D c ''CHECKPOINT'' f = (Inr (), c', f')"
  shows "S c'" and "S c \<Longrightarrow> fs_lookup f' q = fs_lookup f q"
  using assms by (auto simp: duck_settles_def)

lemma kernel_checkpoint_steps:
  assumes "kernel_checkpoint D P k x f = (Ok m, k', x', f')"
  shows "\<exists>c f1 f2. duck_batch D (k_conn k) ''CHECKPOINT'' f = (Inr (), c, f1) \<and> k' = k\<lparr>k_conn := c\<rparr> \<and>
    (\<forall>q. fs_lookup f2 q = fs_lookup f1 q) \<and> persist P x (k_path k) f2 = (Ok m, x', f')"
proof -
  obtain r k1 f2 where fw: "fold_wal D k f = (r, k1, f2)" by (cases "fold_wal D k f") auto
  with assms obtain u where u: "r = Inr u" by (cases r) (auto simp: kernel_checkpoint_def)
  from fold_wal_Inr [OF fw [unfolded u]] obtain c f1 where
    b: "duck_batch D (k_conn k) ''CHECKPOINT'' f = (Inr (), c, f1)" "k1 = k\<lparr>k_conn := c\<rparr>"
      "\<forall>q. fs_lookup f2 q = fs_lookup f1 q" by blast
  moreover have "persist P x (k_path k) f2 = (Ok m, x', f')" "k' = k1"
    using assms fw u b(2) by (auto simp: kernel_checkpoint_def split: prod.splits)
  ultimately show ?thesis by blast
qed

lemma persist_content:
  assumes "persist P x path f = (Ok m, x', f')"
  shows "fs_lookup f' q = fs_lookup f q"
  using assms fs_read_frame [of f path]
  by (auto simp: persist_def Let_def split: prod.splits sum.splits if_splits)

interpretation duckdb: flushing_kernel "duckdb_kernel D" P
  "\<lambda>k x f. store_law P I view chg \<and> duck_settles D S \<and> I x" file_content "\<lambda>k f. S (k_conn k)" view
  for D P I view chg S
proof
  fix k x f m k' x' f' and bs :: bytes
  assume good: "store_law P I view chg \<and> duck_settles D S \<and> I x"
    and run: "sk_checkpoint (duckdb_kernel D) P k x f = (Ok m, k', x', f')"
    and len: "length bs \<le> isize_max"
  note law = good [THEN conjunct1] and ds = good [THEN conjunct2, THEN conjunct1] and I = good [THEN conjunct2, THEN conjunct2]
  obtain c f1 f2 where b: "duck_batch D (k_conn k) ''CHECKPOINT'' f = (Inr (), c, f1)" "k' = k\<lparr>k_conn := c\<rparr>"
      "\<forall>q. fs_lookup f2 q = fs_lookup f1 q" and p: "persist P x (k_path k) f2 = (Ok m, x', f')"
    using kernel_checkpoint_steps [of D P k x f m k' x' f'] run by (auto simp: duckdb_kernel_def)
  have same: "file_content k' f' = file_content k f2"
    by (simp add: file_content_def b(2) persist_content [OF p])
  {
    assume "file_content k' f' = Some bs"
    with same have "fs_lookup f2 (k_path k) = Some (FileNode bs)"
      by (auto simp: file_content_def split: option.splits node.splits)
    from persist_Ok [OF law I p this len]
    show "(store_law P I view chg \<and> duck_settles D S \<and> I x') \<and> S (k_conn k') \<and> pst_head P x' = m \<and>
        view m = layout (pst_page_size P x') bs"
      using duck_settlesD(1) [OF ds b(1)] law ds b(2) by simp
  next
    assume s: "S (k_conn k)" and c: "file_content k f = Some bs"
      and v: "view (pst_head P x) = layout (pst_page_size P x) bs"
    have e: "fs_lookup f2 q = fs_lookup f q" for q
      using b(3) duck_settlesD(2) [OF ds b(1) s] by simp
    then have "fs_lookup f2 (k_path k) = Some (FileNode bs)"
      using c by (auto simp: file_content_def split: option.splits node.splits)
    from persist_Ok [OF law I p this len] v
    show "file_content k' f' = Some bs \<and> m = pst_head P x"
      using same c e by (simp add: file_content_def)
  }
qed

text \<open>C21: checkpointing again changes nothing. After a checkpoint that returned \<open>m\<close>, however often
  \<open>checkpoint\<close> is called with nothing run in between, every manifest it returns is \<open>m\<close>; while the
  calls succeed the head stays \<open>m\<close> and DuckDB's file stays as it is.\<close>

theorem checkpoint_idempotent:
  assumes "store_law P I view chg" "I x" "duck_settles D S"
    and "kernel_checkpoint D P k x f = (Ok m, k1, x1, f1)"
    and "fs_lookup f1 (k_path k) = Some (FileNode bs)" "length bs \<le> isize_max"
    and "checkpoints (duckdb_kernel D) P n k1 x1 f1 = (ms, k', x', f')"
  shows "set ms \<subseteq> {m} \<and>
    (length ms = n \<longrightarrow> pst_head P x' = m \<and> fs_lookup f' (k_path k') = Some (FileNode bs))"
proof -
  have "k_path k1 = k_path k" using kernel_checkpoint_steps [OF assms(4)] by auto
  then have "file_content k1 f1 = Some bs" using assms(5) by (simp add: file_content_def)
  note content = this
  have good: "store_law P I view chg \<and> duck_settles D S \<and> I x" using assms(1-3) by simp
  have run: "sk_checkpoint (duckdb_kernel D) P k x f = (Ok m, k1, x1, f1)"
    using assms(4) by (simp add: duckdb_kernel_def)
  from duckdb.flush_again [OF good run content assms(6,7)] show ?thesis
    by (auto simp: file_content_def split: option.splits node.splits)
qed

lemma demo_duck_settles: "duck_settles demo_duck (\<lambda>_. True)"
  by (simp add: duck_settles_def demo_duck_def)

lemma demo_checkpoints_once:
  assumes "fs_tree f = fs_tree demo_fs" "fs_faults f = fs_faults demo_fs" "x \<in> {ManifestId [], ManifestId [1]}"
  shows "\<exists>f'. kernel_checkpoint demo_duck demo_pst \<lparr>k_conn = (), k_path = [''db''], k_scratch = [''tmp'']\<rparr> x f =
      (Ok (ManifestId [1]), \<lparr>k_conn = (), k_path = [''db''], k_scratch = [''tmp'']\<rparr>, ManifestId [1], f') \<and>
    fs_tree f' = fs_tree demo_fs \<and> fs_faults f' = fs_faults demo_fs"
  using assms
  by (auto simp: kernel_checkpoint_def fold_wal_def kernel_batch_def demo_duck_def Let_def
      fs_metadata_len_def follow.simps fs_call_def fs_call_in_parts_def demo_fs_def fs_lookup_def wal_path_def with_extension_def demo_view_def
      file_name_def persist_def fs_read_def stage_file_def demo_pst_def chunks.simps word_le_nat_alt)

lemma checkpoint_idempotent_witness:
  "\<exists>f1 k' x' f'. kernel_checkpoint demo_duck demo_pst \<lparr>k_conn = (), k_path = [''db''], k_scratch = [''tmp'']\<rparr>
      (ManifestId []) demo_fs =
      (Ok (ManifestId [1]), \<lparr>k_conn = (), k_path = [''db''], k_scratch = [''tmp'']\<rparr>, ManifestId [1], f1) \<and>
    checkpoints (duckdb_kernel demo_duck) demo_pst 2 \<lparr>k_conn = (), k_path = [''db''], k_scratch = [''tmp'']\<rparr>
      (ManifestId [1]) f1 = ([ManifestId [1], ManifestId [1]], k', x', f') \<and> pst_head demo_pst x' = ManifestId [1]"
proof -
  let ?k = "\<lparr>k_conn = (), k_path = [''db''], k_scratch = [''tmp'']\<rparr>"
  obtain f1 where
    f1: "kernel_checkpoint demo_duck demo_pst ?k (ManifestId []) demo_fs = (Ok (ManifestId [1]), ?k, ManifestId [1], f1)"
      "fs_tree f1 = fs_tree demo_fs" "fs_faults f1 = fs_faults demo_fs"
    using demo_checkpoints_once [of demo_fs "ManifestId []"] by auto
  obtain f2 where
    f2: "kernel_checkpoint demo_duck demo_pst ?k (ManifestId [1]) f1 = (Ok (ManifestId [1]), ?k, ManifestId [1], f2)"
      "fs_tree f2 = fs_tree demo_fs" "fs_faults f2 = fs_faults demo_fs"
    using demo_checkpoints_once [OF f1(2,3), of "ManifestId [1]"] by auto
  obtain f3 where
    f3: "kernel_checkpoint demo_duck demo_pst ?k (ManifestId [1]) f2 = (Ok (ManifestId [1]), ?k, ManifestId [1], f3)"
    using demo_checkpoints_once [OF f2(2,3), of "ManifestId [1]"] by auto
  have run: "checkpoints (duckdb_kernel demo_duck) demo_pst 2 ?k (ManifestId [1]) f1 =
      ([ManifestId [1], ManifestId [1]], ?k, ManifestId [1], f3)"
    by (simp add: numeral_2_eq_2 duckdb_kernel_def f2(1) f3)
  have content: "fs_lookup f1 (k_path ?k) = Some (FileNode [1, 2, 3, 4, 5])"
    using f1(2) by (simp add: fs_lookup_def demo_fs_def)
  have len: "length [1, 2, 3, 4, 5 :: u8] \<le> isize_max" by (simp add: isize_max_def)
  show ?thesis
    using checkpoint_idempotent [OF demo_pst_law TrueI demo_duck_settles f1(1) content len run] f1(1) run by auto
qed

end
