(* ===== verification/Core_Pool.thy ===== *)
theory Core_Pool
  imports Kernel_Duck
begin

section \<open>The pool: errors, names and directories\<close>

text \<open>
  \<open>crates/flock-core/src/error.rs\<close> and \<open>pool.rs\<close>: the error enum of the public interface, the check of
  database names, and the directory of a database, whose \<open>pages\<close> and \<open>manifests\<close> are symbolic links
  into the pool's one content-addressed store. A name is its UTF-8 bytes, so the characters outside
  ASCII that the check refuses are bytes it refuses here. The Unix branch of the code is the one
  modelled.
\<close>

datatype flock_error =
    FKernel kernel_error
  | FPager string pager_error
  | FWal string wal_error
  | BadName string string
  | NameTaken string path
  | UnknownSnapshot manifest_id
  | FPool string path io_error
  | FTier string store_error
  | FSync string sync_error
  | Unsupported string string

definition cas_dir :: "path \<Rightarrow> path" where
  "cas_dir root = join root ''cas''"

definition db_dir :: "path \<Rightarrow> string \<Rightarrow> path" where
  "db_dir root name = join (join root ''dbs'') name"

subsection \<open>Names\<close>

definition ascii_alphanumeric :: "char \<Rightarrow> bool" where
  "ascii_alphanumeric c \<longleftrightarrow>
     (CHR ''A'' \<le> c \<and> c \<le> CHR ''Z'') \<or> (CHR ''a'' \<le> c \<and> c \<le> CHR ''z'') \<or> (CHR ''0'' \<le> c \<and> c \<le> CHR ''9'')"

definition name_char :: "char \<Rightarrow> bool" where
  "name_char c \<longleftrightarrow> ascii_alphanumeric c \<or> c = CHR ''-'' \<or> c = CHR ''_'' \<or> c = CHR ''.''"

definition quoted :: "string \<Rightarrow> string" where
  "quoted s = [CHR 0x27] @ s @ [CHR 0x27]"

definition validate_name :: "string \<Rightarrow> flock_error + unit" where
  "validate_name name =
     (let bad = (\<lambda>reason. Inl (BadName name reason))
      in if name = [] then bad ''it is empty''
         else if name = ''.'' \<or> name = ''..'' then
           bad (quoted ''.'' @ '' and '' @ quoted ''..'' @ '' are directories that already mean something else'')
         else if CHR ''/'' \<in> set name \<or> CHR 0x5C \<in> set name then
           bad ''it contains a path separator, which would place the database outside its pool''
         else if CHR 0x00 \<in> set name then bad ''it contains a NUL byte''
         else if \<not> list_all name_char name then bad ''it contains characters outside [A-Za-z0-9._-]''
         else Inr ())"

subsection \<open>The directory of a database\<close>

fun create_shared :: "path \<Rightarrow> string list \<Rightarrow> fs \<Rightarrow> (flock_error + unit) \<times> fs" where
  "create_shared cas [] f = (Inr (), f)"
| "create_shared cas (sub # subs) f =
     (let target = join cas sub
      in case fs_create_dir_all f target of
           (Inl e, f') \<Rightarrow> (Inl (FPool ''create shared CAS'' target e), f')
         | (Inr _, f') \<Rightarrow> create_shared cas subs f')"

definition shared_target :: "string \<Rightarrow> path" where
  "shared_target sub = join (join (join [''..''] ''..'') ''cas'') sub"

fun link_shared :: "path \<Rightarrow> string list \<Rightarrow> fs \<Rightarrow> (flock_error + unit) \<times> fs" where
  "link_shared dir [] f = (Inr (), f)"
| "link_shared dir (sub # subs) f =
     (let link = join dir sub
      in case fs_symlink_metadata f link of
           (Inr _, f1) \<Rightarrow> link_shared dir subs f1
         | (Inl IoNotFound, f1) \<Rightarrow>
             (case fs_symlink f1 (shared_target sub) link of
                (Inl e, f2) \<Rightarrow> (Inl (FPool ''link database to the shared CAS'' link e), f2)
              | (Inr _, f2) \<Rightarrow> link_shared dir subs f2)
         | (Inl e, f1) \<Rightarrow> (Inl (FPool ''inspect database directory'' link e), f1))"

definition link_db_to_shared_cas :: "path \<Rightarrow> string \<Rightarrow> fs \<Rightarrow> (flock_error + path) \<times> fs" where
  "link_db_to_shared_cas root name f =
     (let cas = cas_dir root; dir = db_dir root name
      in case create_shared cas [''pages'', ''manifests''] f of
           (Inl e, f1) \<Rightarrow> (Inl e, f1)
         | (Inr _, f1) \<Rightarrow>
             (case fs_create_dir_all f1 dir of
                (Inl e, f2) \<Rightarrow> (Inl (FPool ''create database directory'' dir e), f2)
              | (Inr _, f2) \<Rightarrow>
                  (case link_shared dir [''pages'', ''manifests''] f2 of
                     (Inl e, f3) \<Rightarrow> (Inl e, f3)
                   | (Inr _, f3) \<Rightarrow> (Inr dir, f3))))"

text \<open>Where a symbolic link leads: its target read from the directory the link is in.\<close>

definition link_leads :: "fs \<Rightarrow> path \<Rightarrow> path option" where
  "link_leads f p =
     (case fs_lookup f p of Some (LinkNode t) \<Rightarrow> Some (walk (butlast p) t) | _ \<Rightarrow> None)"

subsection \<open>Names\<close>

lemma name_char_plain: "name_char c \<Longrightarrow> c \<noteq> CHR ''/'' \<and> c \<noteq> CHR 0x5C \<and> c \<noteq> CHR 0x00"
  by (auto simp: name_char_def ascii_alphanumeric_def less_eq_char_def)

lemma validate_name_iff:
  "validate_name name = Inr () \<longleftrightarrow> name \<noteq> [] \<and> name \<noteq> ''.'' \<and> name \<noteq> ''..'' \<and> list_all name_char name"
  using name_char_plain by (auto simp: validate_name_def list_all_iff Let_def)

lemma cas_dir_eq: "cas_dir root = root @ [''cas'']"
  by (simp add: cas_dir_def join_plain)

lemma db_dir_valid:
  assumes "validate_name name = Inr ()"
  shows "db_dir root name = root @ [''dbs'', name]"
proof -
  have "CHR ''/'' \<notin> set name" using assms name_char_plain by (auto simp: validate_name_iff list_all_iff)
  with assms show ?thesis by (simp add: db_dir_def join_plain validate_name_iff)
qed

subsection \<open>Directories\<close>

text \<open>A change of the tree that only adds: whatever was there is there, unchanged.\<close>

definition fs_grows :: "fs \<Rightarrow> fs \<Rightarrow> bool" where
  "fs_grows f f' \<longleftrightarrow> fs_faults f' = fs_faults f \<and> (\<forall>q n. fs_lookup f q = Some n \<longrightarrow> fs_lookup f' q = Some n)"

lemma fs_grows_refl [simp, intro]: "fs_grows f f"
  by (simp add: fs_grows_def)

lemma fs_grows_trans [trans]: "fs_grows f g \<Longrightarrow> fs_grows g h \<Longrightarrow> fs_grows f h"
  by (simp add: fs_grows_def)

lemma fs_grows_calls [simp]: "fs_grows f (g\<lparr>fs_calls := n\<rparr>) = fs_grows f g"
  by (simp add: fs_grows_def)

lemma fs_grows_from_calls [simp]: "fs_grows (f\<lparr>fs_calls := n\<rparr>) g = fs_grows f g"
  by (simp add: fs_grows_def)

lemma fs_grows_put: "p \<noteq> [] \<Longrightarrow> fs_lookup f p = None \<Longrightarrow> fs_grows f (fs_put f p n)"
  by (auto simp: fs_grows_def fs_simps)

lemma fs_growsD: "fs_grows f f' \<Longrightarrow> fs_lookup f q = Some n \<Longrightarrow> fs_lookup f' q = Some n"
  by (simp add: fs_grows_def)

lemma fs_grows_dir: "fs_grows f f' \<Longrightarrow> is_dir f p \<Longrightarrow> is_dir f' p"
  by (auto simp: fs_grows_def is_dir_def)

lemma mk_dirs_grows: "mk_dirs f d cs = (r, f') \<Longrightarrow> fs_grows f f'"
proof (induction f d cs arbitrary: r f' rule: mk_dirs.induct)
  case (1 f d)
  then show ?case by simp
next
  case (2 f d c cs)
  show ?case
  proof (cases "fs_lookup f (d @ [c])")
    case None
    then have "fs_grows f (fs_put f (d @ [c]) DirNode)" by (intro fs_grows_put) simp_all
    also have "fs_grows (fs_put f (d @ [c]) DirNode) f'" using 2 None by (simp add: Let_def)
    finally show ?thesis .
  next
    case (Some n)
    with 2 show ?thesis by (cases n) (simp_all add: Let_def)
  qed
qed

text \<open>Creating directories that are there changes nothing. A directory is there with all above it.\<close>

definition fs_rooted :: "fs \<Rightarrow> path \<Rightarrow> bool" where
  "fs_rooted f p \<longleftrightarrow> (\<forall>k \<le> length p. is_dir f (take k p))"

lemma mk_dirs_id: "fs_rooted f (d @ cs) \<Longrightarrow> mk_dirs f d cs = (Inr (), f)"
proof (induction cs arbitrary: d)
  case Nil
  then show ?case by simp
next
  case (Cons c cs)
  have "is_dir f (take (Suc (length d)) (d @ c # cs))"
    using Cons.prems by (simp only: fs_rooted_def length_append length_Cons)
  moreover have "fs_rooted f ((d @ [c]) @ cs)" using Cons.prems by simp
  ultimately show ?case using Cons.IH [of "d @ [c]"] by (simp add: is_dir_def)
qed

lemma mk_dirs_rooted:
  "mk_dirs f d cs = (Inr u, f') \<Longrightarrow> fs_rooted f d \<Longrightarrow> fs_rooted f' (d @ cs)"
proof (induction f d cs arbitrary: f' rule: mk_dirs.induct)
  case (1 f d)
  then show ?case by simp
next
  case (2 f d c cs)
  have root: "fs_rooted g (d @ [c])" if "fs_grows f g" "is_dir g (d @ [c])" for g
    unfolding fs_rooted_def
  proof (intro allI impI)
    fix k assume k: "k \<le> length (d @ [c])"
    show "is_dir g (take k (d @ [c]))"
    proof (cases "k \<le> length d")
      case True
      with "2.prems"(2) that(1) show ?thesis by (simp add: fs_rooted_def fs_grows_dir)
    next
      case False
      with k that(2) show ?thesis by simp
    qed
  qed
  show ?case
  proof (cases "fs_lookup f (d @ [c])")
    case None
    have "fs_grows f (fs_put f (d @ [c]) DirNode)" using None by (intro fs_grows_put) simp_all
    moreover have "is_dir (fs_put f (d @ [c]) DirNode) (d @ [c])" by (simp add: is_dir_def fs_simps)
    ultimately show ?thesis using 2 None root by (simp add: Let_def)
  next
    case (Some n)
    with 2 root [of f] show ?thesis by (cases n) (simp_all add: is_dir_def Let_def)
  qed
qed

lemma create_dir_all_grows: "fs_create_dir_all f p = (r, f') \<Longrightarrow> fs_grows f f'"
proof -
  assume run: "fs_create_dir_all f p = (r, f')"
  have "fs_grows f (snd (mk_dirs f [] cs))" for cs
    using mk_dirs_grows [of f "[]" cs] by (metis prod.collapse)
  moreover have "fs_grows (f\<lparr>fs_calls := n\<rparr>) (snd (mk_dirs (f\<lparr>fs_calls := n\<rparr>) [] cs))" for cs n
    using mk_dirs_grows [of "f\<lparr>fs_calls := n\<rparr>" "[]" cs] by (metis prod.collapse)
  ultimately show ?thesis
    using run by (auto simp: fs_create_dir_all_def fs_call_in_parts_def Let_def split: option.splits dest: mk_dirs_grows)
qed

lemma create_dir_all_rooted: "fs_create_dir_all f p = (Inr u, f') \<Longrightarrow> fs_rooted f' p"
  using mk_dirs_rooted [of "f\<lparr>fs_calls := Suc (fs_calls f)\<rparr>" "[]" p u f']
  by (auto simp: fs_create_dir_all_def fs_call_in_parts_def Let_def fs_rooted_def split: option.splits)

lemma fs_grows_rooted: "fs_grows f f' \<Longrightarrow> fs_rooted f p \<Longrightarrow> fs_rooted f' p"
  by (simp add: fs_rooted_def fs_grows_dir)

lemma mk_dirs_below:
  "mk_dirs f d cs = (r, f') \<Longrightarrow> length d + length cs < length q \<Longrightarrow> fs_lookup f' q = fs_lookup f q"
proof (induction f d cs arbitrary: r f' rule: mk_dirs.induct)
  case (1 f d)
  then show ?case by simp
next
  case (2 f d c cs)
  have "q \<noteq> d @ [c]" using "2.prems"(2) by auto
  then have put: "fs_lookup (fs_put f (d @ [c]) DirNode) q = fs_lookup f q" by (simp add: fs_simps)
  show ?case
  proof (cases "fs_lookup f (d @ [c])")
    case None
    with 2 put show ?thesis by (simp add: Let_def)
  next
    case (Some n)
    with 2 show ?thesis by (cases n) (simp_all add: Let_def)
  qed
qed

lemma create_dir_all_below:
  "fs_create_dir_all f p = (r, f') \<Longrightarrow> length p < length q \<Longrightarrow> fs_lookup f' q = fs_lookup f q"
proof -
  assume run: "fs_create_dir_all f p = (r, f')" and q: "length p < length q"
  let ?f = "f\<lparr>fs_calls := Suc (fs_calls f)\<rparr>"
  have "fs_lookup (snd (mk_dirs ?f [] cs)) q = fs_lookup f q" if "length cs \<le> length p" for cs
    using mk_dirs_below [of ?f "[]" cs _ _ q] that q by (cases "mk_dirs ?f [] cs") simp
  from this [of p] this [of "take k p" for k] run show ?thesis
    by (auto simp: fs_create_dir_all_def fs_call_in_parts_def Let_def split: option.splits)
qed

lemma create_dir_all_id:
  "fs_quiet f \<Longrightarrow> fs_rooted f p \<Longrightarrow> fs_create_dir_all f p = (Inr (), f\<lparr>fs_calls := Suc (fs_calls f)\<rparr>)"
  using mk_dirs_id [of "f\<lparr>fs_calls := Suc (fs_calls f)\<rparr>" "[]" p]
  by (simp add: fs_create_dir_all_def fs_call_quiet fs_rooted_def)

subsection \<open>Linking\<close>

definition plain :: "string \<Rightarrow> bool" where
  "plain s \<longleftrightarrow> s \<noteq> [] \<and> s \<noteq> ''.'' \<and> CHR ''/'' \<notin> set s"

lemma join_of_plain: "plain s \<Longrightarrow> join p s = p @ [s]"
  by (simp add: plain_def join_plain)

lemma symlink_metadata_effect:
  "fs_symlink_metadata f p = (r, f') \<Longrightarrow> fs_faults f' = fs_faults f \<and> (\<forall>q. fs_lookup f' q = fs_lookup f q) \<and>
     (case r of Inr n \<Rightarrow> fs_lookup f p = Some n | Inl e \<Rightarrow> e = IoNotFound \<longrightarrow> fs_lookup f p = None)"
  by (auto simp: fs_symlink_metadata_def fs_call_def fs_call_in_parts_def Let_def split: option.splits)

lemma symlink_effect:
  "fs_symlink f t l = (r, f') \<Longrightarrow> l \<noteq> [] \<Longrightarrow> fs_faults f' = fs_faults f \<and>
     (case r of Inr _ \<Rightarrow> fs_lookup f l = None \<and> (\<forall>q. fs_lookup f' q = (if q = l then Some (LinkNode t) else fs_lookup f q))
      | Inl _ \<Rightarrow> \<forall>q. fs_lookup f' q = fs_lookup f q)"
  by (auto simp: fs_symlink_def fs_call_def fs_call_in_parts_def Let_def fs_simps split: option.splits if_splits)

lemma link_shared_effect:
  "link_shared dir subs f = (r, f') \<Longrightarrow> list_all plain subs \<Longrightarrow> fs_grows f f' \<and>
     (r = Inr () \<longrightarrow> (\<forall>sub \<in> set subs. fs_lookup f (dir @ [sub]) = None \<longrightarrow>
        fs_lookup f' (dir @ [sub]) = Some (LinkNode (shared_target sub))) \<and>
        (\<forall>sub \<in> set subs. fs_lookup f' (dir @ [sub]) \<noteq> None))"
proof (induction dir subs f arbitrary: r f' rule: link_shared.induct)
  case (1 dir f)
  then show ?case by simp
next
  case (2 dir sub subs f)
  have j: "join dir sub = dir @ [sub]" using "2.prems"(2) by (simp add: join_of_plain)
  obtain m f1 where m: "fs_symlink_metadata f (dir @ [sub]) = (m, f1)" by fastforce
  note sm = symlink_metadata_effect [OF m]
  then have g1: "fs_grows f f1" by (simp add: fs_grows_def)
  show ?case
  proof (cases m)
    case (Inr n)
    with 2 m j have ih: "fs_grows f1 f' \<and> (r = Inr () \<longrightarrow> (\<forall>sub \<in> set subs. fs_lookup f1 (dir @ [sub]) = None \<longrightarrow>
        fs_lookup f' (dir @ [sub]) = Some (LinkNode (shared_target sub))) \<and>
        (\<forall>sub \<in> set subs. fs_lookup f' (dir @ [sub]) \<noteq> None))" by (simp add: Let_def)
    moreover have "fs_lookup f1 (dir @ [sub]) = Some n" using sm Inr by simp
    then have "fs_lookup f' (dir @ [sub]) = Some n" using ih by (simp add: fs_grows_def)
    ultimately show ?thesis using sm Inr fs_grows_trans [OF g1] by auto
  next
    case (Inl e)
    show ?thesis
    proof (cases "e = IoNotFound")
      case False
      with 2 m j Inl g1 show ?thesis by (cases e) (auto simp: Let_def)
    next
      case True
      obtain k f2 where k: "fs_symlink f1 (shared_target sub) (dir @ [sub]) = (k, f2)" by fastforce
      note sy = symlink_effect [OF k]
      show ?thesis
      proof (cases k)
        case (Inl e')
        have "fs_grows f1 f2" using sy Inl by (simp add: fs_grows_def)
        with 2 m j \<open>m = Inl e\<close> True k Inl fs_grows_trans [OF g1] show ?thesis by (auto simp: Let_def)
      next
        case (Inr u)
        have look: "\<forall>q. fs_lookup f2 q = (if q = dir @ [sub] then Some (LinkNode (shared_target sub)) else fs_lookup f1 q)"
          and none: "fs_lookup f1 (dir @ [sub]) = None" and fl: "fs_faults f2 = fs_faults f1" using sy Inr by simp_all
        have g2: "fs_grows f1 f2" using look none fl by (auto simp: fs_grows_def)
        from 2 m j \<open>m = Inl e\<close> True k Inr have ih: "fs_grows f2 f' \<and> (r = Inr () \<longrightarrow> (\<forall>sub \<in> set subs.
          fs_lookup f2 (dir @ [sub]) = None \<longrightarrow> fs_lookup f' (dir @ [sub]) = Some (LinkNode (shared_target sub))) \<and>
          (\<forall>sub \<in> set subs. fs_lookup f' (dir @ [sub]) \<noteq> None))" by (simp add: Let_def)
        have new: "fs_lookup f' (dir @ [sub]) = Some (LinkNode (shared_target sub))"
          using ih look by (simp add: fs_grows_def)
        have "fs_grows f f'" using g1 g2 ih fs_grows_trans by blast
        moreover have "fs_lookup f' (dir @ [s]) = Some (LinkNode (shared_target s))"
          if "r = Inr ()" "s \<in> set (sub # subs)" "fs_lookup f (dir @ [s]) = None" for s
        proof (cases "s = sub")
          case True
          with new show ?thesis by simp
        next
          case False
          with that(3) look sm have "fs_lookup f2 (dir @ [s]) = None" by simp
          with ih that(1,2) False show ?thesis by simp
        qed
        ultimately show ?thesis using ih new by simp
      qed
    qed
  qed
qed

lemma link_shared_id:
  "fs_quiet f \<Longrightarrow> list_all plain subs \<Longrightarrow> (\<forall>sub \<in> set subs. fs_lookup f (dir @ [sub]) \<noteq> None) \<Longrightarrow>
     \<exists>n. link_shared dir subs f = (Inr (), f\<lparr>fs_calls := n\<rparr>)"
proof (induction subs arbitrary: f)
  case Nil
  then show ?case by (metis fs.surjective fs.update_convs(3) link_shared.simps(1) old.unit.exhaust)
next
  case (Cons sub subs)
  obtain n where "fs_lookup f (dir @ [sub]) = Some n" using Cons.prems(3) by auto
  moreover have "fs_quiet (f\<lparr>fs_calls := k\<rparr>)" for k using Cons.prems(1) by (simp add: fs_quiet_def)
  ultimately show ?case
    using Cons.prems Cons.IH [of "f\<lparr>fs_calls := Suc (fs_calls f)\<rparr>"]
    by (simp add: join_of_plain fs_symlink_metadata_def fs_call_quiet Let_def)
qed

subsection \<open>The guarantees of the pool\<close>

text \<open>A name cannot leave its pool. A name is accepted exactly when it is one or more of the
  letters, digits, dashes, underscores and dots and is not \<open>.\<close> or \<open>..\<close>; its directory is then a direct
  child of the pool's \<open>dbs\<close>, outside the shared store, and no other accepted name has it.\<close>

theorem names_stay_in_pool:
  "(validate_name name = Inr () \<longleftrightarrow>
      name \<noteq> [] \<and> name \<noteq> ''.'' \<and> name \<noteq> ''..'' \<and> list_all name_char name) \<and>
    (validate_name name = Inr () \<longrightarrow>
      db_dir root name = root @ [''dbs'', name] \<and> \<not> prefix (cas_dir root) (db_dir root name) \<and>
      (validate_name other = Inr () \<longrightarrow> db_dir root other = db_dir root name \<longrightarrow> other = name))"
  using validate_name_iff [of name] by (auto simp: db_dir_valid cas_dir_eq)

lemma names_stay_in_pool_witness:
  "db_dir [''/'', ''pool''] ''v1.2-a'' = [''/'', ''pool'', ''dbs'', ''v1.2-a''] \<and> validate_name ''../x'' \<noteq> Inr ()"
proof -
  have "validate_name ''v1.2-a'' = Inr ()" by code_simp
  with names_stay_in_pool [of "''v1.2-a''" "[''/'', ''pool'']"] names_stay_in_pool [of "''../x''"]
  show ?thesis by (auto simp: name_char_def ascii_alphanumeric_def)
qed

lemma create_shared_grows: "create_shared cas subs f = (r, f') \<Longrightarrow> fs_grows f f'"
proof (induction cas subs f arbitrary: r f' rule: create_shared.induct)
  case (1 cas f)
  then show ?case by simp
next
  case (2 cas sub subs f)
  obtain k f1 where k: "fs_create_dir_all f (join cas sub) = (k, f1)" by fastforce
  note g = create_dir_all_grows [OF k]
  with 2 k show ?case by (cases k) (auto simp: Let_def intro: fs_grows_trans)
qed

lemma create_shared_rooted:
  "create_shared cas subs f = (Inr u, f') \<Longrightarrow> list_all plain subs \<Longrightarrow> \<forall>sub \<in> set subs. fs_rooted f' (cas @ [sub])"
proof (induction cas subs f arbitrary: f' rule: create_shared.induct)
  case (1 cas f)
  then show ?case by simp
next
  case (2 cas sub subs f)
  have j: "join cas sub = cas @ [sub]" using "2.prems"(2) by (simp add: join_of_plain)
  obtain k f1 where k: "fs_create_dir_all f (cas @ [sub]) = (k, f1)" by fastforce
  then obtain v where v: "k = Inr v" using "2.prems"(1) by (cases k) (simp_all add: j Let_def)
  have rest: "create_shared cas subs f1 = (Inr u, f')" using "2.prems"(1) k v by (simp add: j Let_def)
  have "fs_rooted f' (cas @ [sub])"
    using create_dir_all_rooted [OF k [unfolded v]] create_shared_grows [OF rest] by (simp add: fs_grows_rooted)
  with 2 k v j rest show ?case by (simp add: Let_def)
qed

lemma create_shared_below:
  "create_shared cas subs f = (r, f') \<Longrightarrow> list_all plain subs \<Longrightarrow> Suc (length cas) < length q \<Longrightarrow>
     fs_lookup f' q = fs_lookup f q"
proof (induction cas subs f arbitrary: r f' rule: create_shared.induct)
  case (1 cas f)
  then show ?case by simp
next
  case (2 cas sub subs f)
  have j: "join cas sub = cas @ [sub]" using "2.prems"(2) by (simp add: join_of_plain)
  obtain k f1 where k: "fs_create_dir_all f (cas @ [sub]) = (k, f1)" by fastforce
  with create_dir_all_below [OF k, of q] 2 show ?case by (cases k) (simp_all add: j Let_def)
qed

lemma create_shared_id:
  "fs_quiet f \<Longrightarrow> list_all plain subs \<Longrightarrow> (\<forall>sub \<in> set subs. fs_rooted f (cas @ [sub])) \<Longrightarrow>
     \<exists>n. create_shared cas subs f = (Inr (), f\<lparr>fs_calls := n\<rparr>)"
proof (induction subs arbitrary: f)
  case Nil
  have "f = f\<lparr>fs_calls := fs_calls f\<rparr>" by simp
  then show ?case by (metis create_shared.simps(1))
next
  case (Cons sub subs)
  have "fs_quiet (f\<lparr>fs_calls := k\<rparr>)" "fs_rooted (f\<lparr>fs_calls := k\<rparr>) p = fs_rooted f p" for k p
    using Cons.prems(1) by (simp_all add: fs_quiet_def fs_rooted_def)
  with Cons.prems Cons.IH [of "f\<lparr>fs_calls := Suc (fs_calls f)\<rparr>"] show ?case
    by (simp add: join_of_plain create_dir_all_id Let_def)
qed

text \<open>C39: linking puts a database on the pool's one store and is idempotent. Afterwards the shared
  \<open>pages\<close> and \<open>manifests\<close> and the database's directory are there, each link that was made leads into
  the shared store, nothing that was there before has changed, and linking again changes nothing.\<close>

theorem linking_shares_cas:
  assumes "validate_name name = Inr ()" "link_db_to_shared_cas root name f = (Inr dir, f')" "fs_quiet f"
    and "sub \<in> {''pages'', ''manifests''}"
  shows "dir = root @ [''dbs'', name] \<and> is_dir f' dir \<and> is_dir f' (cas_dir root @ [sub]) \<and> fs_grows f f' \<and>
    (fs_lookup f (dir @ [sub]) = None \<longrightarrow> link_leads f' (dir @ [sub]) = Some (cas_dir root @ [sub])) \<and>
    (\<exists>n. link_db_to_shared_cas root name f' = (Inr dir, f'\<lparr>fs_calls := n\<rparr>))"
proof -
  let ?subs = "[''pages'', ''manifests'']" and ?dir = "root @ [''dbs'', name]" and ?cas = "cas_dir root"
  have plain: "list_all plain ?subs" by (simp add: plain_def)
  note dd = db_dir_valid [OF assms(1), of root]
  obtain r1 f1 where c1: "create_shared ?cas ?subs f = (r1, f1)" by fastforce
  obtain r2 f2 where c2: "fs_create_dir_all f1 ?dir = (r2, f2)" by fastforce
  obtain r3 f3 where c3: "link_shared ?dir ?subs f2 = (r3, f3)" by fastforce
  have ok: "r1 = Inr ()" "r2 = Inr ()" "r3 = Inr ()" "dir = ?dir" "f3 = f'"
    using assms(2) c1 c2 c3 dd by (cases r1; cases r2; cases r3; auto simp: link_db_to_shared_cas_def Let_def)+
  note g1 = create_shared_grows [OF c1] and g2 = create_dir_all_grows [OF c2]
  note l3 = link_shared_effect [OF c3 plain]
  have g: "fs_grows f f'" "fs_grows f1 f'" "fs_grows f2 f'" using g1 g2 l3 ok(5) fs_grows_trans by blast+
  have rooted: "\<forall>s \<in> set ?subs. fs_rooted f' (?cas @ [s])" "fs_rooted f' ?dir"
    using create_shared_rooted [OF c1 [unfolded ok(1)] plain] create_dir_all_rooted [OF c2 [unfolded ok(2)]] g
    by (auto intro: fs_grows_rooted)
  have dirs: "is_dir f' p" if "fs_rooted f' p" for p using that by (auto simp: fs_rooted_def)
  have quiet: "fs_quiet f'" using assms(3) g(1) by (simp add: fs_quiet_def fs_grows_def)
  have there: "\<forall>s \<in> set ?subs. fs_lookup f' (?dir @ [s]) \<noteq> None" using l3 ok by simp
  have "fs_lookup f2 (?dir @ [sub]) = fs_lookup f (?dir @ [sub])"
    using create_shared_below [OF c1 plain, of "?dir @ [sub]"] create_dir_all_below [OF c2, of "?dir @ [sub]"]
    by (simp add: cas_dir_eq)
  then have lead: "fs_lookup f (?dir @ [sub]) = None \<longrightarrow> link_leads f' (?dir @ [sub]) = Some (?cas @ [sub])"
    using l3 ok assms(4) by (auto simp: link_leads_def shared_target_def join_plain cas_dir_eq butlast_append)
  obtain n1 where n1: "create_shared ?cas ?subs f' = (Inr (), f'\<lparr>fs_calls := n1\<rparr>)"
    using create_shared_id [OF quiet plain] rooted(1) by blast
  have q1: "fs_quiet (f'\<lparr>fs_calls := k\<rparr>)" for k using quiet by (simp add: fs_quiet_def)
  have "fs_rooted (f'\<lparr>fs_calls := n1\<rparr>) ?dir" using rooted(2) by (simp add: fs_rooted_def)
  note n2 = create_dir_all_id [OF q1 this]
  have "\<forall>s \<in> set ?subs. fs_lookup (f'\<lparr>fs_calls := Suc n1\<rparr>) (?dir @ [s]) \<noteq> None" using there by simp
  from link_shared_id [OF q1 plain this] obtain n3 where
    "link_shared ?dir ?subs (f'\<lparr>fs_calls := Suc n1\<rparr>) = (Inr (), f'\<lparr>fs_calls := n3\<rparr>)" by auto
  with n1 n2 have "link_db_to_shared_cas root name f' = (Inr dir, f'\<lparr>fs_calls := n3\<rparr>)"
    by (simp add: link_db_to_shared_cas_def Let_def dd ok(4))
  with lead rooted dirs g(1) ok(4) assms(4) show ?thesis by auto
qed

lemma linking_shares_cas_witness:
  "\<exists>f'. link_db_to_shared_cas [''pool''] ''a'' \<lparr>fs_tree = [], fs_faults = (\<lambda>_. None), fs_calls = 0,
     fs_done = (\<lambda>_. None), fs_gone = (\<lambda>_ _. False)\<rparr> =
      (Inr [''pool'', ''dbs'', ''a''], f') \<and>
     link_leads f' [''pool'', ''dbs'', ''a'', ''pages''] = Some [''pool'', ''cas'', ''pages'']"
proof -
  let ?f = "\<lparr>fs_tree = [], fs_faults = (\<lambda>_. None), fs_calls = 0,
     fs_done = (\<lambda>_. None), fs_gone = (\<lambda>_ _. False)\<rparr>"
  have v: "validate_name ''a'' = Inr ()" by code_simp
  have "fst (link_db_to_shared_cas [''pool''] ''a'' ?f) = Inr [''pool'', ''dbs'', ''a'']"
    by code_simp
  then obtain f' where run: "link_db_to_shared_cas [''pool''] ''a'' ?f = (Inr [''pool'', ''dbs'', ''a''], f')"
    by (metis prod.collapse)
  from linking_shares_cas [OF v run, of "''pages''"] run show ?thesis
    by (auto simp: fs_quiet_def fs_lookup_def cas_dir_eq)
qed

end
