(* ===== verification/Core_Store.thy ===== *)
theory Core_Store
  imports Core_Pool Vfs_Ffi
begin

section \<open>The store behind a database\<close>

text \<open>
  \<open>crates/flock-core/src/store.rs\<close>: a database sits on a local store, durable through substrate's log,
  or on a tiered one, durable in object storage; the kernel is handed a page store whose commit is
  the one of that store. Substrate is third-party code and a parameter (\<open>substrate\<close>): its stores are
  handles over one world \<open>'w\<close> (disks, logs, buckets), so that what an operation on one database does
  to another can be stated. \<open>substrate_law\<close> is what the databases rely on: an operation moves the head
  of the handle it is called on and of no other; recovery takes the head from the directory's log;
  a commit that returns is in the log, one that fails did not happen.

  The kernel's side of the interface is three locales: whatever a store's reads keep, hydrating and
  opening a kernel keep (\<open>store_reader\<close>); whatever staging keeps too, the diff of a checkpoint keeps
  (\<open>store_stager\<close>); and with the commit, the whole checkpoint (\<open>kernel_store\<close>). Both kinds of store
  interpret them.
\<close>

subsection \<open>Substrate\<close>

record store_config =
  sc_page_size :: nat
  sc_pool :: string

record ('w, 'h, 't, 'm, 'o) substrate =
  sb_open :: "path \<Rightarrow> 'w \<Rightarrow> (wal_error + 'h) \<times> 'w"
  sb_open_replay :: "path \<Rightarrow> 'w \<Rightarrow> (wal_error + 'h) \<times> 'w"
  sb_recover :: "'h \<Rightarrow> 'w \<Rightarrow> (wal_error + unit) \<times> 'w"
  sb_checkpoint :: "'h \<Rightarrow> 'w \<Rightarrow> (wal_error + unit) \<times> 'w"
  sb_commit :: "'h \<Rightarrow> 't \<Rightarrow> 'w \<Rightarrow> (wal_error + manifest_id) \<times> 'w"
  sb_commit_at :: "'h \<Rightarrow> 't \<Rightarrow> u64 \<Rightarrow> 'w \<Rightarrow> (wal_error + manifest_id) \<times> 'w"
  sb_backend :: "wal_error \<Rightarrow> pager_error"
  sb_default_page_size :: nat
  pg_page_size :: "'h \<Rightarrow> 'w \<Rightarrow> nat"
  pg_head :: "'h \<Rightarrow> 'w \<Rightarrow> manifest_id"
  pg_resolve :: "'h \<Rightarrow> manifest_id \<Rightarrow> 'w \<Rightarrow> (pager_error + (page_no \<times> page_id) list) \<times> 'w"
  pg_read :: "'h \<Rightarrow> manifest_id \<Rightarrow> page_no \<Rightarrow> 'w \<Rightarrow> (pager_error + bytes) \<times> 'w"
  pg_begin :: "'h \<Rightarrow> 'w \<Rightarrow> (pager_error + 't) \<times> 'w"
  pg_write :: "'h \<Rightarrow> 't \<Rightarrow> page_no \<Rightarrow> bytes \<Rightarrow> 'w \<Rightarrow> (pager_error + 't) \<times> 'w"
  pg_remove :: "'h \<Rightarrow> 't \<Rightarrow> page_no \<Rightarrow> 'w \<Rightarrow> (pager_error + 't) \<times> 'w"
  pg_commit :: "'h \<Rightarrow> 't \<Rightarrow> 'w \<Rightarrow> (pager_error + manifest_id) \<times> 'w"
  pg_manifest :: "'h \<Rightarrow> manifest_id \<Rightarrow> 'w \<Rightarrow> (pager_error + 'm) \<times> 'w"
  pg_rewind :: "'h \<Rightarrow> manifest_id \<Rightarrow> 'w \<Rightarrow> (pager_error + unit) \<times> 'w"
  pg_set_head_to :: "'h \<Rightarrow> manifest_id \<Rightarrow> 'w \<Rightarrow> (pager_error + unit) \<times> 'w"
  mf_overlay_base :: "'m \<Rightarrow> manifest_id option"
  mf_parent :: "'m \<Rightarrow> manifest_id option"
  cas_get :: "'h \<Rightarrow> page_id \<Rightarrow> 'w \<Rightarrow> (pager_error + bytes) \<times> 'w"
  cas_put :: "'h \<Rightarrow> bytes \<Rightarrow> 'w \<Rightarrow> (pager_error + page_id) \<times> 'w"
  ms_put :: "'h \<Rightarrow> 'm \<Rightarrow> 'w \<Rightarrow> (pager_error + unit) \<times> 'w"
  tr_open :: "path \<Rightarrow> 'o remote_tier \<Rightarrow> store_config \<Rightarrow> 'w \<Rightarrow> (store_error + 'h) \<times> 'w"
  tr_wake :: "path \<Rightarrow> 'o remote_tier \<Rightarrow> wake_token \<Rightarrow> 'w \<Rightarrow> (store_error + 'h) \<times> 'w"
  tr_ensure_durable :: "'h \<Rightarrow> manifest_id list \<Rightarrow> 'w \<Rightarrow> (store_error + unit) \<times> 'w"
  tr_sleep :: "'h \<Rightarrow> 'w \<Rightarrow> (store_error + wake_token) \<times> 'w"

subsection \<open>The two stores\<close>

datatype 'h store = Local 'h | Tiered 'h

fun store_pager :: "'h store \<Rightarrow> 'h" where
  "store_pager (Local d) = d"
| "store_pager (Tiered t) = t"

definition store_head :: "('w, 'h, 't, 'm, 'o) substrate \<Rightarrow> 'h store \<Rightarrow> 'w \<Rightarrow> manifest_id" where
  "store_head B st w = pg_head B (store_pager st) w"

definition delegate_to_pager :: "('w, 'h, 't, 'm, 'o) substrate \<Rightarrow> 'h \<Rightarrow>
    ('w \<Rightarrow> 't \<Rightarrow> (pager_error + manifest_id) \<times> 'w) \<Rightarrow> ('w, 't) page_store" where
  "delegate_to_pager B h commit =
     \<lparr>pst_page_size = pg_page_size B h, pst_head = pg_head B h,
      pst_resolve = (\<lambda>w m. pg_resolve B h m w), pst_read = (\<lambda>w m p. pg_read B h m p w),
      pst_begin = pg_begin B h, pst_write = (\<lambda>w t p bs. pg_write B h t p bs w),
      pst_remove = (\<lambda>w t p. pg_remove B h t p w), pst_commit = commit\<rparr>"

definition durable_commit :: "('w, 'h, 't, 'm, 'o) substrate \<Rightarrow> 'h \<Rightarrow> 'w \<Rightarrow> 't \<Rightarrow> (pager_error + manifest_id) \<times> 'w" where
  "durable_commit B h w t = (case sb_commit B h t w of (r, w') \<Rightarrow> (map_err (sb_backend B) r, w'))"

definition tiered_commit :: "('w, 'h, 't, 'm, 'o) substrate \<Rightarrow> 'h \<Rightarrow> 'w \<Rightarrow> 't \<Rightarrow> (pager_error + manifest_id) \<times> 'w" where
  "tiered_commit B h w t = pg_commit B h t w"

fun store_page_store :: "('w, 'h, 't, 'm, 'o) substrate \<Rightarrow> 'h store \<Rightarrow> ('w, 't) page_store" where
  "store_page_store B (Local d) = delegate_to_pager B d (durable_commit B d)"
| "store_page_store B (Tiered t) = delegate_to_pager B t (tiered_commit B t)"

lemma store_page_store_simps [simp]:
  "pst_page_size (store_page_store B st) = pg_page_size B (store_pager st)"
  "pst_head (store_page_store B st) = pg_head B (store_pager st)"
  "pst_resolve (store_page_store B st) w m = pg_resolve B (store_pager st) m w"
  "pst_read (store_page_store B st) w m p = pg_read B (store_pager st) m p w"
  "pst_begin (store_page_store B st) = pg_begin B (store_pager st)"
  "pst_write (store_page_store B st) w t p bs = pg_write B (store_pager st) t p bs w"
  "pst_remove (store_page_store B st) w t p = pg_remove B (store_pager st) t p w"
  by (cases st; simp add: delegate_to_pager_def)+

lemma store_page_store_commit:
  "pst_commit (store_page_store B (Local h)) = durable_commit B h"
  "pst_commit (store_page_store B (Tiered h)) = tiered_commit B h"
  by (simp_all add: delegate_to_pager_def)

subsection \<open>What the databases rely on\<close>

text \<open>
  What is observed of the world: its good states, the handles open in it, the directory of a handle
  (none for a tiered store), the head a directory's log records, and, of immutable things, the pages
  of a manifest and the changes of a transaction.
\<close>

record ('w, 'h, 't) substrate_view =
  sv_inv :: "'w \<Rightarrow> bool"
  sv_live :: "'w \<Rightarrow> 'h \<Rightarrow> bool"
  sv_dir :: "'h \<Rightarrow> path option"
  sv_recorded :: "'w \<Rightarrow> path \<Rightarrow> manifest_id"
  sv_pages :: "manifest_id \<Rightarrow> page_map"
  sv_staged :: "'t \<Rightarrow> change_map"

text \<open>Nothing observed of the handles open in \<open>w\<close> has changed, and no directory's recorded head.\<close>

definition still :: "('w, 'h, 't, 'm, 'o) substrate \<Rightarrow> ('w, 'h, 't) substrate_view \<Rightarrow> 'w \<Rightarrow> 'w \<Rightarrow> bool" where
  "still B V w w' \<longleftrightarrow> sv_inv V w' \<and>
     (\<forall>g. sv_live V w g \<longrightarrow> sv_live V w' g \<and> pg_head B g w' = pg_head B g w \<and> pg_page_size B g w' = pg_page_size B g w) \<and>
     (\<forall>d. sv_recorded V w' d = sv_recorded V w d)"

text \<open>Only the head of \<open>h\<close> and what its directory records may have changed.\<close>

definition only_moves :: "('w, 'h, 't, 'm, 'o) substrate \<Rightarrow> ('w, 'h, 't) substrate_view \<Rightarrow> 'h \<Rightarrow> 'w \<Rightarrow> 'w \<Rightarrow> bool" where
  "only_moves B V h w w' \<longleftrightarrow> sv_inv V w' \<and>
     (\<forall>g. sv_live V w g \<longrightarrow> sv_live V w' g \<and> pg_page_size B g w' = pg_page_size B g w \<and>
        (g \<noteq> h \<longrightarrow> pg_head B g w' = pg_head B g w)) \<and>
     (\<forall>d. sv_dir V h \<noteq> Some d \<longrightarrow> sv_recorded V w' d = sv_recorded V w d)"

definition opens_as :: "('w, 'h, 't) substrate_view \<Rightarrow> 'w \<Rightarrow> 'w \<Rightarrow> 'h \<Rightarrow> path option \<Rightarrow> bool" where
  "opens_as V w w' h d \<longleftrightarrow> \<not> sv_live V w h \<and> sv_live V w' h \<and> sv_dir V h = d"

definition commits_as :: "('w, 'h, 't, 'm, 'o) substrate \<Rightarrow> ('w, 'h, 't) substrate_view \<Rightarrow> 'h \<Rightarrow> 't \<Rightarrow> 'w \<Rightarrow>
    manifest_id \<Rightarrow> 'w \<Rightarrow> bool" where
  "commits_as B V h t w m w' \<longleftrightarrow> pg_head B h w' = m \<and>
     sv_pages V m = apply_changes (sv_pages V (pg_head B h w)) (sv_staged V t) \<and>
     (sv_staged V t = Map.empty \<longrightarrow> m = pg_head B h w)"

definition reads_law :: "('w, 'h, 't, 'm, 'o) substrate \<Rightarrow> ('w, 'h, 't) substrate_view \<Rightarrow> 'w \<Rightarrow> 'h \<Rightarrow> bool" where
  "reads_law B V w h \<longleftrightarrow> 0 < pg_page_size B h w \<and>
     (\<forall>m r w'. pg_resolve B h m w = (r, w') \<longrightarrow> still B V w w' \<and>
        (\<forall>l. r = Inr l \<longrightarrow> bt_ok l \<and> fst ` set l = dom (sv_pages V m))) \<and>
     (\<forall>m p r w'. pg_read B h m p w = (r, w') \<longrightarrow> still B V w w' \<and> (\<forall>b. r = Inr b \<longrightarrow> sv_pages V m p = Some b)) \<and>
     (\<forall>m r w'. pg_manifest B h m w = (r, w') \<longrightarrow> still B V w w') \<and>
     (\<forall>ms r w'. tr_ensure_durable B h ms w = (r, w') \<longrightarrow> still B V w w')"

definition stages_law :: "('w, 'h, 't, 'm, 'o) substrate \<Rightarrow> ('w, 'h, 't) substrate_view \<Rightarrow> 'w \<Rightarrow> 'h \<Rightarrow> bool" where
  "stages_law B V w h \<longleftrightarrow>
     (\<forall>r w'. pg_begin B h w = (r, w') \<longrightarrow> still B V w w' \<and> (\<forall>t. r = Inr t \<longrightarrow> sv_staged V t = Map.empty)) \<and>
     (\<forall>t p b r w'. pg_write B h t p b w = (r, w') \<longrightarrow> still B V w w' \<and>
        (\<forall>t'. r = Inr t' \<longrightarrow> sv_staged V t' = (sv_staged V t)(p \<mapsto> Some b))) \<and>
     (\<forall>t p r w'. pg_remove B h t p w = (r, w') \<longrightarrow> still B V w w' \<and>
        (\<forall>t'. r = Inr t' \<longrightarrow> sv_staged V t' = (sv_staged V t)(p \<mapsto> None)))"

definition heads_law :: "('w, 'h, 't, 'm, 'o) substrate \<Rightarrow> ('w, 'h, 't) substrate_view \<Rightarrow> 'w \<Rightarrow> 'h \<Rightarrow> bool" where
  "heads_law B V w h \<longleftrightarrow>
     (\<forall>r w'. sb_recover B h w = (r, w') \<longrightarrow> only_moves B V h w w' \<and>
        (\<forall>d. sv_recorded V w' d = sv_recorded V w d) \<and>
        (\<forall>d. r = Inr () \<longrightarrow> sv_dir V h = Some d \<longrightarrow> pg_head B h w' = sv_recorded V w d)) \<and>
     (\<forall>r w'. sb_checkpoint B h w = (r, w') \<longrightarrow> only_moves B V h w w' \<and> pg_head B h w' = pg_head B h w \<and>
        (\<forall>d. r = Inr () \<longrightarrow> sv_dir V h = Some d \<longrightarrow> sv_recorded V w' d = pg_head B h w)) \<and>
     (\<forall>t r w'. sb_commit B h t w = (r, w') \<longrightarrow> only_moves B V h w w' \<and>
        (\<forall>e. r = Inl e \<longrightarrow> still B V w w') \<and>
        (\<forall>m. r = Inr m \<longrightarrow> commits_as B V h t w m w' \<and>
           (\<forall>d. sv_dir V h = Some d \<longrightarrow> sv_recorded V w' d = (if sv_staged V t = Map.empty then sv_recorded V w d else m)))) \<and>
     (\<forall>t r w'. pg_commit B h t w = (r, w') \<longrightarrow> only_moves B V h w w' \<and>
        (\<forall>d. sv_recorded V w' d = sv_recorded V w d) \<and> (\<forall>m. r = Inr m \<longrightarrow> commits_as B V h t w m w')) \<and>
     (\<forall>m r w'. pg_rewind B h m w = (r, w') \<longrightarrow> only_moves B V h w w' \<and>
        (\<forall>d. sv_recorded V w' d = sv_recorded V w d) \<and> (r = Inr () \<longrightarrow> pg_head B h w' = m)) \<and>
     (\<forall>m r w'. pg_set_head_to B h m w = (r, w') \<longrightarrow> only_moves B V h w w' \<and>
        (\<forall>d. sv_recorded V w' d = sv_recorded V w d) \<and> (r = Inr () \<longrightarrow> pg_head B h w' = m))"

definition opens_law :: "('w, 'h, 't, 'm, 'o) substrate \<Rightarrow> ('w, 'h, 't) substrate_view \<Rightarrow> 'w \<Rightarrow> bool" where
  "opens_law B V w \<longleftrightarrow>
     (\<forall>d r w'. sb_open B d w = (r, w') \<longrightarrow> still B V w w' \<and>
        (\<forall>h. r = Inr h \<longrightarrow> opens_as V w w' h (Some d) \<and> pg_page_size B h w' = sb_default_page_size B)) \<and>
     (\<forall>d r w'. sb_open_replay B d w = (r, w') \<longrightarrow> still B V w w' \<and>
        (\<forall>h. r = Inr h \<longrightarrow> opens_as V w w' h (Some d) \<and> pg_page_size B h w' = sb_default_page_size B)) \<and>
     (\<forall>d tier k r w'. tr_wake B d tier k w = (r, w') \<longrightarrow> still B V w w' \<and> (\<forall>h. r = Inr h \<longrightarrow> opens_as V w w' h None))"

definition substrate_law :: "('w, 'h, 't, 'm, 'o) substrate \<Rightarrow> ('w, 'h, 't) substrate_view \<Rightarrow> bool" where
  "substrate_law B V \<longleftrightarrow> (\<forall>w. sv_inv V w \<longrightarrow> opens_law B V w \<and>
     (\<forall>h. sv_live V w h \<longrightarrow> reads_law B V w h \<and> stages_law B V w h \<and> heads_law B V w h))"

lemma substrate_lawD:
  assumes "substrate_law B V" "sv_inv V w"
  shows "opens_law B V w" "sv_live V w h \<Longrightarrow> reads_law B V w h" "sv_live V w h \<Longrightarrow> stages_law B V w h"
    "sv_live V w h \<Longrightarrow> heads_law B V w h"
  using assms by (simp_all add: substrate_law_def)

lemma still_only_moves: "still B V w w' \<Longrightarrow> only_moves B V h w w'"
  by (simp add: still_def only_moves_def)

lemma only_moves_refl: "sv_inv V w \<Longrightarrow> only_moves B V h w w"
  by (simp add: only_moves_def)

lemma only_moves_trans: "only_moves B V h w w' \<Longrightarrow> only_moves B V h w' w'' \<Longrightarrow> only_moves B V h w w''"
  by (simp add: only_moves_def)

lemma still_trans: "still B V w w' \<Longrightarrow> still B V w' w'' \<Longrightarrow> still B V w w''"
  by (simp add: still_def)

lemma still_refl: "sv_inv V w \<Longrightarrow> still B V w w"
  by (simp add: still_def)

lemma only_moves_inv: "only_moves B V h w w' \<Longrightarrow> sv_inv V w'"
  by (simp add: only_moves_def)

lemma only_moves_live: "only_moves B V h w w' \<Longrightarrow> sv_live V w g \<Longrightarrow> sv_live V w' g"
  by (simp add: only_moves_def)

lemmas moves_intros = still_only_moves only_moves_refl only_moves_inv only_moves_live

lemma reads_lawD:
  assumes "reads_law B V w h"
  shows "0 < pg_page_size B h w"
    and "pg_resolve B h m w = (r1, w') \<Longrightarrow> still B V w w' \<and> (\<forall>l. r1 = Inr l \<longrightarrow> bt_ok l \<and> fst ` set l = dom (sv_pages V m))"
    and "pg_read B h m p w = (r2, w') \<Longrightarrow> still B V w w' \<and> (\<forall>b. r2 = Inr b \<longrightarrow> sv_pages V m p = Some b)"
    and "pg_manifest B h m w = (r3, w') \<Longrightarrow> still B V w w'"
    and "tr_ensure_durable B h ms w = (r4, w') \<Longrightarrow> still B V w w'"
proof -
  note l = assms [unfolded reads_law_def]
  note l1 = l [THEN conjunct2] note l2 = l1 [THEN conjunct2]
  show "0 < pg_page_size B h w" by (rule l [THEN conjunct1])
  show "pg_resolve B h m w = (r1, w') \<Longrightarrow> still B V w w' \<and> (\<forall>l. r1 = Inr l \<longrightarrow> bt_ok l \<and> fst ` set l = dom (sv_pages V m))"
    by (rule l1 [THEN conjunct1, THEN spec, THEN spec, THEN spec, THEN mp])
  show "pg_read B h m p w = (r2, w') \<Longrightarrow> still B V w w' \<and> (\<forall>b. r2 = Inr b \<longrightarrow> sv_pages V m p = Some b)"
    by (rule l2 [THEN conjunct1, THEN spec, THEN spec, THEN spec, THEN spec, THEN mp])
  show "pg_manifest B h m w = (r3, w') \<Longrightarrow> still B V w w'"
    by (rule l2 [THEN conjunct2, THEN conjunct1, THEN spec, THEN spec, THEN spec, THEN mp])
  show "tr_ensure_durable B h ms w = (r4, w') \<Longrightarrow> still B V w w'"
    by (rule l2 [THEN conjunct2, THEN conjunct2, THEN spec, THEN spec, THEN spec, THEN mp])
qed

lemma opens_lawD:
  assumes "opens_law B V w"
  shows "sb_open B d w = (r, w') \<Longrightarrow> still B V w w' \<and>
      (\<forall>h. r = Inr h \<longrightarrow> opens_as V w w' h (Some d) \<and> pg_page_size B h w' = sb_default_page_size B)"
    and "sb_open_replay B d w = (r, w') \<Longrightarrow> still B V w w' \<and>
      (\<forall>h. r = Inr h \<longrightarrow> opens_as V w w' h (Some d) \<and> pg_page_size B h w' = sb_default_page_size B)"
    and "tr_wake B d tier k w = (r, w') \<Longrightarrow> still B V w w' \<and> (\<forall>h. r = Inr h \<longrightarrow> opens_as V w w' h None)"
proof -
  note l = assms [unfolded opens_law_def]
  show "sb_open B d w = (r, w') \<Longrightarrow> still B V w w' \<and>
      (\<forall>h. r = Inr h \<longrightarrow> opens_as V w w' h (Some d) \<and> pg_page_size B h w' = sb_default_page_size B)"
    by (rule l [THEN conjunct1, THEN spec, THEN spec, THEN spec, THEN mp])
  show "sb_open_replay B d w = (r, w') \<Longrightarrow> still B V w w' \<and>
      (\<forall>h. r = Inr h \<longrightarrow> opens_as V w w' h (Some d) \<and> pg_page_size B h w' = sb_default_page_size B)"
    by (rule l [THEN conjunct2, THEN conjunct1, THEN spec, THEN spec, THEN spec, THEN mp])
  show "tr_wake B d tier k w = (r, w') \<Longrightarrow> still B V w w' \<and> (\<forall>h. r = Inr h \<longrightarrow> opens_as V w w' h None)"
    by (rule l [THEN conjunct2, THEN conjunct2, THEN spec, THEN spec, THEN spec, THEN spec, THEN spec, THEN mp])
qed

lemma stages_lawD:
  assumes "stages_law B V w h"
  shows "pg_begin B h w = (r1, w') \<Longrightarrow> still B V w w' \<and> (\<forall>t. r1 = Inr t \<longrightarrow> sv_staged V t = Map.empty)"
    and "pg_write B h t p b w = (r2, w') \<Longrightarrow> still B V w w' \<and>
      (\<forall>t'. r2 = Inr t' \<longrightarrow> sv_staged V t' = (sv_staged V t)(p \<mapsto> Some b))"
    and "pg_remove B h t p w = (r2, w') \<Longrightarrow> still B V w w' \<and>
      (\<forall>t'. r2 = Inr t' \<longrightarrow> sv_staged V t' = (sv_staged V t)(p \<mapsto> None))"
proof -
  note l = assms [unfolded stages_law_def]
  note l1 = l [THEN conjunct2]
  show "pg_begin B h w = (r1, w') \<Longrightarrow> still B V w w' \<and> (\<forall>t. r1 = Inr t \<longrightarrow> sv_staged V t = Map.empty)"
    by (rule l [THEN conjunct1, THEN spec, THEN spec, THEN mp])
  show "pg_write B h t p b w = (r2, w') \<Longrightarrow> still B V w w' \<and>
      (\<forall>t'. r2 = Inr t' \<longrightarrow> sv_staged V t' = (sv_staged V t)(p \<mapsto> Some b))"
    by (rule l1 [THEN conjunct1, THEN spec, THEN spec, THEN spec, THEN spec, THEN spec, THEN mp])
  show "pg_remove B h t p w = (r2, w') \<Longrightarrow> still B V w w' \<and>
      (\<forall>t'. r2 = Inr t' \<longrightarrow> sv_staged V t' = (sv_staged V t)(p \<mapsto> None))"
    by (rule l1 [THEN conjunct2, THEN spec, THEN spec, THEN spec, THEN spec, THEN mp])
qed

lemma heads_lawD:
  assumes "heads_law B V w h"
  shows "sb_recover B h w = (r, w') \<Longrightarrow> only_moves B V h w w' \<and>
      (\<forall>d. sv_recorded V w' d = sv_recorded V w d) \<and>
      (\<forall>d. r = Inr () \<longrightarrow> sv_dir V h = Some d \<longrightarrow> pg_head B h w' = sv_recorded V w d)"
    and "sb_checkpoint B h w = (r, w') \<Longrightarrow> only_moves B V h w w' \<and> pg_head B h w' = pg_head B h w \<and>
      (\<forall>d. r = Inr () \<longrightarrow> sv_dir V h = Some d \<longrightarrow> sv_recorded V w' d = pg_head B h w)"
    and "sb_commit B h t w = (rc, w') \<Longrightarrow> only_moves B V h w w' \<and> (\<forall>e. rc = Inl e \<longrightarrow> still B V w w') \<and>
      (\<forall>m. rc = Inr m \<longrightarrow> commits_as B V h t w m w' \<and> (\<forall>d. sv_dir V h = Some d \<longrightarrow>
         sv_recorded V w' d = (if sv_staged V t = Map.empty then sv_recorded V w d else m)))"
    and "pg_commit B h t w = (rc, w') \<Longrightarrow> only_moves B V h w w' \<and>
      (\<forall>d. sv_recorded V w' d = sv_recorded V w d) \<and> (\<forall>m. rc = Inr m \<longrightarrow> commits_as B V h t w m w')"
    and "pg_rewind B h m w = (rp, w') \<Longrightarrow> only_moves B V h w w' \<and>
      (\<forall>d. sv_recorded V w' d = sv_recorded V w d) \<and> (rp = Inr () \<longrightarrow> pg_head B h w' = m)"
    and "pg_set_head_to B h m w = (rp, w') \<Longrightarrow> only_moves B V h w w' \<and>
      (\<forall>d. sv_recorded V w' d = sv_recorded V w d) \<and> (rp = Inr () \<longrightarrow> pg_head B h w' = m)"
proof -
  note l = assms [unfolded heads_law_def]
  note l2 = l [THEN conjunct2] note l3 = l2 [THEN conjunct2] note l4 = l3 [THEN conjunct2]
  note l5 = l4 [THEN conjunct2]
  show "sb_recover B h w = (r, w') \<Longrightarrow> only_moves B V h w w' \<and>
      (\<forall>d. sv_recorded V w' d = sv_recorded V w d) \<and>
      (\<forall>d. r = Inr () \<longrightarrow> sv_dir V h = Some d \<longrightarrow> pg_head B h w' = sv_recorded V w d)"
    by (rule l [THEN conjunct1, THEN spec, THEN spec, THEN mp])
  show "sb_checkpoint B h w = (r, w') \<Longrightarrow> only_moves B V h w w' \<and> pg_head B h w' = pg_head B h w \<and>
      (\<forall>d. r = Inr () \<longrightarrow> sv_dir V h = Some d \<longrightarrow> sv_recorded V w' d = pg_head B h w)"
    by (rule l2 [THEN conjunct1, THEN spec, THEN spec, THEN mp])
  show "sb_commit B h t w = (rc, w') \<Longrightarrow> only_moves B V h w w' \<and> (\<forall>e. rc = Inl e \<longrightarrow> still B V w w') \<and>
      (\<forall>m. rc = Inr m \<longrightarrow> commits_as B V h t w m w' \<and> (\<forall>d. sv_dir V h = Some d \<longrightarrow>
         sv_recorded V w' d = (if sv_staged V t = Map.empty then sv_recorded V w d else m)))"
    by (rule l3 [THEN conjunct1, THEN spec, THEN spec, THEN spec, THEN mp])
  show "pg_commit B h t w = (rc, w') \<Longrightarrow> only_moves B V h w w' \<and>
      (\<forall>d. sv_recorded V w' d = sv_recorded V w d) \<and> (\<forall>m. rc = Inr m \<longrightarrow> commits_as B V h t w m w')"
    by (rule l4 [THEN conjunct1, THEN spec, THEN spec, THEN spec, THEN mp])
  show "pg_rewind B h m w = (rp, w') \<Longrightarrow> only_moves B V h w w' \<and>
      (\<forall>d. sv_recorded V w' d = sv_recorded V w d) \<and> (rp = Inr () \<longrightarrow> pg_head B h w' = m)"
    by (rule l5 [THEN conjunct1, THEN spec, THEN spec, THEN spec, THEN mp])
  show "pg_set_head_to B h m w = (rp, w') \<Longrightarrow> only_moves B V h w w' \<and>
      (\<forall>d. sv_recorded V w' d = sv_recorded V w d) \<and> (rp = Inr () \<longrightarrow> pg_head B h w' = m)"
    by (rule l5 [THEN conjunct2, THEN spec, THEN spec, THEN spec, THEN mp])
qed

subsection \<open>The kernel over a store\<close>

locale store_reader =
  fixes P :: "('x, 't) page_store" and J :: "'x \<Rightarrow> bool"
  assumes resolve_keeps: "J x \<Longrightarrow> J (snd (pst_resolve P x m))"
    and read_keeps: "J x \<Longrightarrow> J (snd (pst_read P x m p))"
begin

lemma hydrate_pages_keeps: "J x \<Longrightarrow> J (snd (hydrate_pages P ps m pages bs x))"
proof (induction pages arbitrary: bs x)
  case Nil
  then show ?case by simp
next
  case (Cons p pages)
  obtain r x' where rd: "pst_read P x m p = (r, x')" by fastforce
  with read_keeps [OF Cons.prems, of m p] have "J x'" by simp
  with Cons rd show ?case by (cases r) (simp_all add: Let_def)
qed

lemma hydrate_keeps: "J x \<Longrightarrow> J (fst (snd (hydrate P x m path f)))"
proof -
  assume J: "J x"
  obtain r x1 where rs: "pst_resolve P x m = (r, x1)" by fastforce
  with resolve_keeps [OF J, of m] have J1: "J x1" by simp
  show ?thesis
  proof (cases r)
    case (Inl e)
    with rs J1 show ?thesis by (simp add: hydrate_def Let_def)
  next
    case (Inr l)
    obtain r2 x2 where hp: "hydrate_pages P (pst_page_size P x) m (map fst l) [] x1 = (r2, x2)" by fastforce
    with hydrate_pages_keeps [OF J1, of "pst_page_size P x" m "map fst l" "[]"] have "J x2" by simp
    with rs Inr hp show ?thesis
      by (auto simp: hydrate_def Let_def split: sum.splits prod.splits io_error.splits)
  qed
qed

lemma kernel_open_keeps: "J x \<Longrightarrow> J (fst (snd (kernel_open D P x opts f)))"
proof -
  assume J: "J x"
  obtain d f1 where t: "duck_temp_dir D f = (d, f1)" by fastforce
  show ?thesis
  proof (cases d)
    case (Inl e)
    with t J show ?thesis by (simp add: kernel_open_def)
  next
    case (Inr dir)
    obtain r x1 f2 where h: "hydrate P x (pst_head P x) (join dir SCRATCH_FILE) f1 = (r, x1, f2)"
      by (cases "hydrate P x (pst_head P x) (join dir SCRATCH_FILE) f1") auto
    with hydrate_keeps [OF J, of "pst_head P x" "join dir SCRATCH_FILE" f1] have "J x1" by simp
    with t Inr h show ?thesis
      by (auto simp: kernel_open_def Let_def split: sum.splits option.splits prod.splits)
  qed
qed

end

locale store_stager = store_reader +
  assumes begin_keeps: "J x \<Longrightarrow> J (snd (pst_begin P x))"
    and write_keeps: "J x \<Longrightarrow> J (snd (pst_write P x t p b))"
    and remove_keeps: "J x \<Longrightarrow> J (snd (pst_remove P x t p))"
begin

lemma stage_chunks_keeps: "J x \<Longrightarrow> J (snd (stage_chunks P head old i cs t x))"
proof (induction cs arbitrary: i t x)
  case Nil
  then show ?case by simp
next
  case (Cons c cs)
  obtain r1 x1 where rd: "pst_read P x head (word_of_nat i) = (r1, x1)" by fastforce
  with read_keeps [OF Cons.prems, of head "word_of_nat i"] have J1: "J x1" by simp
  obtain r2 x2 where w2: "pst_write P x1 t (word_of_nat i) c = (r2, x2)" by fastforce
  with write_keeps [OF J1, of t "word_of_nat i" c] have J2: "J x2" by simp
  obtain r3 x3 where w3: "pst_write P x t (word_of_nat i) c = (r3, x3)" by fastforce
  with write_keeps [OF Cons.prems, of t "word_of_nat i" c] have J3: "J x3" by simp
  show ?case
  proof (cases "map_of old (word_of_nat i)")
    case None
    with w3 J3 Cons.IH show ?thesis by (cases r3) (simp_all add: Let_def)
  next
    case (Some v)
    show ?thesis
    proof (cases r1)
      case (Inl e)
      with Some rd J1 show ?thesis by (simp add: Let_def)
    next
      case (Inr existing)
      with Some rd w2 J1 J2 Cons.IH show ?thesis
        by (cases r2; cases "existing = c") (simp_all add: Let_def)
    qed
  qed
qed

lemma stage_removals_keeps: "J x \<Longrightarrow> J (snd (stage_removals P pages t x))"
proof (induction pages arbitrary: t x)
  case Nil
  then show ?case by simp
next
  case (Cons p pages)
  obtain r x1 where rm: "pst_remove P x t p = (r, x1)" by fastforce
  with remove_keeps [OF Cons.prems, of t p] have "J x1" by simp
  with Cons.IH rm show ?case by (cases r) simp_all
qed

lemma stage_file_keeps: "J x \<Longrightarrow> J (snd (stage_file P ps head bs x))"
proof -
  assume J: "J x"
  obtain r1 x1 where rs: "pst_resolve P x head = (r1, x1)" by fastforce
  with resolve_keeps [OF J, of head] have J1: "J x1" by simp
  obtain r2 x2 where b: "pst_begin P x1 = (r2, x2)" by fastforce
  with begin_keeps [OF J1] have J2: "J x2" by simp
  show ?thesis
  proof (cases r1)
    case (Inl e)
    with rs J1 show ?thesis by (simp add: stage_file_def)
  next
    case old: (Inr old)
    show ?thesis
    proof (cases r2)
      case (Inl e)
      with rs old b J2 show ?thesis by (simp add: stage_file_def)
    next
      case (Inr t)
      obtain r3 x3 where c: "stage_chunks P head old 0 (chunks ps bs) t x2 = (r3, x3)" by fastforce
      with stage_chunks_keeps [OF J2, of head old 0 "chunks ps bs" t] have "J x3" by simp
      with stage_removals_keeps rs old b Inr c show ?thesis
        by (cases r3) (simp_all add: stage_file_def Let_def)
    qed
  qed
qed

end

locale kernel_store = store_stager +
  assumes commit_keeps: "J x \<Longrightarrow> J (snd (pst_commit P x t))"
begin

lemma persist_keeps: "J x \<Longrightarrow> J (fst (snd (persist P x path f)))"
proof -
  assume J: "J x"
  obtain r f1 where rd: "fs_read f path = (r, f1)" by fastforce
  show ?thesis
  proof (cases r)
    case (Inl e)
    with rd J show ?thesis by (simp add: persist_def Let_def)
  next
    case (Inr bs)
    obtain r2 x2 where s: "stage_file P (pst_page_size P x) (pst_head P x) bs x = (r2, x2)" by fastforce
    with stage_file_keeps [OF J, of "pst_page_size P x" "pst_head P x" bs] have "J x2" by simp
    then have "J x3" if "pst_commit P x2 t = (r3, x3)" for t r3 x3 using commit_keeps [of x2 t] that by simp
    with \<open>J x2\<close> J rd Inr s show ?thesis
      by (cases r2) (auto simp: persist_def Let_def split: prod.splits sum.splits)
  qed
qed

lemma kernel_checkpoint_keeps: "J x \<Longrightarrow> J (fst (snd (snd (kernel_checkpoint D P k x f))))"
proof -
  assume J: "J x"
  obtain r k1 f1 where w: "fold_wal D k f = (r, k1, f1)" by (cases "fold_wal D k f") auto
  obtain r2 x2 f2 where p: "persist P x (k_path k1) f1 = (r2, x2, f2)" by (cases "persist P x (k_path k1) f1") auto
  with persist_keeps [OF J, of "k_path k1" f1] have "J x2" by simp
  with J w p show ?thesis by (cases r) (simp_all add: kernel_checkpoint_def)
qed

end

subsection \<open>The stores provide the interface\<close>

lemma store_commit_moves:
  assumes "substrate_law B V" "sv_inv V w" "sv_live V w (store_pager st)"
    and "pst_commit (store_page_store B st) w t = (r, w')"
  shows "only_moves B V (store_pager st) w w' \<and> (\<forall>m. r = Inr m \<longrightarrow> commits_as B V (store_pager st) t w m w')"
proof (cases st)
  case (Local h)
  obtain q w2 where c: "sb_commit B h t w = (q, w2)" by fastforce
  with assms(4) Local have "r = map_err (sb_backend B) q" "w' = w2"
    by (auto simp: delegate_to_pager_def durable_commit_def)
  with heads_lawD(3) [OF substrate_lawD(4) [OF assms(1,2)] c] assms(3) Local show ?thesis by simp
next
  case (Tiered h)
  with assms(4) have "pg_commit B h t w = (r, w')" by (simp add: delegate_to_pager_def tiered_commit_def)
  with heads_lawD(4) [OF substrate_lawD(4) [OF assms(1,2)] this] assms(3) Tiered show ?thesis by simp
qed

interpretation core_stager: store_stager "store_page_store B st"
  "\<lambda>w. (substrate_law B V \<and> sv_live V w0 (store_pager st)) \<and> still B V w0 w"
  for B st V w0
proof
  fix x
  assume J: "(substrate_law B V \<and> sv_live V w0 (store_pager st)) \<and> still B V w0 x"
  then have law: "substrate_law B V" and inv: "sv_inv V x" and live: "sv_live V x (store_pager st)"
    by (auto simp: still_def)
  note rd = reads_lawD [OF substrate_lawD(2) [OF law inv live]]
    and sg = stages_lawD [OF substrate_lawD(3) [OF law inv live]]
  have step: "(substrate_law B V \<and> sv_live V w0 (store_pager st)) \<and> still B V w0 w'" if "still B V x w'" for w'
    using J that by (auto intro: still_trans)
  show "(substrate_law B V \<and> sv_live V w0 (store_pager st)) \<and>
      still B V w0 (snd (pst_resolve (store_page_store B st) x m))" for m
    by (intro step) (cases "pg_resolve B (store_pager st) m x", simp add: rd(2))
  show "(substrate_law B V \<and> sv_live V w0 (store_pager st)) \<and>
      still B V w0 (snd (pst_read (store_page_store B st) x m p))" for m p
    by (intro step) (cases "pg_read B (store_pager st) m p x", simp add: rd(3))
  show "(substrate_law B V \<and> sv_live V w0 (store_pager st)) \<and>
      still B V w0 (snd (pst_begin (store_page_store B st) x))"
    by (intro step) (cases "pg_begin B (store_pager st) x", simp add: sg(1))
  show "(substrate_law B V \<and> sv_live V w0 (store_pager st)) \<and>
      still B V w0 (snd (pst_write (store_page_store B st) x t p b))" for t p b
    by (intro step) (cases "pg_write B (store_pager st) t p b x", simp add: sg(2))
  show "(substrate_law B V \<and> sv_live V w0 (store_pager st)) \<and>
      still B V w0 (snd (pst_remove (store_page_store B st) x t p))" for t p
    by (intro step) (cases "pg_remove B (store_pager st) t p x", simp add: sg(3))
qed

text \<open>What a checkpoint that returned did last: it committed what it staged.\<close>

lemma persist_commits:
  assumes "persist P x path f = (Ok m, x', f')"
  shows "\<exists>bs t x1. stage_file P (pst_page_size P x) (pst_head P x) bs x = (Inr t, x1) \<and>
    pst_commit P x1 t = (Inr m, x')"
proof -
  obtain r f1 where rd: "fs_read f path = (r, f1)" by fastforce
  with assms obtain bs where bs: "r = Inr bs" by (cases r) (simp_all add: persist_def Let_def)
  obtain q x1 where s: "stage_file P (pst_page_size P x) (pst_head P x) bs x = (q, x1)" by fastforce
  with assms rd bs obtain t where t: "q = Inr t"
    by (cases q) (simp_all add: persist_def Let_def split: if_splits)
  obtain c x2 where c: "pst_commit P x1 t = (c, x2)" by fastforce
  with assms rd bs s t have "c = Inr m" "x2 = x'"
    by (cases c; simp add: persist_def Let_def split: if_splits)+
  with s t c show ?thesis by blast
qed

interpretation core_store: kernel_store "store_page_store B st"
  "\<lambda>w. (substrate_law B V \<and> sv_live V w0 (store_pager st)) \<and> only_moves B V (store_pager st) w0 w"
  for B st V w0
proof
  fix x
  let ?J = "\<lambda>w. (substrate_law B V \<and> sv_live V w0 (store_pager st)) \<and> only_moves B V (store_pager st) w0 w"
  assume J: "?J x"
  then have law: "substrate_law B V" and inv: "sv_inv V x" and live: "sv_live V x (store_pager st)"
    by (auto simp: only_moves_def)
  note rd = reads_lawD [OF substrate_lawD(2) [OF law inv live]]
    and sg = stages_lawD [OF substrate_lawD(3) [OF law inv live]]
  have step: "?J w'" if "still B V x w'" for w'
    using J still_only_moves [OF that, of "store_pager st"] by (auto intro: only_moves_trans)
  show "?J (snd (pst_resolve (store_page_store B st) x m))" for m
    by (intro step) (cases "pg_resolve B (store_pager st) m x", simp add: rd(2))
  show "?J (snd (pst_read (store_page_store B st) x m p))" for m p
    by (intro step) (cases "pg_read B (store_pager st) m p x", simp add: rd(3))
  show "?J (snd (pst_begin (store_page_store B st) x))"
    by (intro step) (cases "pg_begin B (store_pager st) x", simp add: sg(1))
  show "?J (snd (pst_write (store_page_store B st) x t p b))" for t p b
    by (intro step) (cases "pg_write B (store_pager st) t p b x", simp add: sg(2))
  show "?J (snd (pst_remove (store_page_store B st) x t p))" for t p
    by (intro step) (cases "pg_remove B (store_pager st) t p x", simp add: sg(3))
  show "?J (snd (pst_commit (store_page_store B st) x t))" for t
  proof (cases "pst_commit (store_page_store B st) x t")
    case (Pair r w')
    from store_commit_moves [OF law inv live this] J Pair show ?thesis
      by (auto intro: only_moves_trans)
  qed
qed

text \<open>The contract of the kernel's paging holds for both stores.\<close>

lemma core_store_law:
  assumes "substrate_law B V"
  shows "store_law (store_page_store B st) (\<lambda>w. sv_inv V w \<and> sv_live V w (store_pager st)) (sv_pages V) (sv_staged V)"
  unfolding store_law_def
proof (intro allI impI)
  fix w
  let ?I = "\<lambda>w. sv_inv V w \<and> sv_live V w (store_pager st)"
  assume I: "?I w"
  then have inv: "sv_inv V w" and live: "sv_live V w (store_pager st)" by simp_all
  note rd = reads_lawD [OF substrate_lawD(2) [OF assms inv live]]
    and sg = stages_lawD [OF substrate_lawD(3) [OF assms inv live]]
  have frame: "store_frame (store_page_store B st) ?I w w'" if "still B V w w'" for w'
    using that live by (simp add: still_def store_frame_def)
  have commit: "?I w' \<and> pst_head (store_page_store B st) w' = m \<and>
      pst_page_size (store_page_store B st) w' = pst_page_size (store_page_store B st) w \<and>
      sv_pages V m = apply_changes (sv_pages V (pst_head (store_page_store B st) w)) (sv_staged V t) \<and>
      (sv_staged V t = Map.empty \<longrightarrow> m = pst_head (store_page_store B st) w)"
    if "pst_commit (store_page_store B st) w t = (Inr m, w')" for t m w'
    using store_commit_moves [OF assms inv live that] live by (simp add: only_moves_def commits_as_def)
  let ?P = "store_page_store B st"
  have c0: "0 < pst_page_size ?P w" by (simp add: rd(1))
  have c1: "\<forall>m r x'. pst_resolve ?P w m = (r, x') \<longrightarrow> store_frame ?P ?I w x' \<and>
      (\<forall>l. r = Inr l \<longrightarrow> bt_ok l \<and> fst ` set l = dom (sv_pages V m))"
    using rd(2) frame unfolding store_page_store_simps by blast
  have c2: "\<forall>m p r x'. pst_read ?P w m p = (r, x') \<longrightarrow> store_frame ?P ?I w x' \<and>
      (\<forall>b. r = Inr b \<longrightarrow> sv_pages V m p = Some b)"
    using rd(3) frame unfolding store_page_store_simps by blast
  have c3: "\<forall>r x'. pst_begin ?P w = (r, x') \<longrightarrow> store_frame ?P ?I w x' \<and>
      (\<forall>t. r = Inr t \<longrightarrow> sv_staged V t = Map.empty)"
    using sg(1) frame unfolding store_page_store_simps by blast
  have c4: "\<forall>t p b r x'. pst_write ?P w t p b = (r, x') \<longrightarrow> store_frame ?P ?I w x' \<and>
      (\<forall>t'. r = Inr t' \<longrightarrow> sv_staged V t' = (sv_staged V t)(p \<mapsto> Some b))"
    using sg(2) frame unfolding store_page_store_simps by blast
  have c5: "\<forall>t p r x'. pst_remove ?P w t p = (r, x') \<longrightarrow> store_frame ?P ?I w x' \<and>
      (\<forall>t'. r = Inr t' \<longrightarrow> sv_staged V t' = (sv_staged V t)(p \<mapsto> None))"
    using sg(3) frame unfolding store_page_store_simps by blast
  have c6: "\<forall>t m x'. pst_commit ?P w t = (Inr m, x') \<longrightarrow> ?I x' \<and> pst_head ?P x' = m \<and>
      pst_page_size ?P x' = pst_page_size ?P w \<and>
      sv_pages V m = apply_changes (sv_pages V (pst_head ?P w)) (sv_staged V t) \<and>
      (sv_staged V t = Map.empty \<longrightarrow> m = pst_head ?P w)"
    using commit by blast
  show "0 < pst_page_size ?P w \<and>
     (\<forall>m r x'. pst_resolve ?P w m = (r, x') \<longrightarrow> store_frame ?P ?I w x' \<and>
        (\<forall>l. r = Inr l \<longrightarrow> bt_ok l \<and> fst ` set l = dom (sv_pages V m))) \<and>
     (\<forall>m p r x'. pst_read ?P w m p = (r, x') \<longrightarrow> store_frame ?P ?I w x' \<and>
        (\<forall>b. r = Inr b \<longrightarrow> sv_pages V m p = Some b)) \<and>
     (\<forall>r x'. pst_begin ?P w = (r, x') \<longrightarrow> store_frame ?P ?I w x' \<and> (\<forall>t. r = Inr t \<longrightarrow> sv_staged V t = Map.empty)) \<and>
     (\<forall>t p b r x'. pst_write ?P w t p b = (r, x') \<longrightarrow> store_frame ?P ?I w x' \<and>
        (\<forall>t'. r = Inr t' \<longrightarrow> sv_staged V t' = (sv_staged V t)(p \<mapsto> Some b))) \<and>
     (\<forall>t p r x'. pst_remove ?P w t p = (r, x') \<longrightarrow> store_frame ?P ?I w x' \<and>
        (\<forall>t'. r = Inr t' \<longrightarrow> sv_staged V t' = (sv_staged V t)(p \<mapsto> None))) \<and>
     (\<forall>t m x'. pst_commit ?P w t = (Inr m, x') \<longrightarrow> ?I x' \<and> pst_head ?P x' = m \<and>
        pst_page_size ?P x' = pst_page_size ?P w \<and>
        sv_pages V m = apply_changes (sv_pages V (pst_head ?P w)) (sv_staged V t) \<and>
        (sv_staged V t = Map.empty \<longrightarrow> m = pst_head ?P w))"
    by (intro conjI c0 c1 c2 c3 c4 c5 c6)
qed

subsection \<open>A small world\<close>

text \<open>
  For the concrete instances: handles are numbered with their directory, the world lists their heads
  and what each directory records, and the pages are those of \<open>demo_view\<close>. A commit of no change
  returns the head, any other is refused. Pages and manifests put in a store are listed; the parent
  of manifest 1 is the empty one.
\<close>

type_synonym demo_handle = "nat \<times> path option"

record demo_world =
  dw_open :: "(path option \<times> manifest_id) list"
  dw_recorded :: "(path \<times> manifest_id) list"
  dw_pages :: "page_id list"
  dw_manifests :: "manifest_id list"

definition demo_live :: "demo_world \<Rightarrow> demo_handle \<Rightarrow> bool" where
  "demo_live w h \<longleftrightarrow> fst h < length (dw_open w) \<and> fst (dw_open w ! fst h) = snd h"

definition demo_head :: "demo_handle \<Rightarrow> demo_world \<Rightarrow> manifest_id" where
  "demo_head h w = (if fst h < length (dw_open w) then snd (dw_open w ! fst h) else ManifestId [])"

definition demo_recorded :: "demo_world \<Rightarrow> path \<Rightarrow> manifest_id" where
  "demo_recorded w d = (case map_of (dw_recorded w) d of Some m \<Rightarrow> m | None \<Rightarrow> ManifestId [])"

definition demo_set :: "demo_handle \<Rightarrow> manifest_id \<Rightarrow> demo_world \<Rightarrow> demo_world" where
  "demo_set h m w = w\<lparr>dw_open := (dw_open w)[fst h := (snd h, m)]\<rparr>"

definition demo_open_at :: "path option \<Rightarrow> demo_world \<Rightarrow> demo_handle \<times> demo_world" where
  "demo_open_at d w = ((length (dw_open w), d), w\<lparr>dw_open := dw_open w @ [(d, ManifestId [])]\<rparr>)"

definition demo_subst :: "(demo_world, demo_handle, (page_no \<times> bytes option) list, manifest_id, unit) substrate" where
  "demo_subst =
     \<lparr>sb_open = (\<lambda>d w. map_prod Inr id (demo_open_at (Some d) w)),
      sb_open_replay = (\<lambda>d w. map_prod Inr id (demo_open_at (Some d) w)),
      sb_recover = (\<lambda>h w. (Inr (), case snd h of Some d \<Rightarrow> demo_set h (demo_recorded w d) w | None \<Rightarrow> w)),
      sb_checkpoint = (\<lambda>h w. (Inr (), case snd h of
         Some d \<Rightarrow> w\<lparr>dw_recorded := (d, demo_head h w) # dw_recorded w\<rparr> | None \<Rightarrow> w)),
      sb_commit = (\<lambda>h t w. (if t = [] then Inr (demo_head h w) else Inl ''full'', w)),
      sb_commit_at = (\<lambda>h t now w. (if t = [] then Inr (demo_head h w) else Inl ''full'', w)),
      sb_backend = id, sb_default_page_size = 4,
      pg_page_size = (\<lambda>_ _. 4), pg_head = demo_head,
      pg_resolve = (\<lambda>h m w. (fst (pst_resolve demo_pst m m), w)),
      pg_read = (\<lambda>h m p w. (fst (pst_read demo_pst m m p), w)),
      pg_begin = (\<lambda>h w. (Inr [], w)), pg_write = (\<lambda>h t p b w. (Inr ((p, Some b) # t), w)),
      pg_remove = (\<lambda>h t p w. (Inr ((p, None) # t), w)),
      pg_commit = (\<lambda>h t w. (if t = [] then Inr (demo_head h w) else Inl ''full'', w)),
      pg_manifest = (\<lambda>h m w. (Inr m, w)),
      pg_rewind = (\<lambda>h m w. (Inr (), demo_set h m w)), pg_set_head_to = (\<lambda>h m w. (Inr (), demo_set h m w)),
      mf_overlay_base = (\<lambda>_. None),
      mf_parent = (\<lambda>m. if m = ManifestId [1] then Some (ManifestId []) else None),
      cas_get = (\<lambda>h i w. (Inr (case i of PageId b \<Rightarrow> b), w)), cas_put = (\<lambda>h b w. (Inr (PageId b), w\<lparr>dw_pages := PageId b # dw_pages w\<rparr>)),
      ms_put = (\<lambda>h m w. (Inr (), w\<lparr>dw_manifests := m # dw_manifests w\<rparr>)),
      tr_open = (\<lambda>d tier config w. map_prod Inr id (demo_open_at None w)),
      tr_wake = (\<lambda>d tier token w. (Inr (length (dw_open w), None), w\<lparr>dw_open := dw_open w @ [(None, wt_manifest token)]\<rparr>)),
      tr_ensure_durable = (\<lambda>h ms w. (Inr (), w)),
      tr_sleep = (\<lambda>h w. (Inr \<lparr>wt_pool = [], wt_manifest = demo_head h w, wt_page_size = 4\<rparr>, w))\<rparr>"

definition demo_obs :: "(demo_world, demo_handle, (page_no \<times> bytes option) list) substrate_view" where
  "demo_obs = \<lparr>sv_inv = (\<lambda>_. True), sv_live = demo_live, sv_dir = snd, sv_recorded = demo_recorded,
     sv_pages = demo_view, sv_staged = map_of\<rparr>"

lemma demo_obs_simps [simp]:
  "sv_inv demo_obs w" "sv_live demo_obs = demo_live" "sv_dir demo_obs = snd"
  "sv_recorded demo_obs = demo_recorded" "sv_pages demo_obs = demo_view" "sv_staged demo_obs = map_of"
  "pg_head demo_subst = demo_head" "pg_page_size demo_subst h w = 4"
  by (simp_all add: demo_obs_def demo_subst_def)

lemma demo_head_set: "demo_live w h \<Longrightarrow> demo_head g (demo_set h m w) = (if fst g = fst h then m else demo_head g w)"
  by (auto simp: demo_head_def demo_set_def demo_live_def)

lemma demo_live_set: "demo_live w h \<Longrightarrow> demo_live (demo_set h m w) g = demo_live w g"
  by (auto simp: demo_live_def demo_set_def nth_list_update)

lemma demo_recorded_set [simp]: "demo_recorded (demo_set h m w) = demo_recorded w"
  by (simp add: demo_recorded_def demo_set_def fun_eq_iff)

lemma demo_recorded_cons:
  "demo_recorded (w\<lparr>dw_recorded := (d, m) # l\<rparr>) e = (if e = d then m else demo_recorded (w\<lparr>dw_recorded := l\<rparr>) e)"
  by (simp add: demo_recorded_def)

lemma demo_record_frame [simp]:
  "demo_head g (w\<lparr>dw_recorded := l\<rparr>) = demo_head g w" "demo_live (w\<lparr>dw_recorded := l\<rparr>) g = demo_live w g"
  "w\<lparr>dw_recorded := dw_recorded w\<rparr> = w"
  by (simp_all add: demo_head_def demo_live_def)

lemma demo_live_eq: "demo_live w h \<Longrightarrow> demo_live w g \<Longrightarrow> fst g = fst h \<Longrightarrow> g = h"
  by (auto simp: demo_live_def intro: prod_eqI)

lemma demo_set_moves: "demo_live w h \<Longrightarrow> only_moves demo_subst demo_obs h w (demo_set h m w)"
  using demo_live_eq [of w h] by (auto simp: only_moves_def demo_head_set demo_live_set)

lemma demo_open_still:
  "demo_open_at d w = (h, w') \<Longrightarrow> still demo_subst demo_obs w w' \<and> opens_as demo_obs w w' h d"
  by (auto simp: demo_open_at_def still_def opens_as_def demo_live_def demo_head_def demo_recorded_def nth_append)

lemma demo_subst_simps [simp]:
  "sb_open demo_subst d w = map_prod Inr id (demo_open_at (Some d) w)"
  "sb_open_replay demo_subst d w = map_prod Inr id (demo_open_at (Some d) w)"
  "tr_wake demo_subst d tier k w = (Inr (length (dw_open w), None), w\<lparr>dw_open := dw_open w @ [(None, wt_manifest k)]\<rparr>)"
  "sb_default_page_size demo_subst = 4"
  "sb_recover demo_subst h w = (Inr (), case snd h of Some d \<Rightarrow> demo_set h (demo_recorded w d) w | None \<Rightarrow> w)"
  "sb_checkpoint demo_subst h w = (Inr (), case snd h of
     Some d \<Rightarrow> w\<lparr>dw_recorded := (d, demo_head h w) # dw_recorded w\<rparr> | None \<Rightarrow> w)"
  "sb_commit demo_subst h t w = (if t = [] then Inr (demo_head h w) else Inl ''full'', w)"
  "pg_commit demo_subst h t w = (if t = [] then Inr (demo_head h w) else Inl ''full'', w)"
  "pg_resolve demo_subst h m w = (fst (pst_resolve demo_pst m m), w)"
  "pg_read demo_subst h m p w = (fst (pst_read demo_pst m m p), w)"
  "pg_begin demo_subst h w = (Inr [], w)" "pg_write demo_subst h t p b w = (Inr ((p, Some b) # t), w)"
  "pg_remove demo_subst h t p w = (Inr ((p, None) # t), w)"
  "pg_manifest demo_subst h m w = (Inr m, w)" "pg_rewind demo_subst h m w = (Inr (), demo_set h m w)"
  "pg_set_head_to demo_subst h m w = (Inr (), demo_set h m w)" "tr_ensure_durable demo_subst h ms w = (Inr (), w)"
  by (simp_all add: demo_subst_def)

lemma demo_still [simp]: "still demo_subst demo_obs w w"
  by (rule still_refl) simp

lemma demo_opened:
  "map_prod Inr id (demo_open_at d w) = (r :: 'e + demo_handle, w') \<Longrightarrow>
     still demo_subst demo_obs w w' \<and> (\<forall>h. r = Inr h \<longrightarrow> opens_as demo_obs w w' h d)"
  using demo_open_still [of d w] by (cases "demo_open_at d w") auto

lemma demo_woken:
  "still demo_subst demo_obs w (w\<lparr>dw_open := dw_open w @ [(d, m)]\<rparr>)"
  "opens_as demo_obs w (w\<lparr>dw_open := dw_open w @ [(d, m)]\<rparr>) (length (dw_open w), d) d"
  by (auto simp: still_def opens_as_def demo_live_def demo_head_def demo_recorded_def nth_append)

lemma demo_opens: "opens_law demo_subst demo_obs w"
  unfolding opens_law_def by (intro conjI allI impI) (auto dest: demo_opened simp: demo_woken)

lemma demo_reads: "reads_law demo_subst demo_obs w h"
proof -
  have res: "bt_ok l \<and> fst ` set l = dom (demo_view m)" if "fst (pst_resolve demo_pst m m) = Inr l" for m l
    using store_lawD(2) [OF demo_pst_law TrueI, of m m "Inr l" "snd (pst_resolve demo_pst m m)"] that
    by (metis prod.collapse)
  have rd: "demo_view m p = Some b" if "fst (pst_read demo_pst m m p) = Inr b" for m p b
    using store_lawD(3) [OF demo_pst_law TrueI, of m m p "Inr b" "snd (pst_read demo_pst m m p)"] that
    by (metis prod.collapse)
  show ?thesis
    unfolding reads_law_def by (intro conjI allI impI) (use res rd in auto)
qed

lemma demo_stages: "stages_law demo_subst demo_obs w h"
  unfolding stages_law_def by (intro conjI allI impI) auto

lemma demo_heads:
  assumes live: "demo_live w h"
  shows "heads_law demo_subst demo_obs w h"
proof -
  have moves: "only_moves demo_subst demo_obs h w w" by (rule only_moves_refl) simp
  have d: "demo_live w h \<Longrightarrow> snd h = Some e \<Longrightarrow>
      only_moves demo_subst demo_obs h w (w\<lparr>dw_recorded := (e, m) # dw_recorded w\<rparr>)" for e m
    by (auto simp: only_moves_def demo_recorded_cons)
  show ?thesis
    unfolding heads_law_def
    by (intro conjI allI impI)
      (use live moves demo_set_moves [OF live] d in
        \<open>auto simp: demo_head_set demo_recorded_cons commits_as_def apply_changes_def
          split: option.splits if_splits\<close>)
qed

lemma demo_law: "substrate_law demo_subst demo_obs"
  by (simp add: substrate_law_def demo_opens demo_reads demo_stages demo_heads)

end
