(* ===== verification/Core_Handles.thy ===== *)
theory Core_Handles
  imports Core_Store
begin

section \<open>The handles a kernel is given\<close>

text \<open>
  The rest of \<open>crates/flock-core/src/store.rs\<close>: \<open>DurableHandle\<close> and \<open>TieredHandle\<close> implement all of
  substrate's \<open>PageStore\<close>, every method but the commit by a macro that forwards to the pager.
  \<open>Core_Store\<close> has the methods a kernel calls (\<open>page_store\<close>); this theory has them all
  (\<open>full_store\<close>, an extension of that record), over the pager's other methods (\<open>pager_api\<close>), whose
  results are opaque. A fork is what the pager returns for it.
\<close>

record ('w, 'h, 't, 'm, 'o, 'f, 'd, 'e, 'g) pager_api = "('w, 'h, 't, 'm, 'o) substrate" +
  pa_read_head :: "'h \<Rightarrow> page_no \<Rightarrow> 'w \<Rightarrow> (pager_error + bytes) \<times> 'w"
  pa_snapshot :: "'h \<Rightarrow> 'w \<Rightarrow> (pager_error + manifest_id) \<times> 'w"
  pa_fork :: "'h \<Rightarrow> manifest_id \<Rightarrow> 'w \<Rightarrow> (pager_error + 'f) \<times> 'w"
  pa_diff :: "'h \<Rightarrow> manifest_id \<Rightarrow> manifest_id \<Rightarrow> 'w \<Rightarrow> (pager_error + 'd) \<times> 'w"
  pa_diff3 :: "'h \<Rightarrow> manifest_id \<Rightarrow> manifest_id \<Rightarrow> manifest_id \<Rightarrow> 'w \<Rightarrow> (pager_error + 'e) \<times> 'w"
  pa_gc :: "'h \<Rightarrow> manifest_id list \<Rightarrow> 'w \<Rightarrow> (pager_error + 'g) \<times> 'w"
  pa_lookup :: "'h \<Rightarrow> manifest_id \<Rightarrow> page_no \<Rightarrow> 'w \<Rightarrow> (pager_error + page_id option) \<times> 'w"
  pa_merge_base :: "'h \<Rightarrow> manifest_id \<Rightarrow> manifest_id \<Rightarrow> 'w \<Rightarrow> (pager_error + manifest_id option) \<times> 'w"
  pa_pool :: "'h \<Rightarrow> 'w \<Rightarrow> string"

record ('w, 't, 'm, 'f, 'd, 'e, 'g) full_store = "('w, 't) page_store" +
  pst_read_head :: "'w \<Rightarrow> page_no \<Rightarrow> (pager_error + bytes) \<times> 'w"
  pst_snapshot :: "'w \<Rightarrow> (pager_error + manifest_id) \<times> 'w"
  pst_fork :: "'w \<Rightarrow> manifest_id \<Rightarrow> (pager_error + 'f) \<times> 'w"
  pst_rewind :: "'w \<Rightarrow> manifest_id \<Rightarrow> (pager_error + unit) \<times> 'w"
  pst_diff :: "'w \<Rightarrow> manifest_id \<Rightarrow> manifest_id \<Rightarrow> (pager_error + 'd) \<times> 'w"
  pst_diff3 :: "'w \<Rightarrow> manifest_id \<Rightarrow> manifest_id \<Rightarrow> manifest_id \<Rightarrow> (pager_error + 'e) \<times> 'w"
  pst_gc :: "'w \<Rightarrow> manifest_id list \<Rightarrow> (pager_error + 'g) \<times> 'w"
  pst_manifest :: "'w \<Rightarrow> manifest_id \<Rightarrow> (pager_error + 'm) \<times> 'w"
  pst_lookup :: "'w \<Rightarrow> manifest_id \<Rightarrow> page_no \<Rightarrow> (pager_error + page_id option) \<times> 'w"
  pst_merge_base :: "'w \<Rightarrow> manifest_id \<Rightarrow> manifest_id \<Rightarrow> (pager_error + manifest_id option) \<times> 'w"
  pst_pool :: "'w \<Rightarrow> string"

definition forward_to_pager :: "('w, 'h, 't, 'm, 'o, 'f, 'd, 'e, 'g) pager_api \<Rightarrow> 'h \<Rightarrow>
    ('w \<Rightarrow> 't \<Rightarrow> (pager_error + manifest_id) \<times> 'w) \<Rightarrow> ('w, 't, 'm, 'f, 'd, 'e, 'g) full_store" where
  "forward_to_pager A h commit =
     page_store.extend (delegate_to_pager (substrate.truncate A) h commit)
       (full_store.fields (\<lambda>w p. pa_read_head A h p w) (pa_snapshot A h) (\<lambda>w m. pa_fork A h m w)
         (\<lambda>w m. pg_rewind A h m w) (\<lambda>w a b. pa_diff A h a b w) (\<lambda>w base a b. pa_diff3 A h base a b w)
         (\<lambda>w live. pa_gc A h live w) (\<lambda>w m. pg_manifest A h m w) (\<lambda>w m p. pa_lookup A h m p w)
         (\<lambda>w a b. pa_merge_base A h a b w) (pa_pool A h))"

definition durable_handle :: "('w, 'h, 't, 'm, 'o, 'f, 'd, 'e, 'g) pager_api \<Rightarrow> 'h \<Rightarrow>
    ('w, 't, 'm, 'f, 'd, 'e, 'g) full_store" where
  "durable_handle A h = forward_to_pager A h (durable_commit (substrate.truncate A) h)"

definition tiered_handle :: "('w, 'h, 't, 'm, 'o, 'f, 'd, 'e, 'g) pager_api \<Rightarrow> 'h \<Rightarrow>
    ('w, 't, 'm, 'f, 'd, 'e, 'g) full_store" where
  "tiered_handle A h = forward_to_pager A h (tiered_commit (substrate.truncate A) h)"

fun full_page_store :: "('w, 'h, 't, 'm, 'o, 'f, 'd, 'e, 'g) pager_api \<Rightarrow> 'h store \<Rightarrow>
    ('w, 't, 'm, 'f, 'd, 'e, 'g) full_store" where
  "full_page_store A (Local d) = durable_handle A d"
| "full_page_store A (Tiered t) = tiered_handle A t"

lemma full_page_store_simps [simp]:
  "pst_snapshot (full_page_store A st) = pa_snapshot A (store_pager st)"
  "pst_rewind (full_page_store A st) w m = pg_rewind A (store_pager st) m w"
  "pst_manifest (full_page_store A st) w m = pg_manifest A (store_pager st) m w"
  by (cases st; simp add: durable_handle_def tiered_handle_def forward_to_pager_def
      page_store.defs full_store.defs)+

text \<open>What a kernel sees of a handle is the store of \<open>Core_Store\<close>.\<close>

lemma kernel_view_of_handle:
  "page_store.truncate (full_page_store A st) = store_page_store (substrate.truncate A) st"
  by (cases st) (simp_all add: durable_handle_def tiered_handle_def forward_to_pager_def
      delegate_to_pager_def page_store.defs)

text \<open>The two handles differ in the commit and in nothing else.\<close>

lemma handles_differ_in_commit:
  "tiered_handle A h = (durable_handle A h)\<lparr>pst_commit := tiered_commit (substrate.truncate A) h\<rparr>"
  by (simp add: durable_handle_def tiered_handle_def forward_to_pager_def delegate_to_pager_def
      page_store.defs full_store.defs)

text \<open>A rewind through a handle moves the head and writes no log: reopened, the database is where it was.\<close>

lemma handle_rewind_unlogged:
  assumes "substrate_law (substrate.truncate A) V" "sv_inv V w" "sv_live V w (store_pager st)"
    and "pst_rewind (full_page_store A st) w m = (Inr (), w')"
  shows "pg_head A (store_pager st) w' = m \<and> (\<forall>d. sv_recorded V w' d = sv_recorded V w d)"
proof -
  have "pg_rewind (substrate.truncate A) (store_pager st) m w = (Inr (), w')"
    using assms(4) by (simp add: substrate.defs)
  from heads_lawD(5) [OF substrate_lawD(4) [OF assms(1-3)] this] show ?thesis
    by (simp add: substrate.defs)
qed

end
