(* ===== verification/Sync_Source.thy ===== *)
theory Sync_Source
  imports Sync_Log
begin

section \<open>The primary side of shipping\<close>

text \<open>
  \<open>crates/flock-sync/src/shipment.rs\<close> and the upper half of \<open>source.rs\<close>: shipments, and the fold
  of the log's records into one shipment per commit. Page maps are the ordered association lists a
  \<open>BTreeMap\<close> iterates as. Substrate's derivation of a manifest (base, page writes and timestamp to
  the identity of the result) and its page hash are parameters \<open>derive\<close> and \<open>hash\<close>.

  The abstract specification of the fold is \<open>chain_of\<close>: the shipments are the links of the
  primary's history from its start, each derived from the one before. \<open>shipment_source\<close> is the
  interface a follower relies on; \<open>primary\<close> interprets it on the operations of \<open>WalSource\<close>.
\<close>

subsection \<open>Shipments\<close>

type_synonym page_write = "page_no \<times> page_id option"
type_synonym page_blob = "page_id \<times> bytes"

record shipment =
  sh_base :: manifest_id
  sh_manifest :: manifest_id
  sh_lsn :: lsn
  sh_created :: u64
  sh_writes :: "page_write list"
  sh_pages :: "page_blob list"

definition bytes_for :: "shipment \<Rightarrow> page_id \<Rightarrow> bytes option" where
  "bytes_for s i = map_option snd (find (\<lambda>blob. fst blob = i) (sh_pages s))"

lemma find_map_of: "map_option snd (find (\<lambda>b. fst b = i) bs) = map_of bs i"
  by (induction bs) auto

lemma bytes_for_map_of: "bytes_for s i = map_of (sh_pages s) i"
  by (simp add: bytes_for_def find_map_of)

subsection \<open>Building shipments\<close>

fun gather :: "wal_env \<Rightarrow> lsn \<Rightarrow> page_write list \<Rightarrow> page_write list \<Rightarrow> page_blob list \<Rightarrow>
    sync_error + page_write list \<times> page_blob list" where
  "gather E lsn [] ws blobs = Inr (ws, blobs)"
| "gather E lsn ((p, None) # rest) ws blobs = gather E lsn rest (ws @ [(p, None)]) blobs"
| "gather E lsn ((p, Some i) # rest) ws blobs =
     (if \<exists>b \<in> set blobs. fst b = i then gather E lsn rest (ws @ [(p, Some i)]) blobs
      else
        (case we_cas_get E i of
           Inl _ \<Rightarrow> Inl (MissingPage lsn p i)
         | Inr bs \<Rightarrow> gather E lsn rest (ws @ [(p, Some i)]) (blobs @ [(i, bs)])))"

definition build_shipment ::
  "wal_env \<Rightarrow> manifest_id \<Rightarrow> manifest_id \<Rightarrow> lsn \<Rightarrow> u64 \<Rightarrow> page_write list \<Rightarrow> sync_error + shipment" where
  "build_shipment E base manifest commit_lsn created writes =
     (case gather E commit_lsn writes [] [] of
        Inl e \<Rightarrow> Inl e
      | Inr (ws, blobs) \<Rightarrow>
          Inr \<lparr>sh_base = base, sh_manifest = manifest, sh_lsn = commit_lsn, sh_created = created,
               sh_writes = ws, sh_pages = blobs\<rparr>)"

definition start_head :: "wal_env \<Rightarrow> wal_source \<Rightarrow> sync_error + manifest_id" where
  "start_head E w =
     (case read_checkpoint E w of
        Inl e \<Rightarrow> Inl e
      | Inr (Some (manifest, _)) \<Rightarrow> Inr manifest
      | Inr None \<Rightarrow> map_err (SyncPager ''name the empty root manifest'') (we_empty_id E (src_wal_page_size w)))"

text \<open>The loop of \<open>shipments_from\<close> over the records.\<close>

fun fold_records :: "wal_env \<Rightarrow> lsn option \<Rightarrow> lsn \<Rightarrow> wal_record list \<Rightarrow> manifest_id \<Rightarrow> page_write list \<Rightarrow>
    shipment list \<Rightarrow> sync_error + shipment list" where
  "fold_records E cp from_lsn [] base pending out = Inr out"
| "fold_records E cp from_lsn (r # rs) base pending out =
     (if (case cp of Some c \<Rightarrow> rec_lsn r \<le> c | None \<Rightarrow> False)
      then fold_records E cp from_lsn rs base pending out
      else
        (case rec_kind r of
           WriteRec p page \<Rightarrow> fold_records E cp from_lsn rs base (bt_insert p page pending) out
         | CommitRec manifest created \<Rightarrow>
             (if from_lsn \<le> rec_lsn r then
                (case build_shipment E base manifest (rec_lsn r) created pending of
                   Inl e \<Rightarrow> Inl e
                 | Inr s \<Rightarrow> fold_records E cp from_lsn rs manifest [] (out @ [s]))
              else fold_records E cp from_lsn rs manifest [] out)
         | CheckpointRec manifest \<Rightarrow> fold_records E cp from_lsn rs manifest [] out))"

definition shipments_from :: "wal_env \<Rightarrow> wal_source \<Rightarrow> lsn \<Rightarrow> (sync_error, shipment list) run" where
  "shipments_from E w from_lsn =
     (case read_checkpoint E w of
        Inl e \<Rightarrow> Some (Inl e)
      | Inr cp \<Rightarrow>
          (case start_head E w of
             Inl e \<Rightarrow> Some (Inl e)
           | Inr base \<Rightarrow>
               bind_run (records E w)
                 (\<lambda>rs. Some (fold_records E (map_option snd cp) from_lsn rs base [] []))))"

definition resume_after :: "wal_env \<Rightarrow> wal_source \<Rightarrow> manifest_id \<Rightarrow> (sync_error, lsn) run" where
  "resume_after E w head =
     (case start_head E w of
        Inl e \<Rightarrow> Some (Inl e)
      | Inr start \<Rightarrow>
          if head = start then Some (Inr 0)
          else
            bind_run (shipments_from E w 0)
              (\<lambda>ships. Some (case find (\<lambda>s. sh_manifest s = head) ships of
                 Some s \<Rightarrow> Inr (sh_lsn s + 1)
               | None \<Rightarrow> Inl (FollowerUnknown head))))"

text \<open>The scan of \<open>manifest_at\<close>: it breaks at the first commit past the LSN.\<close>

fun last_upto :: "lsn \<Rightarrow> shipment list \<Rightarrow> manifest_id option \<Rightarrow> manifest_id option" where
  "last_upto l [] at = at"
| "last_upto l (s # ss) at = (if sh_lsn s \<le> l then last_upto l ss (Some (sh_manifest s)) else at)"

definition manifest_at :: "wal_env \<Rightarrow> wal_source \<Rightarrow> lsn \<Rightarrow> (sync_error, manifest_id option) run" where
  "manifest_at E w l = bind_run (shipments_from E w 0) (\<lambda>ships. Some (Inr (last_upto l ships None)))"

subsection \<open>A primary's log\<close>

type_synonym derivation = "manifest_id \<Rightarrow> page_write list \<Rightarrow> u64 \<Rightarrow> manifest_id"

text \<open>
  The log a primary writes, from manifest \<open>base\<close> with \<open>pending\<close> writes, ignoring records up to a
  checkpoint: commit records carry the manifest substrate derived from what they follow, an inline
  checkpoint names the current state, and every page a commit set is in the store.
\<close>

fun log_true :: "derivation \<Rightarrow> wal_env \<Rightarrow> lsn option \<Rightarrow> wal_record list \<Rightarrow> manifest_id \<Rightarrow> page_write list \<Rightarrow> bool" where
  "log_true D E cp [] base pending = True"
| "log_true D E cp (r # rs) base pending =
     (if (case cp of Some c \<Rightarrow> rec_lsn r \<le> c | None \<Rightarrow> False) then log_true D E cp rs base pending
      else
        (case rec_kind r of
           WriteRec p page \<Rightarrow>
             (case page of None \<Rightarrow> True | Some i \<Rightarrow> \<not> isl (we_cas_get E i)) \<and>
             log_true D E cp rs base (bt_insert p page pending)
         | CommitRec manifest created \<Rightarrow>
             manifest = D base pending created \<and> log_true D E cp rs manifest []
         | CheckpointRec manifest \<Rightarrow> manifest = base \<and> log_true D E cp rs manifest []))"

definition lsns_ascend :: "wal_record list \<Rightarrow> bool" where
  "lsns_ascend rs \<longleftrightarrow> sorted_wrt (<) (map rec_lsn rs) \<and> (\<forall>r \<in> set rs. unat (rec_lsn r) + 1 < 2 ^ 64)"

text \<open>What the store returns under an identity hashes to it.\<close>

definition cas_true :: "wal_env \<Rightarrow> (bytes \<Rightarrow> page_id) \<Rightarrow> bool" where
  "cas_true E hash \<longleftrightarrow> (\<forall>i b. we_cas_get E i = Inr b \<longrightarrow> hash b = i)"

definition primary_ok :: "derivation \<Rightarrow> (bytes \<Rightarrow> page_id) \<Rightarrow> wal_env \<Rightarrow> wal_source \<Rightarrow> bool" where
  "primary_ok D hash E w \<longleftrightarrow>
     cas_true E hash \<and>
     (\<exists>cp start rs. read_checkpoint E w = Inr cp \<and> start_head E w = Inr start \<and>
        records E w = Some (Inr rs) \<and> lsns_ascend rs \<and> log_true D E (map_option snd cp) rs start [])"

text \<open>A link of the history: a commit whose manifest follows from its base, with all its bytes.\<close>

definition link_ok :: "derivation \<Rightarrow> (bytes \<Rightarrow> page_id) \<Rightarrow> shipment \<Rightarrow> bool" where
  "link_ok D hash s \<longleftrightarrow>
     sh_manifest s = D (sh_base s) (sh_writes s) (sh_created s) \<and> bt_ok (sh_writes s) \<and>
     (\<forall>p i. (p, Some i) \<in> set (sh_writes s) \<longrightarrow> (\<exists>b. bytes_for s i = Some b \<and> hash b = i))"

fun chain_of :: "derivation \<Rightarrow> (bytes \<Rightarrow> page_id) \<Rightarrow> manifest_id \<Rightarrow> shipment list \<Rightarrow> bool" where
  "chain_of D hash m [] = True"
| "chain_of D hash m (s # ss) = (sh_base s = m \<and> link_ok D hash s \<and> chain_of D hash (sh_manifest s) ss)"

text \<open>The manifest at the end of a chain that starts at \<open>m\<close>.\<close>

definition chain_end :: "manifest_id \<Rightarrow> shipment list \<Rightarrow> manifest_id" where
  "chain_end m ss = last (m # map sh_manifest ss)"

lemma chain_end_simps [simp]:
  "chain_end m [] = m" "chain_end m (s # ss) = chain_end (sh_manifest s) ss"
  "chain_end m (ss @ [s]) = sh_manifest s"
  by (simp_all add: chain_end_def)

lemma chain_of_append:
  "chain_of D hash m (xs @ ys) \<longleftrightarrow> chain_of D hash m xs \<and> chain_of D hash (chain_end m xs) ys"
  by (induction xs arbitrary: m) auto

subsection \<open>A gathered shipment\<close>

lemma gather_Inr:
  assumes "gather E l todo ws blobs = Inr (ws', blobs')" "cas_true E hash"
    and "distinct (map fst blobs)" "\<forall>(i, b) \<in> set blobs. hash b = i"
  shows "ws' = ws @ todo \<and> distinct (map fst blobs') \<and> (\<forall>(i, b) \<in> set blobs'. hash b = i) \<and>
    fst ` set blobs' = fst ` set blobs \<union> {i. \<exists>p. (p, Some i) \<in> set todo}"
  using assms
proof (induction E l todo ws blobs arbitrary: ws' blobs' rule: gather.induct)
  case (1 E l ws blobs)
  then show ?case by auto
next
  case (2 E l p rest ws blobs)
  then show ?case by auto
next
  case (3 E l p i rest ws blobs)
  show ?case
  proof (cases "\<exists>b \<in> set blobs. fst b = i")
    case True
    then have "i \<in> fst ` set blobs" by auto
    with 3(1) [OF True, of ws' blobs'] 3(3-6) True show ?thesis by auto
  next
    case False
    with 3(3) obtain b where b: "we_cas_get E i = Inr b"
      "gather E l rest (ws @ [(p, Some i)]) (blobs @ [(i, b)]) = Inr (ws', blobs')"
      by (auto split: sum.splits)
    have "hash b = i" using 3(4) b(1) unfolding cas_true_def by blast
    have d: "distinct (map fst (blobs @ [(i, b)]))" using 3(5) False by auto
    have h: "\<forall>(j, c) \<in> set (blobs @ [(i, b)]). hash c = j" using 3(6) \<open>hash b = i\<close> by simp
    note IH = 3(2) [OF False b(1) b(2) 3(4) d h]
    have "{j. \<exists>q. (q, Some j) \<in> set ((p, Some i) # rest)} = insert i {j. \<exists>q. (q, Some j) \<in> set rest}"
      by auto
    moreover have "fst ` set (blobs @ [(i, b)]) = insert i (fst ` set blobs)" by simp
    ultimately show ?thesis using IH by simp
  qed
qed

lemma gather_total:
  "\<forall>(p, page) \<in> set todo. (case page of None \<Rightarrow> True | Some i \<Rightarrow> \<not> isl (we_cas_get E i)) \<Longrightarrow>
     \<exists>r. gather E l todo ws blobs = Inr r"
proof (induction E l todo ws blobs rule: gather.induct)
  case (3 E l p i rest ws blobs)
  then show ?case by (cases "we_cas_get E i") auto
qed auto

text \<open>Every page of a map of writes is in the primary's store.\<close>

definition writes_stored :: "wal_env \<Rightarrow> page_write list \<Rightarrow> bool" where
  "writes_stored E ws \<longleftrightarrow>
     (\<forall>(p, page) \<in> set ws. case page of None \<Rightarrow> True | Some i \<Rightarrow> \<not> isl (we_cas_get E i))"

lemma set_bt_insert: "set (bt_insert k v m) \<subseteq> insert (k, v) (set m)"
  by (induction k v m rule: bt_insert.induct) auto

lemma writes_stored_insert:
  assumes "writes_stored E ws" "case page of None \<Rightarrow> True | Some i \<Rightarrow> \<not> isl (we_cas_get E i)"
  shows "writes_stored E (bt_insert p page ws)"
  unfolding writes_stored_def
proof (rule ballI)
  fix w
  assume "w \<in> set (bt_insert p page ws)"
  then have "w = (p, page) \<or> w \<in> set ws" using set_bt_insert [of p page ws] by blast
  then show "case w of (p, page) \<Rightarrow> (case page of None \<Rightarrow> True | Some i \<Rightarrow> \<not> isl (we_cas_get E i))"
    using assms by (auto simp: writes_stored_def)
qed

lemma build_shipment_link:
  assumes "cas_true E hash" "bt_ok ws" "writes_stored E ws" "manifest = D base ws created"
  shows "\<exists>s. build_shipment E base manifest l created ws = Inr s \<and>
    sh_base s = base \<and> sh_manifest s = manifest \<and> sh_lsn s = l \<and> link_ok D hash s"
proof -
  obtain ws' blobs where g: "gather E l ws [] [] = Inr (ws', blobs)"
    using gather_total [of ws E l "[]" "[]"] assms(3) by (auto simp: writes_stored_def)
  from gather_Inr [OF g assms(1)] have w: "ws' = ws" and b: "\<forall>(i, b) \<in> set blobs. hash b = i"
    and ids: "fst ` set blobs = {i. \<exists>p. (p, Some i) \<in> set ws}" by simp_all
  have "\<exists>b. map_of blobs i = Some b \<and> hash b = i" if "(p, Some i) \<in> set ws" for p i
  proof -
    have "i \<in> fst ` set blobs" using ids that by blast
    then obtain x where "map_of blobs i = Some x"
      by (metis map_of_eq_None_iff not_None_eq)
    with b show ?thesis by (auto dest: map_of_SomeD)
  qed
  with g w assms(2,4) show ?thesis
    by (simp add: build_shipment_def link_ok_def bytes_for_map_of)
qed

subsection \<open>The fold yields the chain of commits\<close>

lemma fold_records_chain:
  assumes "log_true D E cp rs base pending" "cas_true E hash" "bt_ok pending" "writes_stored E pending"
  shows "\<exists>ss. (\<forall>l out. fold_records E cp l rs base pending out = Inr (out @ filter (\<lambda>s. l \<le> sh_lsn s) ss)) \<and>
    chain_of D hash base ss \<and> subseq (map sh_lsn ss) (map rec_lsn rs)"
  using assms
proof (induction rs arbitrary: base pending)
  case Nil
  show ?case by (intro exI [of _ "[]"]) simp
next
  case (Cons r rs)
  show ?case
  proof (cases "case cp of Some c \<Rightarrow> rec_lsn r \<le> c | None \<Rightarrow> False")
    case True
    with Cons.prems have "log_true D E cp rs base pending" by simp
    from Cons.IH [OF this Cons.prems(2-4)] True show ?thesis by (auto intro: subseq_Cons')
  next
    case False
    show ?thesis
    proof (cases "rec_kind r")
      case (WriteRec p page)
      then have "log_true D E cp rs base (bt_insert p page pending)"
        "case page of None \<Rightarrow> True | Some i \<Rightarrow> \<not> isl (we_cas_get E i)"
        using Cons.prems(1) False by simp_all
      from Cons.IH [OF this(1) Cons.prems(2)] this(2) Cons.prems(3,4) False WriteRec
      show ?thesis by (auto intro: subseq_Cons' writes_stored_insert)
    next
      case (CommitRec manifest created)
      then have m: "manifest = D base pending created" "log_true D E cp rs manifest []"
        using Cons.prems(1) False by auto
      have "\<exists>s. build_shipment E base manifest (rec_lsn r) created pending = Inr s \<and>
          sh_base s = base \<and> sh_manifest s = manifest \<and> sh_lsn s = rec_lsn r \<and> link_ok D hash s"
        by (rule build_shipment_link [where D = D]) (fact Cons.prems m(1))+
      then obtain s where s: "build_shipment E base manifest (rec_lsn r) created pending = Inr s"
          "sh_base s = base" "sh_manifest s = manifest" "sh_lsn s = rec_lsn r" "link_ok D hash s" by (elim exE conjE)
      from Cons.IH [OF m(2) Cons.prems(2)] obtain ss where
        ss: "\<forall>l out. fold_records E cp l rs manifest [] out = Inr (out @ filter (\<lambda>s. l \<le> sh_lsn s) ss)"
          "chain_of D hash manifest ss" "subseq (map sh_lsn ss) (map rec_lsn rs)"
        by (auto simp: writes_stored_def)
      show ?thesis
        using s ss False CommitRec by (intro exI [of _ "s # ss"]) simp
    next
      case (CheckpointRec manifest)
      then have "manifest = base" "log_true D E cp rs manifest []"
        using Cons.prems(1) False by auto
      with Cons.IH [of base "[]"] Cons.prems(2) False CheckpointRec show ?thesis
        by (auto simp: writes_stored_def intro: subseq_Cons')
    qed
  qed
qed

lemma sorted_wrt_subseq: "subseq xs ys \<Longrightarrow> sorted_wrt P ys \<Longrightarrow> sorted_wrt P xs"
  by (induction rule: list_emb.induct) (auto dest: list_emb_set)

lemma primary_stream:
  assumes "primary_ok D hash E w"
  obtains start ss where "start_head E w = Inr start"
    "\<forall>l. shipments_from E w l = Some (Inr (filter (\<lambda>s. l \<le> sh_lsn s) ss))"
    "chain_of D hash start ss" "sorted_wrt (<) (map sh_lsn ss)"
    "\<forall>s \<in> set ss. unat (sh_lsn s) + 1 < 2 ^ 64"
proof -
  from assms obtain cp start rs where p: "cas_true E hash" "read_checkpoint E w = Inr cp"
    "start_head E w = Inr start" "records E w = Some (Inr rs)" "lsns_ascend rs"
    "log_true D E (map_option snd cp) rs start []"
    by (auto simp: primary_ok_def)
  from fold_records_chain [OF p(6,1)] obtain ss where
    ss: "\<forall>l out. fold_records E (map_option snd cp) l rs start [] out =
        Inr (out @ filter (\<lambda>s. l \<le> sh_lsn s) ss)"
      "chain_of D hash start ss" "subseq (map sh_lsn ss) (map rec_lsn rs)"
    by (auto simp: writes_stored_def)
  have "sorted_wrt (<) (map rec_lsn rs)" using p(5) by (simp add: lsns_ascend_def)
  then have "sorted_wrt (<) (map sh_lsn ss)" using sorted_wrt_subseq [OF ss(3)] by blast
  moreover have "unat (sh_lsn s) + 1 < 2 ^ 64" if "s \<in> set ss" for s
  proof -
    have "sh_lsn s \<in> set (map rec_lsn rs)"
      using list_emb_set [OF ss(3), of "sh_lsn s"] that by auto
    with p(5) show ?thesis by (auto simp: lsns_ascend_def)
  qed
  moreover have "shipments_from E w l = Some (Inr (filter (\<lambda>s. l \<le> sh_lsn s) ss))" for l
    using p ss(1) by (simp add: shipments_from_def)
  ultimately show ?thesis using that p(3) ss(2) by blast
qed

subsection \<open>The interface a follower relies on\<close>

text \<open>
  A source hands out the history from a start; a stream from an LSN is the history without the
  commits before it; and a follower's head tells where it resumes.
\<close>

locale shipment_source =
  fixes D :: derivation and hash :: "bytes \<Rightarrow> page_id" and ready :: "'w \<Rightarrow> bool"
    and start :: "'w \<Rightarrow> manifest_id" and stream :: "'w \<Rightarrow> lsn \<Rightarrow> shipment list"
    and resume :: "'w \<Rightarrow> manifest_id \<Rightarrow> lsn option"
  assumes chained: "ready w \<Longrightarrow> chain_of D hash (start w) (stream w 0)"
    and gated: "ready w \<Longrightarrow> stream w l = filter (\<lambda>s. l \<le> sh_lsn s) (stream w 0)"
    and ascending: "ready w \<Longrightarrow> sorted_wrt (<) (map sh_lsn (stream w 0))"
    and room: "ready w \<Longrightarrow> s \<in> set (stream w 0) \<Longrightarrow> unat (sh_lsn s) + 1 < 2 ^ 64"
    and resume_start: "ready w \<Longrightarrow> resume w (start w) = Some 0"
    and resume_link: "ready w \<Longrightarrow> m \<noteq> start w \<Longrightarrow>
      resume w m = map_option (\<lambda>s. sh_lsn s + 1) (find (\<lambda>s. sh_manifest s = m) (stream w 0))"
begin

text \<open>The history splits at a resume point: what the follower has, and what it is streamed.\<close>

lemma resume_splits:
  assumes "ready w" "resume w m = Some l"
  shows "\<exists>had. stream w 0 = had @ stream w l \<and> chain_end (start w) had = m"
proof (cases "m = start w")
  case True
  with assms have "l = 0" by (simp add: resume_start)
  with True show ?thesis by (intro exI [of _ "[]"]) simp
next
  case False
  with assms obtain s where s: "find (\<lambda>s. sh_manifest s = m) (stream w 0) = Some s" "l = sh_lsn s + 1"
    by (auto simp: resume_link)
  then have mem: "s \<in> set (stream w 0)" "sh_manifest s = m" by (auto simp: find_Some_iff)
  then obtain xs ys where split: "stream w 0 = xs @ s # ys" by (meson split_list)
  have "unat l = unat (sh_lsn s) + 1"
    using room [OF assms(1) mem(1)] s(2) unat_add_small [of "sh_lsn s" 1] by simp
  then have le: "l \<le> k \<longleftrightarrow> sh_lsn s < k" for k
    by (simp add: word_le_nat_alt word_less_nat_alt Suc_le_eq)
  have asc: "sorted_wrt (<) (map sh_lsn (xs @ s # ys))"
    using ascending [OF assms(1)] split by simp
  have "filter (\<lambda>u. l \<le> sh_lsn u) (xs @ s # ys) = ys"
    using asc by (auto simp: le sorted_wrt_append filter_empty_conv filter_id_conv)
  then have "stream w l = ys" using gated [OF assms(1), of l] split by simp
  moreover have "stream w 0 = (xs @ [s]) @ ys" using split by simp
  moreover have "chain_end (start w) (xs @ [s]) = m" using mem(2) by simp
  ultimately show ?thesis by metis
qed

lemma resume_known:
  assumes "ready w" "m = chain_end (start w) had" "stream w 0 = had @ rest"
  shows "\<exists>l. resume w m = Some l"
proof (cases "m = start w")
  case False
  then obtain xs s where "had = xs @ [s]" using assms(2) by (cases had rule: rev_cases) auto
  then have "\<exists>s \<in> set (stream w 0). sh_manifest s = m" using assms(2,3) by auto
  then have "find (\<lambda>s. sh_manifest s = m) (stream w 0) \<noteq> None" by (auto simp: find_None_iff)
  with False show ?thesis using resume_link [OF assms(1)] by auto
qed (use assms(1) in \<open>auto simp: resume_start\<close>)

lemma stream_chained:
  assumes "ready w" "resume w m = Some l"
  shows "chain_of D hash m (stream w l)"
    and "chain_end m (stream w l) = chain_end (start w) (stream w 0)"
    and "sorted_wrt (<) (map sh_lsn (stream w l))"
proof -
  obtain had where had: "stream w 0 = had @ stream w l" "chain_end (start w) had = m"
    using resume_splits [OF assms] by blast
  show "chain_of D hash m (stream w l)"
    using chained [OF assms(1)] had by (metis chain_of_append)
  show "chain_end m (stream w l) = chain_end (start w) (stream w 0)"
    unfolding had(1) chain_end_def map_append had(2) [unfolded chain_end_def, symmetric]
    by (cases "stream w l") simp_all
  show "sorted_wrt (<) (map sh_lsn (stream w l))"
    using ascending [OF assms(1)] had(1) by (metis map_append sorted_wrt_append)
qed

end

text \<open>The operations of \<open>WalSource\<close> as total functions of a source that is in order.\<close>

definition start_of :: "wal_env \<times> wal_source \<Rightarrow> manifest_id" where
  "start_of = (\<lambda>(E, w). case start_head E w of Inr m \<Rightarrow> m | Inl _ \<Rightarrow> ManifestId [])"

definition stream_of :: "wal_env \<times> wal_source \<Rightarrow> lsn \<Rightarrow> shipment list" where
  "stream_of = (\<lambda>(E, w) l. case shipments_from E w l of Some (Inr ss) \<Rightarrow> ss | _ \<Rightarrow> [])"

definition resume_of :: "wal_env \<times> wal_source \<Rightarrow> manifest_id \<Rightarrow> lsn option" where
  "resume_of = (\<lambda>(E, w) m. case resume_after E w m of Some (Inr l) \<Rightarrow> Some l | _ \<Rightarrow> None)"

interpretation primary: shipment_source D hash "\<lambda>(E, w). primary_ok D hash E w" start_of stream_of resume_of
  for D hash
proof
  fix W :: "wal_env \<times> wal_source" and l m s
  obtain E w where W: "W = (E, w)" by fastforce
  assume "case W of (E, w) \<Rightarrow> primary_ok D hash E w"
  then have "primary_ok D hash E w" by (simp add: W)
  then obtain start ss where p: "start_head E w = Inr start"
    "\<forall>l. shipments_from E w l = Some (Inr (filter (\<lambda>s. l \<le> sh_lsn s) ss))"
    "chain_of D hash start ss" "sorted_wrt (<) (map sh_lsn ss)"
    "\<forall>s \<in> set ss. unat (sh_lsn s) + 1 < 2 ^ 64"
    by (rule primary_stream)
  have all: "stream_of W 0 = ss" "start_of W = start"
    using p(1,2) by (simp_all add: stream_of_def start_of_def W)
  show "chain_of D hash (start_of W) (stream_of W 0)"
    "sorted_wrt (<) (map sh_lsn (stream_of W 0))"
    using p all by simp_all
  show "stream_of W l = filter (\<lambda>s. l \<le> sh_lsn s) (stream_of W 0)"
    unfolding all(1) using p(2) by (simp add: stream_of_def W)
  show "unat (sh_lsn s) + 1 < 2 ^ 64" if "s \<in> set (stream_of W 0)" using p(5) that all by simp
  show "resume_of W (start_of W) = Some 0"
    using p(1) by (simp add: resume_of_def resume_after_def start_of_def W)
  show "resume_of W m = map_option (\<lambda>s. sh_lsn s + 1) (find (\<lambda>s. sh_manifest s = m) (stream_of W 0))"
    if "m \<noteq> start_of W"
  proof -
    have "filter (\<lambda>s. (0::u64) \<le> sh_lsn s) ss = ss" by simp
    then show ?thesis using that p(1) p(2) [rule_format, of 0] unfolding all
      by (auto simp: resume_of_def resume_after_def W split: option.split)
  qed
qed

subsection \<open>The guarantees of a source\<close>

lemma shipments_returns: "decoder_ok (we_decode E) \<Longrightarrow> shipments_from E w l \<noteq> None"
  using records_returns [of E w]
  by (auto simp: shipments_from_def bind_run_def split: sum.split option.split)

text \<open>A derivation that writes the history into the identity, and a hash that keeps the bytes.\<close>

definition demo_derive :: derivation where
  "demo_derive m ws now = (case m of ManifestId b \<Rightarrow> ManifestId (b @ [word_of_nat (length ws), ucast now]))"

lemma demo_records_read: "records demo_env demo_source = Some (Inr demo_records)"
  using records_image [OF demo_log] by (simp add: demo_records_def)

lemma demo_checkpoint: "read_checkpoint demo_env demo_source = Inr None"
  by (simp add: read_checkpoint_def Let_def demo_env_def)

lemma demo_start: "start_head demo_env demo_source = Inr (ManifestId [])"
  by (simp add: start_head_def demo_checkpoint) (simp add: demo_env_def)

lemma demo_primary: "primary_ok demo_derive PageId demo_env demo_source"
  unfolding primary_ok_def
proof (intro conjI exI)
  show "cas_true demo_env PageId" by (auto simp: cas_true_def demo_env_def split: page_id.splits)
  show "read_checkpoint demo_env demo_source = Inr None" by (rule demo_checkpoint)
  show "start_head demo_env demo_source = Inr (ManifestId [])" by (rule demo_start)
  show "records demo_env demo_source = Some (Inr demo_records)" by (rule demo_records_read)
  show "lsns_ascend demo_records"
    by (simp add: lsns_ascend_def demo_records_def word_less_nat_alt)
  show "log_true demo_derive demo_env (map_option snd None) demo_records (ManifestId []) []"
    by (simp add: demo_records_def demo_derive_def) (simp add: demo_env_def)
qed

definition demo_shipments :: "shipment list" where
  "demo_shipments =
     [\<lparr>sh_base = ManifestId [], sh_manifest = ManifestId [1, 100], sh_lsn = 2, sh_created = 100,
       sh_writes = [(0, Some (PageId [7]))], sh_pages = [(PageId [7], [7])]\<rparr>,
      \<lparr>sh_base = ManifestId [1, 100], sh_manifest = ManifestId [1, 100, 1, 200], sh_lsn = 4,
       sh_created = 200, sh_writes = [(0, None)], sh_pages = []\<rparr>]"

lemma demo_stream: "shipments_from demo_env demo_source 0 = Some (Inr demo_shipments)"
  by (simp add: shipments_from_def demo_checkpoint demo_start demo_records_read)
    (simp add: demo_records_def build_shipment_def demo_env_def demo_shipments_def)

text \<open>C33: the shipments are the primary's history. Over a log the primary wrote, they form one chain
  from the start head: every shipment builds on the manifest of the one before it, its manifest is
  the one substrate derives from that base, its writes and its timestamp, its writes are in page
  order and it carries the bytes of every page it sets; LSNs ascend; and a stream from an LSN is that
  history without the commits before it, with the bases they would have had.\<close>

theorem shipments_are_history:
  assumes "primary_ok D hash E w"
  shows "shipments_from E w l = Some (Inr (filter (\<lambda>s. l \<le> sh_lsn s) (stream_of (E, w) 0))) \<and>
    chain_of D hash (start_of (E, w)) (stream_of (E, w) 0) \<and>
    sorted_wrt (<) (map sh_lsn (stream_of (E, w) 0))"
proof -
  have ready: "case (E, w) of (E, w) \<Rightarrow> primary_ok D hash E w" using assms by simp
  obtain start ss where
    "\<forall>l. shipments_from E w l = Some (Inr (filter (\<lambda>s. l \<le> sh_lsn s) ss))"
    using primary_stream [OF assms] by metis
  moreover from this [THEN spec, of 0] have "stream_of (E, w) 0 = ss" by (simp add: stream_of_def)
  ultimately show ?thesis
    using primary.chained [OF ready] primary.ascending [OF ready] by simp
qed

lemma shipments_are_history_witness:
  "chain_of demo_derive PageId (ManifestId []) demo_shipments"
  using shipments_are_history [OF demo_primary, of 0]
  by (simp add: start_of_def demo_start stream_of_def demo_stream)

end
