(* ===== verification/Core_Db.thy ===== *)
theory Core_Db
  imports Core_Store Sync_Source
begin

section \<open>Databases\<close>

text \<open>
  \<open>crates/flock-core/src/db.rs\<close>: \<open>Flock\<close> opens and wakes databases, a \<open>Db\<close> is a name, a pool, a store and
  a kernel over it. Every operation returns its result with the database, substrate's world and the
  file system it leaves, on every path, so what a failure leaves behind can be stated. Asynchronous
  calls are the calls they await. A handle that goes out of scope drops its kernel, whose scratch
  directory goes too.
\<close>

record ('h, 'c) db =
  db_name :: string
  db_root :: path
  db_store :: "'h store"
  db_kernel :: "'c kernel"
  db_opts :: kernel_opts

type_synonym ('w, 'h, 't, 'm, 'o) subst = "('w, 'h, 't, 'm, 'o) substrate"

subsection \<open>Opening\<close>

definition flock_open_with :: "('c, 'a, 'b) duck_ops \<Rightarrow> ('w, 'h, 't, 'm, 'o) subst \<Rightarrow> path \<Rightarrow> string \<Rightarrow>
    kernel_opts \<Rightarrow> 'w \<Rightarrow> fs \<Rightarrow> (flock_error + ('h, 'c) db) \<times> 'w \<times> fs" where
  "flock_open_with D B root name opts w f =
     (case validate_name name of
        Inl e \<Rightarrow> (Inl e, w, f)
      | Inr _ \<Rightarrow>
     (case link_db_to_shared_cas root name f of
        (Inl e, f1) \<Rightarrow> (Inl e, w, f1)
      | (Inr dir, f1) \<Rightarrow>
     (case sb_open B dir w of
        (Inl e, w1) \<Rightarrow> (Inl (FWal ''open the durable store'' e), w1, f1)
      | (Inr durable, w1) \<Rightarrow>
     (case sb_recover B durable w1 of
        (Inl e, w2) \<Rightarrow> (Inl (FWal ''replay the log'' e), w2, f1)
      | (Inr _, w2) \<Rightarrow>
          (let store = Local durable
           in case kernel_open D (store_page_store B store) w2 opts f1 of
                (Inl e, w3, f2) \<Rightarrow> (Inl (FKernel e), w3, f2)
              | (Inr k, w3, f2) \<Rightarrow>
                  (Inr \<lparr>db_name = name, db_root = root, db_store = store, db_kernel = k, db_opts = opts\<rparr>,
                   w3, f2))))))"

definition flock_open :: "('c, 'a, 'b) duck_ops \<Rightarrow> ('w, 'h, 't, 'm, 'o) subst \<Rightarrow> path \<Rightarrow> string \<Rightarrow>
    'w \<Rightarrow> fs \<Rightarrow> (flock_error + ('h, 'c) db) \<times> 'w \<times> fs" where
  "flock_open D B root name = flock_open_with D B root name opts_default"

definition flock_wake_with :: "('c, 'a, 'b) duck_ops \<Rightarrow> ('w, 'h, 't, 'm, 'o) subst \<Rightarrow> path \<Rightarrow> string \<Rightarrow>
    'o remote_tier \<Rightarrow> wake_token \<Rightarrow> kernel_opts \<Rightarrow> 'w \<Rightarrow> fs \<Rightarrow> (flock_error + ('h, 'c) db) \<times> 'w \<times> fs" where
  "flock_wake_with D B root name remote token opts w f =
     (case validate_name name of
        Inl e \<Rightarrow> (Inl e, w, f)
      | Inr _ \<Rightarrow>
     (case fs_create_dir_all f root of
        (Inl e, f1) \<Rightarrow> (Inl (FPool ''create cache root'' root e), w, f1)
      | (Inr _, f1) \<Rightarrow>
     (case tr_wake B root remote token w of
        (Inl e, w1) \<Rightarrow> (Inl (FTier ''wake'' e), w1, f1)
      | (Inr tiered, w1) \<Rightarrow>
          (let store = Tiered tiered
           in case kernel_open D (store_page_store B store) w1 opts f1 of
                (Inl e, w2, f2) \<Rightarrow> (Inl (FKernel e), w2, f2)
              | (Inr k, w2, f2) \<Rightarrow>
                  (Inr \<lparr>db_name = name, db_root = root, db_store = store, db_kernel = k, db_opts = opts\<rparr>,
                   w2, f2)))))"

definition flock_wake :: "('c, 'a, 'b) duck_ops \<Rightarrow> ('w, 'h, 't, 'm, 'o) subst \<Rightarrow> path \<Rightarrow> string \<Rightarrow>
    'o remote_tier \<Rightarrow> wake_token \<Rightarrow> 'w \<Rightarrow> fs \<Rightarrow> (flock_error + ('h, 'c) db) \<times> 'w \<times> fs" where
  "flock_wake D B root name remote token = flock_wake_with D B root name remote token opts_default"

subsection \<open>Statements and snapshots\<close>

definition db_head :: "('w, 'h, 't, 'm, 'o) subst \<Rightarrow> ('h, 'c) db \<Rightarrow> 'w \<Rightarrow> manifest_id" where
  "db_head B db w = store_head B (db_store db) w"

definition db_wal_source :: "('w, 'h, 't, 'm, 'o) subst \<Rightarrow> ('h, 'c) db \<Rightarrow> 'w \<Rightarrow> flock_error + wal_source" where
  "db_wal_source B db w =
     (case db_store db of
        Local durable \<Rightarrow> Inr (wal_source_open (db_dir (db_root db) (db_name db)) (pg_page_size B durable w))
      | Tiered _ \<Rightarrow>
          Inl (Unsupported ''WAL shipping from a woken (object-storage-backed) database''
            ''a tiered database has no local write-ahead log''))"

definition db_query :: "('c, 'a, 'b) duck_ops \<Rightarrow> ('h, 'c) db \<Rightarrow> string \<Rightarrow> fs \<Rightarrow>
    (flock_error + ('a, 'b) arrow_stream) \<times> ('h, 'c) db \<times> fs" where
  "db_query D db sql f =
     (case kernel_query D (db_kernel db) sql f of (r, k, f') \<Rightarrow> (map_err FKernel r, db\<lparr>db_kernel := k\<rparr>, f'))"

definition db_execute :: "('c, 'a, 'b) duck_ops \<Rightarrow> ('h, 'c) db \<Rightarrow> string \<Rightarrow> fs \<Rightarrow>
    (flock_error + u64) \<times> ('h, 'c) db \<times> fs" where
  "db_execute D db sql f =
     (case kernel_execute D (db_kernel db) sql f of (r, k, f') \<Rightarrow> (map_err FKernel r, db\<lparr>db_kernel := k\<rparr>, f'))"

definition db_execute_batch :: "('c, 'a, 'b) duck_ops \<Rightarrow> ('h, 'c) db \<Rightarrow> string \<Rightarrow> fs \<Rightarrow>
    (flock_error + unit) \<times> ('h, 'c) db \<times> fs" where
  "db_execute_batch D db sql f =
     (case kernel_batch D (db_kernel db) sql f of (r, k, f') \<Rightarrow> (map_err FKernel r, db\<lparr>db_kernel := k\<rparr>, f'))"

fun outcome_err :: "('e \<Rightarrow> 'e2) \<Rightarrow> ('e, 'a) outcome \<Rightarrow> ('e2, 'a) outcome" where
  "outcome_err g (Ok a) = Ok a"
| "outcome_err g (Err e) = Err (g e)"
| "outcome_err g Panic = Panic"

definition db_snapshot :: "('c, 'a, 'b) duck_ops \<Rightarrow> ('w, 'h, 't, 'm, 'o) subst \<Rightarrow> ('h, 'c) db \<Rightarrow> 'w \<Rightarrow> fs \<Rightarrow>
    (flock_error, manifest_id) outcome \<times> ('h, 'c) db \<times> 'w \<times> fs" where
  "db_snapshot D B db w f =
     (case kernel_checkpoint D (store_page_store B (db_store db)) (db_kernel db) w f of
        (r, k, w', f') \<Rightarrow> (outcome_err FKernel r, db\<lparr>db_kernel := k\<rparr>, w', f'))"

definition db_ensure_durable :: "('w, 'h, 't, 'm, 'o) subst \<Rightarrow> ('h, 'c) db \<Rightarrow> 'w \<Rightarrow> (flock_error + unit) \<times> 'w" where
  "db_ensure_durable B db w =
     (case db_store db of
        Local _ \<Rightarrow> (Inr (), w)
      | Tiered t \<Rightarrow>
          (case tr_ensure_durable B t [pg_head B t w] w of
             (r, w') \<Rightarrow> (map_err (FTier ''make durable in object storage'') r, w')))"

definition db_export_duckdb :: "('c, 'a, 'b) duck_ops \<Rightarrow> ('h, 'c) db \<Rightarrow> path \<Rightarrow> fs \<Rightarrow>
    (flock_error + unit) \<times> ('h, 'c) db \<times> fs" where
  "db_export_duckdb D db path f =
     (case kernel_export D (db_kernel db) path f of (r, k, f') \<Rightarrow> (map_err FKernel r, db\<lparr>db_kernel := k\<rparr>, f'))"

subsection \<open>Fork and restore\<close>

definition db_fork :: "('c, 'a, 'b) duck_ops \<Rightarrow> ('w, 'h, 't, 'm, 'o) subst \<Rightarrow> ('h, 'c) db \<Rightarrow> string \<Rightarrow> 'w \<Rightarrow> fs \<Rightarrow>
    (flock_error, ('h, 'c) db) outcome \<times> ('h, 'c) db \<times> 'w \<times> fs" where
  "db_fork D B db name w f =
     (case validate_name name of
        Inl e \<Rightarrow> (Err e, db, w, f)
      | Inr _ \<Rightarrow>
          (let dir = db_dir (db_root db) name
           in if path_exists f dir then (Err (NameTaken name dir), db, w, f)
              else
     (case db_snapshot D B db w f of
        (Err e, db', w1, f1) \<Rightarrow> (Err e, db', w1, f1)
      | (Panic, db', w1, f1) \<Rightarrow> (Panic, db', w1, f1)
      | (Ok head, db', w1, f1) \<Rightarrow>
     (case link_db_to_shared_cas (db_root db) name f1 of
        (Inl e, f2) \<Rightarrow> (Err e, db', w1, f2)
      | (Inr dir, f2) \<Rightarrow>
     (case sb_open B dir w1 of
        (Inl e, w2) \<Rightarrow> (Err (FWal ''open the fork's durable store'' e), db', w2, f2)
      | (Inr forked, w2) \<Rightarrow>
     (case sb_recover B forked w2 of
        (Inl e, w3) \<Rightarrow> (Err (FWal ''replay the fork's log'' e), db', w3, f2)
      | (Inr _, w3) \<Rightarrow>
     (case pg_set_head_to B forked head w3 of
        (Inl e, w4) \<Rightarrow> (Err (FPager ''position the fork at its parent'' e), db', w4, f2)
      | (Inr _, w4) \<Rightarrow>
     (case sb_checkpoint B forked w4 of
        (Inl e, w5) \<Rightarrow> (Err (FWal ''record the fork's head'' e), db', w5, f2)
      | (Inr _, w5) \<Rightarrow>
          (let store = Local forked
           in case kernel_open D (store_page_store B store) w5 (db_opts db) f2 of
                (Inl e, w6, f3) \<Rightarrow> (Err (FKernel e), db', w6, f3)
              | (Inr k, w6, f3) \<Rightarrow>
                  (Ok \<lparr>db_name = name, db_root = db_root db, db_store = store, db_kernel = k,
                       db_opts = db_opts db\<rparr>, db', w6, f3))))))))))"

definition db_rewind_to :: "('w, 'h, 't, 'm, 'o) subst \<Rightarrow> ('h, 'c) db \<Rightarrow> manifest_id \<Rightarrow> 'w \<Rightarrow>
    (flock_error + unit) \<times> 'w" where
  "db_rewind_to B db m w =
     (case pg_manifest B (store_pager (db_store db)) m w of
        (Inl _, w1) \<Rightarrow> (Inl (UnknownSnapshot m), w1)
      | (Inr _, w1) \<Rightarrow>
          (case pg_rewind B (store_pager (db_store db)) m w1 of
             (Inl e, w2) \<Rightarrow> (Inl (FPager ''restore'' e), w2)
           | (Inr _, w2) \<Rightarrow>
               (case db_store db of
                  Local d \<Rightarrow>
                    (case sb_checkpoint B d w2 of
                       (r, w3) \<Rightarrow> (map_err (FWal ''record the restored head'') r, w3))
                | Tiered _ \<Rightarrow> (Inr (), w2))))"

definition db_restore :: "('c, 'a, 'b) duck_ops \<Rightarrow> ('w, 'h, 't, 'm, 'o) subst \<Rightarrow> ('h, 'c) db \<Rightarrow> manifest_id \<Rightarrow>
    'w \<Rightarrow> fs \<Rightarrow> (flock_error + unit) \<times> ('h, 'c) db \<times> 'w \<times> fs" where
  "db_restore D B db m w f =
     (case db_rewind_to B db m w of
        (Inl e, w1) \<Rightarrow> (Inl e, db, w1, f)
      | (Inr _, w1) \<Rightarrow>
          (case kernel_open D (store_page_store B (db_store db)) w1 (db_opts db) f of
             (Inl e, w2, f1) \<Rightarrow> (Inl (FKernel e), db, w2, f1)
           | (Inr k, w2, f1) \<Rightarrow> (Inr (), db\<lparr>db_kernel := k\<rparr>, w2, kernel_drop (db_kernel db) f1)))"

subsection \<open>An open database\<close>

definition db_handle :: "('h, 'c) db \<Rightarrow> 'h" where
  "db_handle db = store_pager (db_store db)"

definition db_home :: "('h, 'c) db \<Rightarrow> path option" where
  "db_home db = (case db_store db of Local _ \<Rightarrow> Some (db_dir (db_root db) (db_name db)) | Tiered _ \<Rightarrow> None)"

text \<open>The handle is open on the database's directory; and the log of that directory records its head.\<close>

definition db_ok :: "('w, 'h, 't, 'm, 'o) subst \<Rightarrow> ('w, 'h, 't) substrate_view \<Rightarrow> ('h, 'c) db \<Rightarrow> 'w \<Rightarrow> bool" where
  "db_ok B V db w \<longleftrightarrow> sv_inv V w \<and> sv_live V w (db_handle db) \<and> sv_dir V (db_handle db) = db_home db"

definition db_synced :: "('w, 'h, 't, 'm, 'o) subst \<Rightarrow> ('w, 'h, 't) substrate_view \<Rightarrow> ('h, 'c) db \<Rightarrow> 'w \<Rightarrow> bool" where
  "db_synced B V db w \<longleftrightarrow> (case db_home db of
     Some d \<Rightarrow> sv_recorded V w d = db_head B db w \<and> pg_page_size B (db_handle db) w = sb_default_page_size B
   | None \<Rightarrow> True)"

lemma db_head_handle: "db_head B db w = pg_head B (db_handle db) w"
  by (simp add: db_head_def store_head_def db_handle_def)

lemma db_kernel_update [simp]:
  "db_handle (db\<lparr>db_kernel := k\<rparr>) = db_handle db" "db_home (db\<lparr>db_kernel := k\<rparr>) = db_home db"
  "db_head B (db\<lparr>db_kernel := k\<rparr>) w = db_head B db w"
  "db_ok B V (db\<lparr>db_kernel := k\<rparr>) w = db_ok B V db w"
  "db_synced B V (db\<lparr>db_kernel := k\<rparr>) w = db_synced B V db w"
proof -
  show h: "db_handle (db\<lparr>db_kernel := k\<rparr>) = db_handle db" by (simp add: db_handle_def)
  show d: "db_home (db\<lparr>db_kernel := k\<rparr>) = db_home db" by (cases "db_store db") (simp_all add: db_home_def)
  show "db_head B (db\<lparr>db_kernel := k\<rparr>) w = db_head B db w" by (simp add: db_head_def)
  then show "db_ok B V (db\<lparr>db_kernel := k\<rparr>) w = db_ok B V db w"
    "db_synced B V (db\<lparr>db_kernel := k\<rparr>) w = db_synced B V db w"
    by (simp_all add: db_ok_def db_synced_def h d split: option.split)
qed

lemma db_ok_moves: "db_ok B V db w \<Longrightarrow> only_moves B V h w w' \<Longrightarrow> db_ok B V db w'"
  by (auto simp: db_ok_def only_moves_def)

lemma db_ok_still: "db_ok B V db w \<Longrightarrow> still B V w w' \<Longrightarrow> db_ok B V db w'"
  by (rule db_ok_moves [OF _ still_only_moves])

lemma db_synced_still: "db_ok B V db w \<Longrightarrow> db_synced B V db w \<Longrightarrow> still B V w w' \<Longrightarrow> db_synced B V db w'"
  by (auto simp: db_ok_def db_synced_def still_def db_head_handle split: option.splits)

text \<open>Opening a kernel on a store moves nothing.\<close>

lemma kernel_open_still:
  assumes "substrate_law B V" "sv_inv V w" "sv_live V w (store_pager st)"
    and "kernel_open D (store_page_store B st) w opts f = (r, w', f')"
  shows "still B V w w'"
  using core_stager.kernel_open_keeps [of B V w st w D opts f] assms still_refl [OF assms(2), of B] by simp

lemma checkpoint_moves:
  assumes "substrate_law B V" "sv_inv V w" "sv_live V w (store_pager st)"
    and "kernel_checkpoint D (store_page_store B st) k w f = (r, k', w', f')"
  shows "only_moves B V (store_pager st) w w'"
  using core_store.kernel_checkpoint_keeps [of B V w st w D k f] assms only_moves_refl [OF assms(2), of B "store_pager st"] by simp

text \<open>A snapshot, whatever its result.\<close>

lemma db_snapshot_moves:
  assumes "substrate_law B V" "db_ok B V db w" "db_snapshot D B db w f = (r, db', w', f')"
  shows "only_moves B V (db_handle db) w w' \<and> db_ok B V db' w' \<and> (\<exists>k. db' = db\<lparr>db_kernel := k\<rparr>)"
proof -
  obtain q k w1 f1 where c: "kernel_checkpoint D (store_page_store B (db_store db)) (db_kernel db) w f = (q, k, w1, f1)"
    by (cases "kernel_checkpoint D (store_page_store B (db_store db)) (db_kernel db) w f") auto
  then have d: "db' = db\<lparr>db_kernel := k\<rparr>" "w' = w1" using assms(3) by (auto simp: db_snapshot_def)
  have "only_moves B V (db_handle db) w w1"
    using checkpoint_moves [OF assms(1) _ _ c] assms(2) by (simp add: db_ok_def db_handle_def)
  with d db_ok_moves [OF assms(2) this] show ?thesis by auto
qed

lemma outcome_err_Ok [simp]: "outcome_err g r = Ok a \<longleftrightarrow> r = Ok a"
  by (cases r) simp_all

text \<open>The last thing a snapshot that returned did is commit; before it, nothing had moved.\<close>

lemma db_snapshot_commits:
  assumes law: "substrate_law B V" and ok: "db_ok B V db w" and run: "db_snapshot D B db w f = (Ok m, db', w', f')"
  obtains k t x1 where "kernel_checkpoint D (store_page_store B (db_store db)) (db_kernel db) w f = (Ok m, k, w', f')"
    "db' = db\<lparr>db_kernel := k\<rparr>" "still B V w x1" "db_ok B V db x1"
    "pst_commit (store_page_store B (db_store db)) x1 t = (Inr m, w')" "db_head B db w' = m"
proof -
  let ?P = "store_page_store B (db_store db)"
  obtain k where ck: "kernel_checkpoint D ?P (db_kernel db) w f = (Ok m, k, w', f')" "db' = db\<lparr>db_kernel := k\<rparr>"
    using run by (auto simp: db_snapshot_def split: prod.splits)
  obtain p1 f2 where "persist ?P w p1 f2 = (Ok m, w', f')"
    using ck(1) by (auto simp: kernel_checkpoint_def split: prod.splits sum.splits)
  from persist_commits [OF this] obtain bs t x1 where
    s: "stage_file ?P (pst_page_size ?P w) (pst_head ?P w) bs w = (Inr t, x1)" "pst_commit ?P x1 t = (Inr m, w')"
    by blast
  have I: "sv_inv V w \<and> sv_live V w (store_pager (db_store db))" using ok by (simp add: db_ok_def db_handle_def)
  have st: "still B V w x1"
    using core_stager.stage_file_keeps [of B V w "db_store db" w "pst_page_size ?P w" "pst_head ?P w" bs] s(1) I law
      still_refl [of V w B] by (simp add: db_handle_def)
  have ok1: "db_ok B V db x1" by (rule db_ok_still [OF ok st])
  then have "sv_inv V x1" "sv_live V x1 (store_pager (db_store db))" by (simp_all add: db_ok_def db_handle_def)
  from store_commit_moves [OF law this s(2)] have "db_head B db w' = m"
    by (simp add: commits_as_def db_head_handle db_handle_def)
  from that [OF ck st ok1 s(2) this] show thesis .
qed

text \<open>A snapshot that returned: the head is the manifest, its pages the file, and the log has it.\<close>

lemma db_snapshot_Ok:
  assumes law: "substrate_law B V" and ok: "db_ok B V db w" and sync: "db_synced B V db w"
    and run: "db_snapshot D B db w f = (Ok m, db', w', f')"
  shows "db_head B db' w' = m \<and> db_synced B V db' w' \<and>
    (\<exists>c f1. duck_batch D (k_conn (db_kernel db)) ''CHECKPOINT'' f = (Inr (), c, f1) \<and>
       (\<forall>bs. fs_lookup f1 (k_path (db_kernel db)) = Some (FileNode bs) \<longrightarrow> length bs \<le> isize_max \<longrightarrow>
          sv_pages V m = layout (pg_page_size B (db_handle db) w) bs))"
proof -
  let ?P = "store_page_store B (db_store db)" and ?k = "db_kernel db" and ?h = "db_handle db"
  obtain k t x1 where ck: "kernel_checkpoint D ?P ?k w f = (Ok m, k, w', f')" "db' = db\<lparr>db_kernel := k\<rparr>"
    and st: "still B V w x1" and ok1: "db_ok B V db x1" and s: "pst_commit ?P x1 t = (Inr m, w')"
    and head: "db_head B db w' = m"
    by (rule db_snapshot_commits [OF law ok run])
  have I: "sv_inv V w \<and> sv_live V w (store_pager (db_store db))" using ok by (simp add: db_ok_def db_handle_def)
  from kernel_checkpoint_Ok [OF core_store_law [OF law] I ck(1)] obtain c f1 where
    ondisk: "duck_batch D (k_conn ?k) ''CHECKPOINT'' f = (Inr (), c, f1)"
      "\<forall>bs. fs_lookup f1 (k_path ?k) = Some (FileNode bs) \<longrightarrow> length bs \<le> isize_max \<longrightarrow>
         sv_pages V m = layout (pg_page_size B ?h w) bs"
    by (auto simp: db_handle_def)
  note sync1 = db_synced_still [OF ok sync st]
  have I1: "sv_inv V x1" "sv_live V x1 (store_pager (db_store db))" using ok1 by (simp_all add: db_ok_def db_handle_def)
  have "db_synced B V db w'"
  proof (cases "db_store db")
    case (Local h)
    obtain rc where rc: "sb_commit B h t x1 = (rc, w')" "rc = Inr m"
      using s Local by (auto simp: delegate_to_pager_def durable_commit_def split: prod.splits)
    have live: "sv_live V x1 h" using I1 Local by simp
    note hl = heads_lawD(3) [OF substrate_lawD(4) [OF law I1(1) live] rc(1)]
    have "sv_dir V h = Some (db_dir (db_root db) (db_name db))" using ok Local by (simp add: db_ok_def db_home_def db_handle_def)
    with hl rc(2) sync1 head Local live show ?thesis
      by (auto simp: db_synced_def db_home_def db_head_handle db_handle_def commits_as_def only_moves_def)
  next
    case (Tiered h)
    then show ?thesis by (simp add: db_synced_def db_home_def)
  qed
  with head ondisk ck(2) show ?thesis by auto
qed

subsection \<open>Opening, forking and restoring, step by step\<close>

lemma link_returns_dir:
  "link_db_to_shared_cas root name f = (Inr dir, f') \<Longrightarrow> dir = db_dir root name"
  by (auto simp: link_db_to_shared_cas_def Let_def split: sum.splits prod.splits)

lemma still_then_moves:
  "still B V w w1 \<Longrightarrow> only_moves B V h w1 w2 \<Longrightarrow> \<not> sv_live V w h \<Longrightarrow>
     (\<forall>d. sv_recorded V w2 d = sv_recorded V w1 d) \<Longrightarrow> still B V w w2"
  unfolding still_def only_moves_def by metis

lemma flock_open_Inr:
  assumes law: "substrate_law B V" and inv: "sv_inv V w"
    and run: "flock_open_with D B root name opts w f = (Inr db, w', f')"
  shows "still B V w w' \<and> db_ok B V db w' \<and> db_synced B V db w' \<and> \<not> sv_live V w (db_handle db) \<and>
    db_home db = Some (db_dir root name) \<and> db_head B db w' = sv_recorded V w (db_dir root name) \<and>
    (\<exists>w2 f2. kernel_open D (store_page_store B (db_store db)) w2 opts f2 = (Inr (db_kernel db), w', f') \<and>
       still B V w2 w' \<and> sv_inv V w2 \<and> sv_live V w2 (db_handle db))"
proof -
  let ?d = "db_dir root name"
  from run obtain dir f1 h w1 w2 k where
    link: "link_db_to_shared_cas root name f = (Inr dir, f1)" and op: "sb_open B dir w = (Inr h, w1)"
    and rec: "sb_recover B h w1 = (Inr (), w2)"
    and ko: "kernel_open D (store_page_store B (Local h)) w2 opts f1 = (Inr k, w', f')"
    and db: "db = \<lparr>db_name = name, db_root = root, db_store = Local h, db_kernel = k, db_opts = opts\<rparr>"
    by (auto simp: flock_open_with_def Let_def split: sum.splits prod.splits)
  have dir: "dir = ?d" by (rule link_returns_dir [OF link])
  note o1 = opens_lawD(1) [OF substrate_lawD(1) [OF law inv] op]
  have st1: "still B V w w1" and live1: "sv_live V w1 h" and new: "\<not> sv_live V w h" and home: "sv_dir V h = Some ?d"
    and ps1: "pg_page_size B h w1 = sb_default_page_size B"
    using o1 dir by (simp_all add: opens_as_def)
  have inv1: "sv_inv V w1" using st1 by (simp add: still_def)
  note r2 = heads_lawD(1) [OF substrate_lawD(4) [OF law inv1 live1] rec]
  have st2: "still B V w w2" using still_then_moves [OF st1 _ new] r2 by blast
  have live2: "sv_live V w2 h" "sv_inv V w2" "pg_page_size B h w2 = sb_default_page_size B"
    using r2 live1 ps1 by (simp_all add: only_moves_def)
  have st3: "still B V w2 w'" using kernel_open_still [OF law live2(2) _ ko] live2(1) by simp
  have head: "pg_head B h w' = sv_recorded V w ?d"
    using r2 st1 st3 live2(1) home by (simp add: still_def)
  have rest: "sv_live V w' h" "sv_inv V w'" "pg_page_size B h w' = sb_default_page_size B"
    "sv_recorded V w' ?d = sv_recorded V w ?d"
    using st2 st3 live2 by (simp_all add: still_def)
  with head home show ?thesis
    using st2 st3 new ko live2 still_trans [OF st2 st3]
    by (auto simp: db db_ok_def db_synced_def db_handle_def db_home_def db_head_handle)
qed

text \<open>The stages of a fork that returned.\<close>

lemma db_fork_Ok:
  assumes law: "substrate_law B V" and ok: "db_ok B V db w"
    and run: "db_fork D B db name w f = (Ok child, db', w', f')"
  obtains m w1 f1 where "db_snapshot D B db w f = (Ok m, db', w1, f1)" "\<not> path_exists f (db_dir (db_root db) name)"
    "db_ok B V child w'" "db_synced B V child w'" "db_head B child w' = m"
    "db_home child = Some (db_dir (db_root db) name)" "\<not> sv_live V w1 (db_handle child)"
    "only_moves B V (db_handle child) w1 w'" "db_opts child = db_opts db"
    "\<exists>w2 f2. kernel_open D (store_page_store B (db_store child)) w2 (db_opts db) f2 = (Inr (db_kernel child), w', f') \<and>
       still B V w2 w' \<and> sv_inv V w2 \<and> sv_live V w2 (db_handle child)"
proof -
  let ?d = "db_dir (db_root db) name"
  from run obtain m w1 f1 dir f2 h w2 w3 w4 w5 k where
    snap: "db_snapshot D B db w f = (Ok m, db', w1, f1)" and free: "\<not> path_exists f ?d"
    and link: "link_db_to_shared_cas (db_root db) name f1 = (Inr dir, f2)" and op: "sb_open B dir w1 = (Inr h, w2)"
    and rec: "sb_recover B h w2 = (Inr (), w3)" and pos: "pg_set_head_to B h m w3 = (Inr (), w4)"
    and cp: "sb_checkpoint B h w4 = (Inr (), w5)"
    and ko: "kernel_open D (store_page_store B (Local h)) w5 (db_opts db) f2 = (Inr k, w', f')"
    and child: "child = \<lparr>db_name = name, db_root = db_root db, db_store = Local h, db_kernel = k, db_opts = db_opts db\<rparr>"
    by (auto simp: db_fork_def Let_def split: sum.splits prod.splits outcome.splits if_splits)
  have dir: "dir = ?d" by (rule link_returns_dir [OF link])
  have inv1: "sv_inv V w1" using db_snapshot_moves [OF law ok snap] by (simp add: db_ok_def)
  note o2 = opens_lawD(1) [OF substrate_lawD(1) [OF law inv1] op]
  have st2: "still B V w1 w2" and l2: "sv_inv V w2" "sv_live V w2 h" and new: "\<not> sv_live V w1 h"
    and home: "sv_dir V h = Some ?d" and ps: "pg_page_size B h w2 = sb_default_page_size B"
    using o2 dir by (simp_all add: opens_as_def still_def)
  note r3 = heads_lawD(1) [OF substrate_lawD(4) [OF law l2] rec]
  have l3: "sv_inv V w3" "sv_live V w3 h" using r3 l2(2) by (simp_all add: only_moves_def)
  note r4 = heads_lawD(6) [OF substrate_lawD(4) [OF law l3] pos]
  have l4: "sv_inv V w4" "sv_live V w4 h" using r4 l3(2) by (simp_all add: only_moves_def)
  note r5 = heads_lawD(2) [OF substrate_lawD(4) [OF law l4] cp]
  have l5: "sv_inv V w5" "sv_live V w5 h" using r5 l4(2) by (simp_all add: only_moves_def)
  have st6: "still B V w5 w'" using kernel_open_still [OF law l5(1) _ ko] l5(2) by simp
  have mv: "only_moves B V h w1 w'"
    using still_only_moves [OF st2] still_only_moves [OF st6] r3 r4 r5 by (metis only_moves_trans)
  have head: "pg_head B h w' = m" "sv_recorded V w' ?d = m"
    using r4 r5 st6 l5(2) home by (simp_all add: still_def)
  have size: "pg_page_size B h w' = sb_default_page_size B"
    using ps r3 r4 r5 st6 l2(2) l3(2) l4(2) l5(2) by (simp add: only_moves_def still_def)
  have live: "sv_live V w' h" "sv_inv V w'" using st6 l5(2) by (simp_all add: still_def)
  show thesis
  proof (rule that)
    show "\<exists>w2 f2. kernel_open D (store_page_store B (db_store child)) w2 (db_opts db) f2 = (Inr (db_kernel child), w', f') \<and>
       still B V w2 w' \<and> sv_inv V w2 \<and> sv_live V w2 (db_handle child)"
      using ko st6 l5 by (auto simp: child db_handle_def)
  qed (use snap free head size live mv new home in
    \<open>simp_all add: child db_ok_def db_synced_def db_handle_def db_home_def db_head_handle\<close>)
qed

text \<open>A rewind that reports success has moved the head, and on a local store recorded it.\<close>

lemma db_rewind_Inr:
  assumes law: "substrate_law B V" and ok: "db_ok B V db w" and run: "db_rewind_to B db m w = (Inr (), w')"
  shows "only_moves B V (db_handle db) w w' \<and> db_head B db w' = m \<and>
    (\<forall>d. db_home db = Some d \<longrightarrow> sv_recorded V w' d = m)"
proof -
  let ?h = "db_handle db"
  obtain man w1 where man: "pg_manifest B ?h m w = (Inr man, w1)"
    using run by (auto simp: db_rewind_to_def db_handle_def split: sum.splits prod.splits)
  have l0: "sv_inv V w" "sv_live V w ?h" using ok by (simp_all add: db_ok_def)
  note s1 = reads_lawD(4) [OF substrate_lawD(2) [OF law l0] man]
  have l1: "sv_inv V w1" "sv_live V w1 ?h" using s1 l0(2) by (simp_all add: still_def)
  obtain w2 where rw: "pg_rewind B ?h m w1 = (Inr (), w2)"
    using run man by (auto simp: db_rewind_to_def db_handle_def split: sum.splits prod.splits)
  note r2 = heads_lawD(5) [OF substrate_lawD(4) [OF law l1] rw]
  have l2: "sv_inv V w2" "sv_live V w2 ?h" using r2 l1(2) by (simp_all add: only_moves_def)
  show ?thesis
  proof (cases "db_store db")
    case (Local d)
    obtain q w3 where cp: "sb_checkpoint B d w2 = (q, w3)" by fastforce
    with run man rw Local have q: "q = Inr ()" "w3 = w'" by (simp_all add: db_rewind_to_def db_handle_def)
    have d: "?h = d" using Local by (simp add: db_handle_def)
    note r3 = heads_lawD(2) [OF substrate_lawD(4) [OF law l2] cp [folded d]]
    have "sv_dir V ?h = db_home db" using ok by (simp add: db_ok_def)
    moreover have "only_moves B V ?h w w'"
      using still_only_moves [OF s1] r2 r3 q(2) by (metis only_moves_trans)
    ultimately show ?thesis using r2 r3 q by (simp add: db_head_handle)
  next
    case (Tiered t)
    with run man rw have "w' = w2" by (simp add: db_rewind_to_def db_handle_def)
    with r2 still_only_moves [OF s1] show ?thesis
      by (auto simp: db_head_handle db_home_def Tiered intro: only_moves_trans)
  qed
qed

lemma db_rewind_moves:
  assumes law: "substrate_law B V" and ok: "db_ok B V db w" and run: "db_rewind_to B db m w = (r, w')"
  shows "only_moves B V (db_handle db) w w'"
proof -
  let ?h = "db_handle db"
  obtain man w1 where man: "pg_manifest B ?h m w = (man, w1)" by fastforce
  have l0: "sv_inv V w" "sv_live V w ?h" using ok by (simp_all add: db_ok_def)
  note s1 = reads_lawD(4) [OF substrate_lawD(2) [OF law l0] man]
  have l1: "sv_inv V w1" "sv_live V w1 ?h" using s1 l0(2) by (simp_all add: still_def)
  obtain q w2 where rw: "pg_rewind B ?h m w1 = (q, w2)" by fastforce
  note r2 = heads_lawD(5) [OF substrate_lawD(4) [OF law l1] rw]
  have l2: "sv_inv V w2" "sv_live V w2 ?h" using r2 l1(2) by (simp_all add: only_moves_def)
  obtain q3 w3 where cp: "sb_checkpoint B ?h w2 = (q3, w3)" by fastforce
  note r3 = heads_lawD(2) [OF substrate_lawD(4) [OF law l2] cp]
  have a: "only_moves B V ?h w w1" by (rule still_only_moves [OF s1])
  have b: "only_moves B V ?h w w2" using a r2 by (auto intro: only_moves_trans)
  have c: "only_moves B V ?h w w3" using b r3 by (auto intro: only_moves_trans)
  have "w' = w1 \<or> w' = w2 \<or> w' = w3"
    using run man rw cp
    by (auto simp: db_rewind_to_def db_handle_def split: sum.splits store.splits prod.splits)
  with a b c show ?thesis by blast
qed

subsection \<open>Sequences of operations\<close>

text \<open>
  What a caller can do with a database it holds, in any order. A further fork, which gives a second
  database (\<open>db_fork_Ok\<close> says what of), and a sleep, after which there is none, are not steps.
\<close>

datatype db_op =
    OpQuery string
  | OpExecute string
  | OpBatch string
  | OpSnapshot
  | OpEnsureDurable
  | OpRestore manifest_id
  | OpExport path

fun db_step :: "('c, 'a, 'b) duck_ops \<Rightarrow> ('w, 'h, 't, 'm, 'o) subst \<Rightarrow> db_op \<Rightarrow> ('h, 'c) db \<times> 'w \<times> fs \<Rightarrow>
    ('h, 'c) db \<times> 'w \<times> fs" where
  "db_step D B (OpQuery sql) (db, w, f) = (case db_query D db sql f of (_, db', f') \<Rightarrow> (db', w, f'))"
| "db_step D B (OpExecute sql) (db, w, f) = (case db_execute D db sql f of (_, db', f') \<Rightarrow> (db', w, f'))"
| "db_step D B (OpBatch sql) (db, w, f) = (case db_execute_batch D db sql f of (_, db', f') \<Rightarrow> (db', w, f'))"
| "db_step D B OpSnapshot (db, w, f) = (case db_snapshot D B db w f of (_, db', w', f') \<Rightarrow> (db', w', f'))"
| "db_step D B OpEnsureDurable (db, w, f) = (case db_ensure_durable B db w of (_, w') \<Rightarrow> (db, w', f))"
| "db_step D B (OpRestore m) (db, w, f) = (case db_restore D B db m w f of (_, db', w', f') \<Rightarrow> (db', w', f'))"
| "db_step D B (OpExport p) (db, w, f) = (case db_export_duckdb D db p f of (_, db', f') \<Rightarrow> (db', w, f'))"

definition db_run :: "('c, 'a, 'b) duck_ops \<Rightarrow> ('w, 'h, 't, 'm, 'o) subst \<Rightarrow> db_op list \<Rightarrow>
    ('h, 'c) db \<times> 'w \<times> fs \<Rightarrow> ('h, 'c) db \<times> 'w \<times> fs" where
  "db_run D B ops s = fold (db_step D B) ops s"

lemma db_self [simp, intro]: "\<exists>k. db = db\<lparr>db_kernel := k\<rparr>"
  by (rule exI [of _ "db_kernel db"]) simp

lemma db_restore_moves:
  assumes law: "substrate_law B V" and ok: "db_ok B V db w" and run: "db_restore D B db m w f = (r, db', w', f')"
  shows "only_moves B V (db_handle db) w w' \<and> (\<exists>k. db' = db\<lparr>db_kernel := k\<rparr>)"
proof -
  obtain q w1 where rw: "db_rewind_to B db m w = (q, w1)" by fastforce
  note mv = db_rewind_moves [OF law ok rw]
  show ?thesis
  proof (cases q)
    case (Inl e)
    with rw run have "w' = w1" "db' = db" by (simp_all add: db_restore_def)
    with mv show ?thesis by simp
  next
    case (Inr u)
    obtain z w2 f1 where ko: "kernel_open D (store_page_store B (db_store db)) w1 (db_opts db) f = (z, w2, f1)"
      by (cases "kernel_open D (store_page_store B (db_store db)) w1 (db_opts db) f") auto
    have ok1: "db_ok B V db w1" by (rule db_ok_moves [OF ok mv])
    then have "still B V w1 w2" using kernel_open_still [OF law _ _ ko] by (simp add: db_ok_def db_handle_def)
    then have "only_moves B V (db_handle db) w w2" using mv still_only_moves by (metis only_moves_trans)
    moreover have "w' = w2" using rw run Inr ko by (cases z) (simp_all add: db_restore_def)
    moreover have "\<exists>k. db' = db\<lparr>db_kernel := k\<rparr>"
      using rw run Inr ko by (cases z) (auto simp: db_restore_def)
    ultimately show ?thesis by blast
  qed
qed

lemma db_step_moves:
  assumes law: "substrate_law B V" and ok: "db_ok B V db w" and run: "db_step D B c (db, w, f) = (db', w', f')"
  shows "only_moves B V (db_handle db) w w' \<and> (\<exists>k. db' = db\<lparr>db_kernel := k\<rparr>)"
proof -
  have inv: "sv_inv V w" "sv_live V w (db_handle db)" using ok by (simp_all add: db_ok_def)
  note refl = only_moves_refl [OF inv(1), of B "db_handle db"]
  show ?thesis
  proof (cases c)
    case OpSnapshot
    with run obtain r where "db_snapshot D B db w f = (r, db', w', f')" by (auto split: prod.splits)
    from db_snapshot_moves [OF law ok this] show ?thesis by simp
  next
    case OpEnsureDurable
    with run have same: "db' = db" by (auto split: prod.splits)
    have "still B V w w'"
    proof (cases "db_store db")
      case (Local h)
      with OpEnsureDurable run show ?thesis using still_refl [OF inv(1), of B] by (simp add: db_ensure_durable_def)
    next
      case (Tiered t)
      obtain r w1 where "tr_ensure_durable B t [pg_head B t w] w = (r, w1)" by fastforce
      with reads_lawD(5) [OF substrate_lawD(2) [OF law inv(1)], of t "[pg_head B t w]"] inv(2) Tiered
        OpEnsureDurable run show ?thesis
        by (simp add: db_ensure_durable_def db_handle_def)
    qed
    then show ?thesis by (simp add: same still_only_moves)
  next
    case (OpRestore m)
    with run obtain r where "db_restore D B db m w f = (r, db', w', f')" by (auto split: prod.splits)
    from db_restore_moves [OF law ok this] show ?thesis .
  qed (use run refl in \<open>auto simp: db_query_def db_execute_def db_execute_batch_def db_export_duckdb_def
      split: prod.splits\<close>)
qed

lemma db_run_moves:
  assumes law: "substrate_law B V"
  shows "db_ok B V db w \<Longrightarrow> db_run D B ops (db, w, f) = (db', w', f') \<Longrightarrow>
    only_moves B V (db_handle db) w w' \<and> (\<exists>k. db' = db\<lparr>db_kernel := k\<rparr>)"
proof (induction ops arbitrary: db w f)
  case Nil
  then show ?case by (auto simp: db_run_def db_ok_def intro: only_moves_refl)
next
  case (Cons c ops)
  obtain db1 w1 f1 where s: "db_step D B c (db, w, f) = (db1, w1, f1)" by (cases "db_step D B c (db, w, f)") auto
  note st = db_step_moves [OF law Cons.prems(1) s]
  then obtain k where k: "db1 = db\<lparr>db_kernel := k\<rparr>" by blast
  have "db_ok B V db1 w1" using db_ok_moves [OF Cons.prems(1)] st k by (metis db_kernel_update(4))
  moreover have "db_run D B ops (db1, w1, f1) = (db', w', f')" using Cons.prems(2) s by (simp add: db_run_def)
  ultimately have rest: "only_moves B V (db_handle db1) w1 w' \<and> (\<exists>k. db' = db1\<lparr>db_kernel := k\<rparr>)" by (rule Cons.IH)
  then have "only_moves B V (db_handle db) w w'" using st k by (metis only_moves_trans db_kernel_update(1))
  moreover have "\<exists>k. db' = db\<lparr>db_kernel := k\<rparr>" using rest k by auto
  ultimately show ?case by blast
qed

subsection \<open>The guarantees of a database\<close>

text \<open>Two handles of a world, neither of which the other's operations move.\<close>

lemma only_moves_other:
  assumes "only_moves B V h w w'" "db_ok B V db w" "db_handle db \<noteq> h"
  shows "db_head B db w' = db_head B db w"
  using assms by (auto simp: only_moves_def db_ok_def db_head_handle)

text \<open>C1: a write to a fork is never visible in its parent. A fork that returns starts at its parent's
  snapshot, on a handle and a directory of its own, recorded there; and then no sequence of
  operations on either of the two, failed ones included, moves the head of the other or what the
  other's directory records.\<close>

theorem fork_isolated:
  assumes "substrate_law B V" "db_ok B V db w" "\<forall>d. db_home db = Some d \<longrightarrow> path_exists f d"
    and "db_fork D B db name w f = (Ok child, parent, w1, f1)"
    and "db_run D B ops (child, w1, f1) = (child2, w2, f2)"
    and "db_run D B ops (parent, w1, f1) = (parent2, w3, f3)"
  shows "db_head B child w1 = db_head B parent w1 \<and> db_ok B V child w1 \<and> db_ok B V parent w1 \<and>
    (\<exists>d. db_home child = Some d \<and> db_home parent \<noteq> Some d \<and> sv_recorded V w1 d = db_head B parent w1 \<and>
       sv_recorded V w3 d = sv_recorded V w1 d) \<and>
    db_head B parent w2 = db_head B parent w1 \<and>
    (\<forall>d. db_home parent = Some d \<longrightarrow> sv_recorded V w2 d = sv_recorded V w1 d) \<and>
    db_head B child w3 = db_head B child w1"
proof -
  let ?d = "db_dir (db_root db) name"
  obtain m w0 f0 where snap: "db_snapshot D B db w f = (Ok m, parent, w0, f0)" and free: "\<not> path_exists f ?d"
    and child: "db_ok B V child w1" "db_synced B V child w1" "db_head B child w1 = m" "db_home child = Some ?d"
    and new: "\<not> sv_live V w0 (db_handle child)" and mv: "only_moves B V (db_handle child) w0 w1"
    by (rule db_fork_Ok [OF assms(1,2,4)])
  note sm = db_snapshot_moves [OF assms(1,2) snap]
  obtain k where k: "parent = db\<lparr>db_kernel := k\<rparr>" using sm by blast
  have ok0: "db_ok B V parent w0" using sm by simp
  have ok1: "db_ok B V parent w1" by (rule db_ok_moves [OF ok0 mv])
  have ne: "db_handle parent \<noteq> db_handle child" using ok0 new by (auto simp: db_ok_def)
  have "db_head B parent w0 = m" by (rule db_snapshot_commits [OF assms(1,2) snap]) (simp add: k)
  then have start: "db_head B parent w1 = m" using only_moves_other [OF mv ok0 ne] by simp
  have hd: "db_home parent \<noteq> Some ?d" using assms(3) free k by auto
  have rc: "db_run D B ops (child, w1, f1) = (child2, w2, f2)" "db_run D B ops (parent, w1, f1) = (parent2, w3, f3)"
    using assms(5,6) by simp_all
  note mc = db_run_moves [OF assms(1) child(1) rc(1), THEN conjunct1]
    and mp = db_run_moves [OF assms(1) ok1 rc(2), THEN conjunct1]
  have dirs: "sv_dir V (db_handle child) = Some ?d" "sv_dir V (db_handle parent) = db_home parent"
    using child(1,4) ok1 by (simp_all add: db_ok_def)
  have "sv_recorded V w1 ?d = m" using child(2-4) by (simp add: db_synced_def)
  moreover have "sv_recorded V w3 ?d = sv_recorded V w1 ?d" using mp dirs hd by (simp add: only_moves_def)
  moreover have "\<forall>d. db_home parent = Some d \<longrightarrow> sv_recorded V w2 d = sv_recorded V w1 d"
    using mc dirs hd by (auto simp: only_moves_def)
  ultimately show ?thesis
    using start child ok1 hd only_moves_other [OF mc ok1 ne] only_moves_other [OF mp child(1)] ne by auto
qed

text \<open>C3: a snapshot survives a restart. Once a local database's snapshot has returned, opening the
  database again, whatever happened to other databases in between, finds the same manifest as its
  head and gives DuckDB, byte for byte, the file it had when it checkpointed.\<close>

theorem snapshot_survives_restart:
  assumes "substrate_law B V" "db_ok B V db w" "db_synced B V db w"
    and "db_home db = Some (db_dir root name)" "db_snapshot D B db w f = (Ok m, db1, w1, f1)"
    and "duck_batch D (k_conn (db_kernel db)) ''CHECKPOINT'' f = (Inr (), c, fc)"
      "fs_lookup fc (k_path (db_kernel db)) = Some (FileNode bs)" "length bs \<le> isize_max"
    and "sv_inv V w2" "sv_recorded V w2 (db_dir root name) = sv_recorded V w1 (db_dir root name)"
    and "flock_open_with D B root name opts w2 f2 = (Inr db2, w3, f3)"
  shows "db_head B db2 w3 = m \<and> db_synced B V db2 w3 \<and>
    (\<exists>f4. duck_open D (k_path (db_kernel db2)) (ko_threads opts) (ko_max_memory opts) f4 =
         (Inr (k_conn (db_kernel db2)), f3) \<and>
       fs_lookup f4 (k_path (db_kernel db2)) = (if bs = [] then None else Some (FileNode bs)))"
proof -
  let ?d = "db_dir root name"
  note sn = db_snapshot_Ok [OF assms(1-3,5)]
  have pages: "sv_pages V m = layout (pg_page_size B (db_handle db) w) bs" using sn assms(6-8) by auto
  have size: "pg_page_size B (db_handle db) w = sb_default_page_size B" using assms(3,4) by (simp add: db_synced_def)
  obtain k where "db1 = db\<lparr>db_kernel := k\<rparr>" using db_snapshot_moves [OF assms(1,2,5)] by blast
  then have rec: "sv_recorded V w1 ?d = m" using sn assms(4) by (auto simp: db_synced_def)
  from flock_open_Inr [OF assms(1,9,11)] obtain w0 f0 where
    op: "db_synced B V db2 w3" "db_head B db2 w3 = sv_recorded V w2 ?d" "db_home db2 = Some ?d"
      "kernel_open D (store_page_store B (db_store db2)) w0 opts f0 = (Inr (db_kernel db2), w3, f3)"
      "still B V w0 w3" "sv_inv V w0" "sv_live V w0 (db_handle db2)" by blast
  have head: "db_head B db2 w3 = m" using op(2) rec assms(10) by simp
  have same: "pg_head B (db_handle db2) w0 = m" "pg_page_size B (db_handle db2) w0 = sb_default_page_size B"
    using head op by (simp_all add: still_def db_head_handle db_synced_def)
  have I: "sv_inv V w0 \<and> sv_live V w0 (store_pager (db_store db2))" using op(6,7) by (simp add: db_handle_def)
  have "sv_pages V (pst_head (store_page_store B (db_store db2)) w0) =
      layout (pst_page_size (store_page_store B (db_store db2)) w0) bs"
    using same pages size by (simp add: db_handle_def)
  from kernel_open_Inr [OF core_store_law [OF assms(1)] I this assms(8) op(4)] head op(1) show ?thesis by blast
qed

lemma db_restore_stopped:
  assumes law: "substrate_law B V" and ok: "db_ok B V db w" and run: "db_restore D B db m w f = (r, db', w', f')"
    and stop: "db_rewind_to B db m w = (Inl e, w1)"
  shows "r = Inl e \<and> db' = db \<and> (\<nexists>x. e = FKernel x) \<and> ((\<exists>x. e = UnknownSnapshot x) \<longrightarrow> still B V w w')"
proof -
  have s: "r = Inl e" "db' = db" "w' = w1" using run stop by (simp_all add: db_restore_def)
  have "still B V w (snd (pg_manifest B (db_handle db) m w))"
    using reads_lawD(4) [OF substrate_lawD(2) [OF law], of w "db_handle db" m
        "fst (pg_manifest B (db_handle db) m w)" "snd (pg_manifest B (db_handle db) m w)"] ok
    by (simp add: db_ok_def)
  moreover have "(\<nexists>x. e = FKernel x) \<and> ((\<exists>x. e = UnknownSnapshot x) \<longrightarrow> w1 = snd (pg_manifest B (db_handle db) m w))"
    using stop by (auto simp: db_rewind_to_def db_handle_def map_err_def split: sum.splits prod.splits store.splits)
  ultimately show ?thesis using s by auto
qed

lemma db_restore_rewound:
  assumes law: "substrate_law B V" and ok: "db_ok B V db w" and run: "db_restore D B db m w f = (r, db', w', f')"
    and rw: "db_rewind_to B db m w = (Inr (), w1)"
  shows "db_head B db w' = m \<and> (\<forall>d. db_home db = Some d \<longrightarrow> sv_recorded V w' d = m) \<and>
    (case r of
       Inl e \<Rightarrow> (\<exists>x. e = FKernel x) \<and> db' = db
     | Inr _ \<Rightarrow> (\<exists>k. db' = db\<lparr>db_kernel := k\<rparr> \<and>
         (\<exists>f1. kernel_open D (store_page_store B (db_store db)) w1 (db_opts db) f = (Inr k, w', f1))))"
proof -
  note re = db_rewind_Inr [OF law ok rw]
  have ok1: "db_ok B V db w1" using re db_ok_moves [OF ok] by blast
  obtain z w2 f1 where ko: "kernel_open D (store_page_store B (db_store db)) w1 (db_opts db) f = (z, w2, f1)"
    by (cases "kernel_open D (store_page_store B (db_store db)) w1 (db_opts db) f") auto
  have I: "sv_inv V w1 \<and> sv_live V w1 (store_pager (db_store db))" using ok1 by (simp add: db_ok_def db_handle_def)
  have "still B V w1 w2" using kernel_open_still [OF law _ _ ko] I by simp
  then have "db_head B db w2 = m" "\<forall>d. db_home db = Some d \<longrightarrow> sv_recorded V w2 d = m"
    using re I by (simp_all add: still_def db_head_handle db_handle_def)
  with rw run ko show ?thesis by (cases z) (auto simp: db_restore_def)
qed

text \<open>C37: a restore moves the head before it rebuilds the engine. When it succeeds the head is the
  snapshot, recorded on a local database, and DuckDB runs over the snapshot's file; when only the
  rebuild fails, the head has moved and is recorded all the same, while the engine still shows the
  state that was to be discarded; an unknown snapshot moves nothing.\<close>

theorem restore_moves_head:
  assumes "substrate_law B V" "db_ok B V db w" "db_restore D B db m w f = (r, db', w', f')"
  shows "case r of
      Inr _ \<Rightarrow> db_head B db' w' = m \<and> (\<forall>d. db_home db = Some d \<longrightarrow> sv_recorded V w' d = m) \<and>
        (\<forall>bs. sv_pages V m = layout (pg_page_size B (db_handle db) w) bs \<longrightarrow> length bs \<le> isize_max \<longrightarrow>
          (\<exists>f1 f2. duck_open D (k_path (db_kernel db')) (ko_threads (db_opts db)) (ko_max_memory (db_opts db)) f1 =
             (Inr (k_conn (db_kernel db')), f2) \<and>
           fs_lookup f1 (k_path (db_kernel db')) = (if bs = [] then None else Some (FileNode bs))))
    | Inl (FKernel _) \<Rightarrow> db_head B db' w' = m \<and> (\<forall>d. db_home db = Some d \<longrightarrow> sv_recorded V w' d = m) \<and> db' = db
    | Inl (UnknownSnapshot _) \<Rightarrow> still B V w w' \<and> db' = db
    | Inl _ \<Rightarrow> db' = db"
proof (cases "db_rewind_to B db m w")
  case (Pair q w1)
  show ?thesis
  proof (cases q)
    case (Inl e)
    from db_restore_stopped [OF assms Pair [unfolded Inl]] show ?thesis by (cases e) auto
  next
    case (Inr u)
    then have rw: "db_rewind_to B db m w = (Inr (), w1)" using Pair by simp
    note fin = db_restore_rewound [OF assms rw]
    note re = db_rewind_Inr [OF assms(1,2) rw]
    have "db_ok B V db w1" using re db_ok_moves [OF assms(2)] by blast
    then have I: "sv_inv V w1 \<and> sv_live V w1 (store_pager (db_store db))" by (simp add: db_ok_def db_handle_def)
    have page: "pg_page_size B (db_handle db) w1 = pg_page_size B (db_handle db) w"
      using re assms(2) by (simp add: only_moves_def db_ok_def)
    have "\<exists>f0 f9. duck_open D (k_path k) (ko_threads (db_opts db)) (ko_max_memory (db_opts db)) f0 = (Inr (k_conn k), f9) \<and>
        fs_lookup f0 (k_path k) = (if bs = [] then None else Some (FileNode bs))"
      if "kernel_open D (store_page_store B (db_store db)) w1 (db_opts db) f = (Inr k, w', f1)"
        "sv_pages V m = layout (pg_page_size B (db_handle db) w) bs" "length bs \<le> isize_max" for k f1 bs
    proof -
      have "sv_pages V (pst_head (store_page_store B (db_store db)) w1) =
          layout (pst_page_size (store_page_store B (db_store db)) w1) bs"
        using that(2) page re by (simp add: db_head_handle db_handle_def)
      from kernel_open_Inr [OF core_store_law [OF assms(1)] I this that(3,1)] show ?thesis by blast
    qed
    note engine = this
    show ?thesis
    proof (cases r)
      case (Inl e)
      with fin show ?thesis by auto
    next
      case (Inr v)
      with fin obtain k f1 where k: "db' = db\<lparr>db_kernel := k\<rparr>"
        "kernel_open D (store_page_store B (db_store db)) w1 (db_opts db) f = (Inr k, w', f1)" by auto
      show ?thesis using fin engine [OF k(2)] Inr k(1) by simp
    qed
  qed
qed

lemma link_makes_dir: "link_db_to_shared_cas root name f = (Inr dir, f') \<Longrightarrow> path_exists f' dir"
proof -
  assume run: "link_db_to_shared_cas root name f = (Inr dir, f')"
  have plain: "list_all plain [''pages'', ''manifests'']" by (simp add: plain_def)
  obtain f1 f2 where d: "fs_create_dir_all f1 dir = (Inr (), f2)"
    and l: "link_shared dir [''pages'', ''manifests''] f2 = (Inr (), f')"
    using run by (auto simp: link_db_to_shared_cas_def Let_def split: sum.splits prod.splits)
  have "is_dir f2 dir" using create_dir_all_rooted [OF d] by (auto simp: fs_rooted_def)
  then have "is_dir f' dir" using link_shared_effect [OF l plain] fs_grows_dir by blast
  then show ?thesis by (simp add: path_exists_def is_dir_def)
qed

lemma create_shared_error: "create_shared cas subs f = (Inl e, f') \<Longrightarrow> \<exists>op p x. e = FPool op p x"
proof (induction cas subs f rule: create_shared.induct)
  case (1 cas f)
  then show ?case by simp
next
  case (2 cas sub subs f)
  then show ?case by (cases "fs_create_dir_all f (join cas sub)"; cases "fst (fs_create_dir_all f (join cas sub))")
    (auto simp: Let_def)
qed

lemma link_shared_error: "link_shared dir subs f = (Inl e, f') \<Longrightarrow> \<exists>op p x. e = FPool op p x"
proof (induction dir subs f rule: link_shared.induct)
  case (1 dir f)
  then show ?case by simp
next
  case (2 dir sub subs f)
  obtain m f1 where m: "fs_symlink_metadata f (join dir sub) = (m, f1)" by fastforce
  obtain k f2 where k: "fs_symlink f1 (shared_target sub) (join dir sub) = (k, f2)" by fastforce
  show ?case
  proof (cases m)
    case (Inr n)
    with 2 m show ?thesis by (simp add: Let_def)
  next
    case (Inl x)
    show ?thesis
    proof (cases x)
      case IoNotFound
      with 2 m k Inl show ?thesis by (cases k) (auto simp: Let_def)
    qed (use 2 m Inl in \<open>auto simp: Let_def\<close>)
  qed
qed

lemma link_error_pool: "link_db_to_shared_cas root name f = (Inl e, f') \<Longrightarrow> \<exists>op p x. e = FPool op p x"
  by (auto simp: link_db_to_shared_cas_def Let_def simp del: create_shared.simps link_shared.simps
      split: sum.splits prod.splits dest: create_shared_error link_shared_error)

subsection \<open>Instances\<close>

definition demo_db :: "(demo_handle, unit) db" where
  "demo_db = \<lparr>db_name = ''a'', db_root = [''pool''], db_store = Local (0, Some [''pool'', ''dbs'', ''a'']),
     db_kernel = \<lparr>k_conn = (), k_path = [''db''], k_scratch = [''old'']\<rparr>, db_opts = opts_default\<rparr>"

definition demo_w :: demo_world where
  "demo_w = \<lparr>dw_open = [(Some [''pool'', ''dbs'', ''a''], ManifestId [1])],
     dw_recorded = [([''pool'', ''dbs'', ''a''], ManifestId [1])], dw_pages = [], dw_manifests = []\<rparr>"

definition demo_pool :: fs where
  "demo_pool = \<lparr>fs_tree = [([''db''], FileNode [1, 2, 3, 4, 5]), ([''pool''], DirNode), ([''pool'', ''dbs''], DirNode),
     ([''pool'', ''dbs'', ''a''], DirNode)], fs_faults = (\<lambda>_. None), fs_calls = 0,
     fs_done = (\<lambda>_. None), fs_gone = (\<lambda>_ _. False)\<rparr>"

lemma demo_db_ok: "db_ok demo_subst demo_obs demo_db demo_w"
  by (simp add: db_ok_def demo_db_def demo_w_def db_handle_def db_home_def demo_live_def db_dir_def join_plain)

lemma demo_db_synced: "db_synced demo_subst demo_obs demo_db demo_w"
  by (simp add: db_synced_def demo_db_def demo_w_def db_handle_def db_home_def db_head_handle demo_recorded_def
      demo_head_def db_dir_def join_plain)

lemma demo_snapshot:
  "db_snapshot demo_duck demo_subst demo_db demo_w demo_pool =
     (Ok (ManifestId [1]), demo_db, demo_w, demo_pool\<lparr>fs_calls := 2\<rparr>)"
proof -
  have head: "demo_head (0, Some [''pool'', ''dbs'', ''a'']) demo_w = ManifestId [1]"
    by (simp add: demo_head_def demo_w_def)
  have res: "fst (pst_resolve demo_pst (ManifestId [1]) (ManifestId [1])) = Inr [(0, PageId [0]), (1, PageId [1])]"
    "fst (pst_read demo_pst (ManifestId [1]) (ManifestId [1]) 0) = Inr [1, 2, 3, 4]"
    "fst (pst_read demo_pst (ManifestId [1]) (ManifestId [1]) 1) = Inr [5]"
    by (simp_all add: demo_pst_def demo_view_def)
  have wal: "fold_wal demo_duck (db_kernel demo_db) demo_pool =
      (Inr (), db_kernel demo_db, demo_pool\<lparr>fs_calls := 1\<rparr>)"
    by (simp add: fold_wal_def kernel_batch_def demo_duck_def demo_db_def wal_path_def with_extension_def
        file_name_def fs_metadata_len_def follow.simps fs_call_def fs_call_in_parts_def demo_pool_def fs_lookup_def Let_def)
  have parts: "db_store demo_db = Local (0, Some [''pool'', ''dbs'', ''a''])"
    "store_pager (db_store demo_db) = (0, Some [''pool'', ''dbs'', ''a''])" "k_path (db_kernel demo_db) = [''db'']"
    by (simp_all add: demo_db_def)
  have "stage_file (store_page_store demo_subst (db_store demo_db)) 4 (ManifestId [1]) [1, 2, 3, 4, 5] demo_w =
      (Inr [], demo_w)"
    using res by (simp add: stage_file_def chunks.simps parts(2) word_le_nat_alt del: store_page_store.simps)
  moreover have "pst_commit (store_page_store demo_subst (db_store demo_db)) demo_w [] = (Inr (ManifestId [1]), demo_w)"
    using head by (simp add: parts(1) delegate_to_pager_def durable_commit_def)
  moreover have "fs_read (demo_pool\<lparr>fs_calls := 1\<rparr>) [''db''] = (Inr [1, 2, 3, 4, 5], demo_pool\<lparr>fs_calls := 2\<rparr>)"
    by (simp add: fs_read_def fs_call_def fs_call_in_parts_def demo_pool_def fs_lookup_def)
  ultimately have "persist (store_page_store demo_subst (db_store demo_db)) demo_w [''db''] (demo_pool\<lparr>fs_calls := 1\<rparr>) =
      (Ok (ManifestId [1]), demo_w, demo_pool\<lparr>fs_calls := 2\<rparr>)"
    using head by (simp add: persist_def Let_def parts(2) del: store_page_store.simps)
  with wal show ?thesis by (simp add: db_snapshot_def kernel_checkpoint_def parts(3) del: store_page_store.simps)
qed

lemma demo_kernel_open:
  assumes "demo_head h w = ManifestId [1]" "fs_quiet f" "fs_lookup f [''tmp'', ''flock.duckdb''] \<noteq> Some DirNode"
  obtains f' where "kernel_open demo_duck (store_page_store demo_subst (Local h)) w opts_default f =
    (Inr \<lparr>k_conn = (), k_path = [''tmp'', ''flock.duckdb''], k_scratch = [''tmp'']\<rparr>, w, f')"
proof -
  let ?P = "store_page_store demo_subst (Local h)" and ?f = "fs_put f [''tmp''] DirNode"
  have res: "fst (pst_resolve demo_pst (ManifestId [1]) (ManifestId [1])) = Inr [(0, PageId [0]), (1, PageId [1])]"
    "fst (pst_read demo_pst (ManifestId [1]) (ManifestId [1]) 0) = Inr [1, 2, 3, 4]"
    "fst (pst_read demo_pst (ManifestId [1]) (ManifestId [1]) 1) = Inr [5]"
    by (simp_all add: demo_pst_def demo_view_def)
  have quiet: "fs_quiet ?f" using assms(2) by (simp add: fs_quiet_def)
  obtain f' where wr: "fs_write ?f [''tmp'', ''flock.duckdb''] [1, 2, 3, 4, 5] = (Inr (), f')"
    using assms(3) by (simp add: fs_write_def fs_call_quiet [OF quiet] is_dir_def fs_simps)
  have hyd: "hydrate ?P w (ManifestId [1]) [''tmp'', ''flock.duckdb''] ?f = (Inr (), w, f')"
    using res wr by (simp add: hydrate_def Let_def del: store_page_store.simps)
  have "pst_head ?P w = ManifestId [1]" using assms(1) by (simp del: store_page_store.simps)
  with hyd that show thesis
    by (simp add: kernel_open_def demo_duck_def Let_def opts_default_def demo_open_at del: store_page_store.simps)
qed

lemma link_db_grows: "link_db_to_shared_cas root name f = (r, f') \<Longrightarrow> fs_grows f f'"
proof -
  assume run: "link_db_to_shared_cas root name f = (r, f')"
  have plain: "list_all plain [''pages'', ''manifests'']" by (simp add: plain_def)
  obtain a fa where a: "create_shared (cas_dir root) [''pages'', ''manifests''] f = (a, fa)" by fastforce
  obtain b fb where b: "fs_create_dir_all fa (db_dir root name) = (b, fb)" by fastforce
  obtain c fc where c: "link_shared (db_dir root name) [''pages'', ''manifests''] fb = (c, fc)" by fastforce
  have "f' \<in> {fa, fb, fc}"
    using run a b c by (auto simp: link_db_to_shared_cas_def Let_def split: sum.splits)
  moreover have "fs_grows f fa" by (rule create_shared_grows [OF a])
  moreover have "fs_grows fa fb" by (rule create_dir_all_grows [OF b])
  moreover have "fs_grows fb fc" using link_shared_effect [OF c plain] by simp
  ultimately show ?thesis by (auto intro: fs_grows_trans)
qed

lemma demo_forks:
  obtains child f' where "db_fork demo_duck demo_subst demo_db ''b'' demo_w demo_pool =
      (Ok child, demo_db, demo_w\<lparr>dw_open := dw_open demo_w @ [(Some [''pool'', ''dbs'', ''b''], ManifestId [1])],
         dw_recorded := ([''pool'', ''dbs'', ''b''], ManifestId [1]) # dw_recorded demo_w\<rparr>, f')"
    "db_name child = ''b''" "db_handle child = (1, Some [''pool'', ''dbs'', ''b''])"
proof -
  let ?d = "[''pool'', ''dbs'', ''b'']" and ?h = "(1, Some [''pool'', ''dbs'', ''b'']) :: demo_handle"
  define w5 where "w5 = demo_w\<lparr>dw_open := dw_open demo_w @ [(Some ?d, ManifestId [1])],
         dw_recorded := (?d, ManifestId [1]) # dw_recorded demo_w\<rparr>"
  have v: "validate_name ''b'' = Inr ()" by code_simp
  have d: "db_dir [''pool''] ''b'' = ?d" by (simp add: db_dir_def join_plain)
  have free: "\<not> path_exists demo_pool ?d" by (simp add: path_exists_def fs_lookup_def demo_pool_def)
  have "fst (link_db_to_shared_cas [''pool''] ''b'' (demo_pool\<lparr>fs_calls := 2\<rparr>)) = Inr ?d" by code_simp
  then obtain f2 where link: "link_db_to_shared_cas [''pool''] ''b'' (demo_pool\<lparr>fs_calls := 2\<rparr>) = (Inr ?d, f2)"
    by (metis prod.collapse)
  have "fs_lookup (snd (link_db_to_shared_cas [''pool''] ''b'' (demo_pool\<lparr>fs_calls := 2\<rparr>)))
      [''tmp'', ''flock.duckdb''] = None" by code_simp
  then have none: "fs_lookup f2 [''tmp'', ''flock.duckdb''] \<noteq> Some DirNode" by (simp add: link)
  have quiet: "fs_quiet f2"
    using link_db_grows [OF link] by (simp add: fs_grows_def fs_quiet_def demo_pool_def)
  have head: "demo_head ?h w5 = ManifestId [1]" by (simp add: w5_def demo_head_def demo_w_def)
  obtain f' where ko: "kernel_open demo_duck (store_page_store demo_subst (Local ?h)) w5 opts_default f2 =
    (Inr \<lparr>k_conn = (), k_path = [''tmp'', ''flock.duckdb''], k_scratch = [''tmp'']\<rparr>, w5, f')"
    by (rule demo_kernel_open [OF head quiet none])
  have parts: "db_root demo_db = [''pool'']" "db_opts demo_db = opts_default" by (simp_all add: demo_db_def)
  define w2 where "w2 = demo_w\<lparr>dw_open := dw_open demo_w @ [(Some ?d, ManifestId [])]\<rparr>"
  define w4 where "w4 = demo_w\<lparr>dw_open := dw_open demo_w @ [(Some ?d, ManifestId [1])]\<rparr>"
  have op: "sb_open demo_subst ?d demo_w = (Inr ?h, w2)" by (simp add: demo_open_at_def demo_w_def w2_def)
  have rec: "sb_recover demo_subst ?h w2 = (Inr (), w2)"
    by (simp add: demo_set_def demo_recorded_def demo_w_def w2_def)
  have pos: "pg_set_head_to demo_subst ?h (ManifestId [1]) w2 = (Inr (), w4)"
    by (simp add: demo_set_def demo_w_def w2_def w4_def)
  have cp: "sb_checkpoint demo_subst ?h w4 = (Inr (), w5)"
    by (simp add: demo_head_def demo_w_def w4_def w5_def)
  have run: "db_fork demo_duck demo_subst demo_db ''b'' demo_w demo_pool =
     (Ok \<lparr>db_name = ''b'', db_root = [''pool''], db_store = Local ?h,
        db_kernel = \<lparr>k_conn = (), k_path = [''tmp'', ''flock.duckdb''], k_scratch = [''tmp'']\<rparr>,
        db_opts = opts_default\<rparr>, demo_db, w5, f')"
    unfolding db_fork_def
    by (simp only: v d free parts demo_snapshot link op rec pos cp ko Let_def prod.case sum.case outcome.case if_False)
  show thesis
    by (rule that [OF run [unfolded w5_def]]) (simp_all add: db_handle_def)
qed

lemma fork_isolated_witness:
  "\<exists>child w1 f1. db_fork demo_duck demo_subst demo_db ''b'' demo_w demo_pool = (Ok child, demo_db, w1, f1) \<and>
     db_head demo_subst child w1 = ManifestId [1] \<and>
     db_head demo_subst demo_db
       (fst (snd (db_run demo_duck demo_subst [OpRestore (ManifestId []), OpSnapshot] (child, w1, f1)))) = ManifestId [1]"
proof -
  obtain child w1 f1 where run: "db_fork demo_duck demo_subst demo_db ''b'' demo_w demo_pool = (Ok child, demo_db, w1, f1)"
    and w1: "w1 = demo_w\<lparr>dw_open := dw_open demo_w @ [(Some [''pool'', ''dbs'', ''b''], ManifestId [1])],
         dw_recorded := ([''pool'', ''dbs'', ''b''], ManifestId [1]) # dw_recorded demo_w\<rparr>"
    by (rule demo_forks) blast
  let ?ops = "[OpRestore (ManifestId []), OpSnapshot]"
  obtain c2 w2 f2 where c: "db_run demo_duck demo_subst ?ops (child, w1, f1) = (c2, w2, f2)"
    by (cases "db_run demo_duck demo_subst ?ops (child, w1, f1)") auto
  obtain p2 w3 f3 where p: "db_run demo_duck demo_subst ?ops (demo_db, w1, f1) = (p2, w3, f3)"
    by (cases "db_run demo_duck demo_subst ?ops (demo_db, w1, f1)") auto
  have there: "\<forall>d. db_home demo_db = Some d \<longrightarrow> path_exists demo_pool d"
    by (simp add: db_home_def demo_db_def db_dir_def join_plain path_exists_def fs_lookup_def demo_pool_def)
  have "db_head demo_subst demo_db w1 = ManifestId [1]"
    by (simp add: db_head_handle db_handle_def demo_db_def demo_head_def demo_w_def w1)
  with fork_isolated [OF demo_law demo_db_ok there run c p] run c show ?thesis by auto
qed

lemma demo_opens_a:
  obtains db2 w3 f3 where "flock_open_with demo_duck demo_subst [''pool''] ''a'' opts_default demo_w
      (demo_pool\<lparr>fs_calls := 2\<rparr>) = (Inr db2, w3, f3)"
proof -
  let ?f = "demo_pool\<lparr>fs_calls := 2\<rparr>"
  let ?d = "[''pool'', ''dbs'', ''a'']" and ?h = "(1, Some [''pool'', ''dbs'', ''a'']) :: demo_handle"
  have v: "validate_name ''a'' = Inr ()" by code_simp
  have "fst (link_db_to_shared_cas [''pool''] ''a'' ?f) = Inr ?d" by code_simp
  then obtain f2 where link: "link_db_to_shared_cas [''pool''] ''a'' ?f = (Inr ?d, f2)" by (metis prod.collapse)
  have "fs_lookup (snd (link_db_to_shared_cas [''pool''] ''a'' ?f)) [''tmp'', ''flock.duckdb''] = None" by code_simp
  then have none: "fs_lookup f2 [''tmp'', ''flock.duckdb''] \<noteq> Some DirNode" by (simp add: link)
  have quiet: "fs_quiet f2" using link_db_grows [OF link] by (simp add: fs_grows_def fs_quiet_def demo_pool_def)
  define w1 where "w1 = demo_w\<lparr>dw_open := dw_open demo_w @ [(Some ?d, ManifestId [])]\<rparr>"
  define w2 where "w2 = demo_w\<lparr>dw_open := dw_open demo_w @ [(Some ?d, ManifestId [1])]\<rparr>"
  have op: "sb_open demo_subst ?d demo_w = (Inr ?h, w1)" by (simp add: demo_open_at_def demo_w_def w1_def)
  have rec: "sb_recover demo_subst ?h w1 = (Inr (), w2)"
    by (simp add: demo_set_def demo_recorded_def demo_w_def w1_def w2_def)
  have head: "demo_head ?h w2 = ManifestId [1]" by (simp add: w2_def demo_head_def demo_w_def)
  from demo_kernel_open [OF head quiet none] obtain f' where ko:
    "kernel_open demo_duck (store_page_store demo_subst (Local ?h)) w2 opts_default f2 =
      (Inr \<lparr>k_conn = (), k_path = [''tmp'', ''flock.duckdb''], k_scratch = [''tmp'']\<rparr>, w2, f')" by blast
  show thesis
    by (rule that, unfold flock_open_with_def) (simp only: v link op rec ko Let_def prod.case sum.case)
qed

lemma snapshot_survives_restart_witness:
  "\<exists>db2 w3 f3. flock_open_with demo_duck demo_subst [''pool''] ''a'' opts_default demo_w (demo_pool\<lparr>fs_calls := 2\<rparr>) =
     (Inr db2, w3, f3) \<and> db_head demo_subst db2 w3 = ManifestId [1]"
proof -
  obtain db2 w3 f3 where run: "flock_open_with demo_duck demo_subst [''pool''] ''a'' opts_default demo_w
      (demo_pool\<lparr>fs_calls := 2\<rparr>) = (Inr db2, w3, f3)" by (rule demo_opens_a)
  have home: "db_home demo_db = Some (db_dir [''pool''] ''a'')" by (simp add: db_home_def demo_db_def)
  have ck: "duck_batch demo_duck (k_conn (db_kernel demo_db)) ''CHECKPOINT'' demo_pool = (Inr (), (), demo_pool)"
    by (simp add: demo_duck_def)
  have ondisk: "fs_lookup demo_pool (k_path (db_kernel demo_db)) = Some (FileNode [1, 2, 3, 4, 5])"
    by (simp add: demo_db_def fs_lookup_def demo_pool_def)
  have len: "length [1, 2, 3, 4, 5 :: u8] \<le> isize_max" by (simp add: isize_max_def)
  from snapshot_survives_restart [OF demo_law demo_db_ok demo_db_synced home demo_snapshot ck ondisk len _ _ run]
  show ?thesis using run by simp
qed

lemma restore_moves_head_witness:
  "\<exists>db' w' f'. db_restore demo_duck demo_subst demo_db (ManifestId [1])
      (demo_w\<lparr>dw_open := [(Some [''pool'', ''dbs'', ''a''], ManifestId [])]\<rparr>) demo_pool = (Inr (), db', w', f') \<and>
     db_head demo_subst db' w' = ManifestId [1]"
proof -
  let ?h = "(0, Some [''pool'', ''dbs'', ''a'']) :: demo_handle"
  define w0 where "w0 = demo_w\<lparr>dw_open := [(Some [''pool'', ''dbs'', ''a''], ManifestId [])]\<rparr>"
  have ok: "db_ok demo_subst demo_obs demo_db w0"
    by (simp add: db_ok_def demo_db_def w0_def db_handle_def db_home_def demo_live_def db_dir_def join_plain)
  obtain w2 where rw: "db_rewind_to demo_subst demo_db (ManifestId [1]) w0 = (Inr (), w2)"
    and head: "demo_head ?h w2 = ManifestId [1]"
    by (simp add: db_rewind_to_def demo_db_def w0_def demo_set_def demo_head_def map_err_def)
  have quiet: "fs_quiet demo_pool" and none: "fs_lookup demo_pool [''tmp'', ''flock.duckdb''] \<noteq> Some DirNode"
    by (simp_all add: fs_quiet_def demo_pool_def fs_lookup_def)
  from demo_kernel_open [OF head quiet none] obtain f' where ko:
    "kernel_open demo_duck (store_page_store demo_subst (Local ?h)) w2 opts_default demo_pool =
      (Inr \<lparr>k_conn = (), k_path = [''tmp'', ''flock.duckdb''], k_scratch = [''tmp'']\<rparr>, w2, f')" by blast
  have parts: "db_store demo_db = Local ?h" "db_opts demo_db = opts_default" by (simp_all add: demo_db_def)
  obtain db' w' f9 where run: "db_restore demo_duck demo_subst demo_db (ManifestId [1]) w0 demo_pool = (Inr (), db', w', f9)"
    unfolding db_restore_def by (simp only: rw parts ko prod.case sum.case)
  from restore_moves_head [OF demo_law ok run] run show ?thesis by (auto simp: w0_def)
qed

end
