(* ===== verification/Sync_Replica.thy ===== *)
theory Sync_Replica
  imports Sync_Source
begin

section \<open>The follower side of shipping\<close>

text \<open>
  \<open>crates/flock-sync/src/clock.rs\<close> and \<open>replica.rs\<close>: the replay clock, a replica over a durable
  store, and how it applies shipments, catches up with a source and restores to a point in time.
  The store is substrate's and a parameter; it reads its clock once, in \<open>commit\<close>, so the clock's
  value is an argument of that call. \<open>store_replays\<close> is what the replica relies on: staging leaves
  the head alone, a staged page is filed under its hash, and a commit installs the manifest derived
  from the head, the staged writes and the clock. \<open>store_up\<close> adds that the calls succeed.
\<close>

subsection \<open>The replay clock\<close>

record replay_clock =
  clock_now_ms :: u64

definition clock_new :: replay_clock where
  "clock_new = \<lparr>clock_now_ms = 0\<rparr>"

definition clock_set :: "replay_clock \<Rightarrow> u64 \<Rightarrow> replay_clock" where
  "clock_set c now = c\<lparr>clock_now_ms := now\<rparr>"

definition clock_read :: "replay_clock \<Rightarrow> u64" where
  "clock_read c = clock_now_ms c"

subsection \<open>The replica\<close>

record ('s, 't) store_ops =
  so_open :: "path \<Rightarrow> wal_error + 's"
  so_recover :: "'s \<Rightarrow> (wal_error + unit) \<times> 's"
  so_head :: "'s \<Rightarrow> manifest_id"
  so_read :: "'s \<Rightarrow> manifest_id \<Rightarrow> page_no \<Rightarrow> wal_error + bytes"
  so_begin :: "'s \<Rightarrow> (wal_error + 't) \<times> 's"
  so_write :: "'s \<Rightarrow> 't \<Rightarrow> page_no \<Rightarrow> bytes \<Rightarrow> (wal_error + page_id \<times> 't) \<times> 's"
  so_remove :: "'s \<Rightarrow> 't \<Rightarrow> page_no \<Rightarrow> (wal_error + 't) \<times> 's"
  so_commit :: "'s \<Rightarrow> 't \<Rightarrow> u64 \<Rightarrow> (wal_error + manifest_id) \<times> 's"

datatype applied = Advanced | AlreadyPresent

record 's replica =
  rp_store :: 's
  rp_clock :: replay_clock
  rp_applied :: "lsn option"

definition replica_new :: "'s \<Rightarrow> replay_clock \<Rightarrow> 's replica" where
  "replica_new store clock = \<lparr>rp_store = store, rp_clock = clock, rp_applied = None\<rparr>"

definition replica_open :: "('s, 't) store_ops \<Rightarrow> path \<Rightarrow> sync_error + 's replica" where
  "replica_open SO dir =
     (case so_open SO dir of
        Inl e \<Rightarrow> Inl (SyncWal ''open the follower store'' e)
      | Inr s \<Rightarrow>
          (case so_recover SO s of
             (Inl e, _) \<Rightarrow> Inl (SyncWal ''recover the follower store'' e)
           | (Inr _, s') \<Rightarrow> Inr (replica_new s' clock_new)))"

definition replica_head :: "('s, 't) store_ops \<Rightarrow> 's replica \<Rightarrow> manifest_id" where
  "replica_head SO r = so_head SO (rp_store r)"

definition replica_read :: "('s, 't) store_ops \<Rightarrow> 's replica \<Rightarrow> manifest_id \<Rightarrow> page_no \<Rightarrow> sync_error + bytes" where
  "replica_read SO r m p = map_err (SyncWal ''read a page from the replica'') (so_read SO (rp_store r) m p)"

text \<open>The staging loop of \<open>apply\<close>.\<close>

fun stage :: "('s, 't) store_ops \<Rightarrow> shipment \<Rightarrow> page_write list \<Rightarrow> 't \<Rightarrow> 's \<Rightarrow> (sync_error + 't) \<times> 's" where
  "stage SO sh [] t st = (Inr t, st)"
| "stage SO sh ((p, Some i) # ws) t st =
     (case bytes_for sh i of
        None \<Rightarrow> (Inl (MissingPage (sh_lsn sh) p i), st)
      | Some bs \<Rightarrow>
          (case so_write SO st t p bs of
             (Inl e, st') \<Rightarrow> (Inl (SyncWal ''stage a replicated page'' e), st')
           | (Inr (staged, t'), st') \<Rightarrow>
               if staged \<noteq> i then (Inl (PageHashMismatch p i staged), st')
               else stage SO sh ws t' st'))"
| "stage SO sh ((p, None) # ws) t st =
     (case so_remove SO st t p of
        (Inl e, st') \<Rightarrow> (Inl (SyncWal ''stage a replicated removal'' e), st')
      | (Inr t', st') \<Rightarrow> stage SO sh ws t' st')"

definition apply_shipment ::
  "('s, 't) store_ops \<Rightarrow> 's replica \<Rightarrow> shipment \<Rightarrow> (sync_error + applied) \<times> 's replica" where
  "apply_shipment SO r sh =
     (let head = so_head SO (rp_store r)
      in if head = sh_manifest sh then
           (Inr AlreadyPresent,
            r\<lparr>rp_applied := Some (case rp_applied r of Some prev \<Rightarrow> max prev (sh_lsn sh) | None \<Rightarrow> sh_lsn sh)\<rparr>)
         else if head \<noteq> sh_base sh then (Inl (OutOfOrder (sh_lsn sh) (sh_base sh) head), r)
         else
           (case so_begin SO (rp_store r) of
              (Inl e, st) \<Rightarrow> (Inl (SyncWal ''begin the replica transaction'' e), r\<lparr>rp_store := st\<rparr>)
            | (Inr t, st) \<Rightarrow>
                (case stage SO sh (sh_writes sh) t st of
                   (Inl e, st') \<Rightarrow> (Inl e, r\<lparr>rp_store := st'\<rparr>)
                 | (Inr t', st') \<Rightarrow>
                     (let clock = clock_set (rp_clock r) (sh_created sh)
                      in case so_commit SO st' t' (clock_read clock) of
                           (Inl e, st'') \<Rightarrow>
                             (Inl (SyncWal ''commit a replicated transaction'' e),
                              r\<lparr>rp_store := st'', rp_clock := clock\<rparr>)
                         | (Inr got, st'') \<Rightarrow>
                             (let r' = r\<lparr>rp_store := st'', rp_clock := clock\<rparr>
                              in if got \<noteq> sh_manifest sh
                                 then (Inl (Diverged (sh_lsn sh) (sh_manifest sh) got), r')
                                 else (Inr Advanced, r'\<lparr>rp_applied := Some (sh_lsn sh)\<rparr>))))))"

text \<open>The loop of \<open>catch_up\<close>; the count is a u64 that grows by one per shipment in memory.\<close>

fun apply_all ::
  "('s, 't) store_ops \<Rightarrow> 's replica \<Rightarrow> shipment list \<Rightarrow> nat \<Rightarrow> (sync_error + nat) \<times> 's replica" where
  "apply_all SO r [] advanced = (Inr advanced, r)"
| "apply_all SO r (sh # shs) advanced =
     (case apply_shipment SO r sh of
        (Inl e, r') \<Rightarrow> (Inl e, r')
      | (Inr a, r') \<Rightarrow> apply_all SO r' shs (if a = Advanced then advanced + 1 else advanced))"

text \<open>A result with the replica it leaves, where the source's reads return.\<close>

definition with_stream ::
  "wal_env \<Rightarrow> wal_source \<Rightarrow> manifest_id \<Rightarrow> 'r \<Rightarrow> (shipment list \<Rightarrow> (sync_error + 'a) \<times> 'r) \<Rightarrow>
   ((sync_error + 'a) \<times> 'r) option" where
  "with_stream E w head r f =
     (case bind_run (resume_after E w head) (\<lambda>l. shipments_from E w l) of
        None \<Rightarrow> None
      | Some (Inl e) \<Rightarrow> Some (Inl e, r)
      | Some (Inr shs) \<Rightarrow> Some (f shs))"

definition catch_up ::
  "('s, 't) store_ops \<Rightarrow> 's replica \<Rightarrow> wal_env \<Rightarrow> wal_source \<Rightarrow> ((sync_error + nat) \<times> 's replica) option" where
  "catch_up SO r E w =
     with_stream E w (so_head SO (rp_store r)) r (\<lambda>shs. apply_all SO r shs 0)"

fun apply_until ::
  "('s, 't) store_ops \<Rightarrow> 's replica \<Rightarrow> lsn \<Rightarrow> shipment list \<Rightarrow> (sync_error + unit) \<times> 's replica" where
  "apply_until SO r target [] = (Inr (), r)"
| "apply_until SO r target (sh # shs) =
     (if target < sh_lsn sh then (Inr (), r)
      else
        (case apply_shipment SO r sh of
           (Inl e, r') \<Rightarrow> (Inl e, r')
         | (Inr _, r') \<Rightarrow> apply_until SO r' target shs))"

definition restore_to ::
  "('s, 't) store_ops \<Rightarrow> 's replica \<Rightarrow> wal_env \<Rightarrow> wal_source \<Rightarrow> lsn \<Rightarrow> ((sync_error + unit) \<times> 's replica) option" where
  "restore_to SO r E w target =
     with_stream E w (so_head SO (rp_store r)) r (apply_until SO r target)"

subsection \<open>What the replica relies on\<close>

definition store_replays ::
  "('s, 't) store_ops \<Rightarrow> ('s \<Rightarrow> bool) \<Rightarrow> ('t \<Rightarrow> page_write list) \<Rightarrow> (bytes \<Rightarrow> page_id) \<Rightarrow> derivation \<Rightarrow> bool" where
  "store_replays SO I staged hash D \<longleftrightarrow> (\<forall>s. I s \<longrightarrow>
     (\<forall>res s'. so_begin SO s = (res, s') \<longrightarrow> I s' \<and> so_head SO s' = so_head SO s \<and>
        (\<forall>t. res = Inr t \<longrightarrow> staged t = [])) \<and>
     (\<forall>t p b res s'. so_write SO s t p b = (res, s') \<longrightarrow> I s' \<and> so_head SO s' = so_head SO s \<and>
        (\<forall>i t'. res = Inr (i, t') \<longrightarrow> i = hash b \<and> staged t' = bt_insert p (Some i) (staged t))) \<and>
     (\<forall>t p res s'. so_remove SO s t p = (res, s') \<longrightarrow> I s' \<and> so_head SO s' = so_head SO s \<and>
        (\<forall>t'. res = Inr t' \<longrightarrow> staged t' = bt_insert p None (staged t))) \<and>
     (\<forall>t now res s'. so_commit SO s t now = (res, s') \<longrightarrow> I s' \<and>
        (\<forall>m. res = Inr m \<longrightarrow> m = D (so_head SO s) (staged t) now \<and> so_head SO s' = m)))"

definition store_up :: "('s, 't) store_ops \<Rightarrow> ('s \<Rightarrow> bool) \<Rightarrow> bool" where
  "store_up SO I \<longleftrightarrow> (\<forall>s. I s \<longrightarrow>
     \<not> isl (fst (so_begin SO s)) \<and> (\<forall>t p b. \<not> isl (fst (so_write SO s t p b))) \<and>
     (\<forall>t p. \<not> isl (fst (so_remove SO s t p))) \<and> (\<forall>t now. \<not> isl (fst (so_commit SO s t now))))"

lemma store_replaysD:
  assumes "store_replays SO I staged hash D" "I s"
  shows "so_begin SO s = (res, s') \<Longrightarrow> I s' \<and> so_head SO s' = so_head SO s \<and> (\<forall>t. res = Inr t \<longrightarrow> staged t = [])"
    and "so_write SO s t p b = (resw, s') \<Longrightarrow> I s' \<and> so_head SO s' = so_head SO s \<and>
      (\<forall>i t'. resw = Inr (i, t') \<longrightarrow> i = hash b \<and> staged t' = bt_insert p (Some i) (staged t))"
    and "so_remove SO s t p = (resr, s') \<Longrightarrow> I s' \<and> so_head SO s' = so_head SO s \<and>
      (\<forall>t'. resr = Inr t' \<longrightarrow> staged t' = bt_insert p None (staged t))"
    and "so_commit SO s t now = (resc, s') \<Longrightarrow> I s' \<and>
      (\<forall>m. resc = Inr m \<longrightarrow> m = D (so_head SO s) (staged t) now \<and> so_head SO s' = m)"
proof -
  note laws = assms(1) [unfolded store_replays_def, THEN spec, THEN mp, OF assms(2)]
  note commit = laws [THEN conjunct2, THEN conjunct2, THEN conjunct2]
    and rm = laws [THEN conjunct2, THEN conjunct2, THEN conjunct1]
    and wr = laws [THEN conjunct2, THEN conjunct1] and beg = laws [THEN conjunct1]
  show "so_begin SO s = (res, s') \<Longrightarrow> I s' \<and> so_head SO s' = so_head SO s \<and> (\<forall>t. res = Inr t \<longrightarrow> staged t = [])"
    by (rule beg [THEN spec, THEN spec, THEN mp])
  show "so_write SO s t p b = (resw, s') \<Longrightarrow> I s' \<and> so_head SO s' = so_head SO s \<and>
      (\<forall>i t'. resw = Inr (i, t') \<longrightarrow> i = hash b \<and> staged t' = bt_insert p (Some i) (staged t))"
    by (rule wr [THEN spec, THEN spec, THEN spec, THEN spec, THEN spec, THEN mp])
  show "so_remove SO s t p = (resr, s') \<Longrightarrow> I s' \<and> so_head SO s' = so_head SO s \<and>
      (\<forall>t'. resr = Inr t' \<longrightarrow> staged t' = bt_insert p None (staged t))"
    by (rule rm [THEN spec, THEN spec, THEN spec, THEN spec, THEN mp])
  show "so_commit SO s t now = (resc, s') \<Longrightarrow> I s' \<and>
      (\<forall>m. resc = Inr m \<longrightarrow> m = D (so_head SO s) (staged t) now \<and> so_head SO s' = m)"
    by (rule commit [THEN spec, THEN spec, THEN spec, THEN spec, THEN mp])
qed

subsection \<open>Staging\<close>

definition put_all :: "page_write list \<Rightarrow> page_write list \<Rightarrow> page_write list" where
  "put_all m ws = foldl (\<lambda>m (p, page). bt_insert p page m) m ws"

lemma put_all_simps [simp]:
  "put_all m [] = m" "put_all m ((p, page) # ws) = put_all (bt_insert p page m) ws"
  by (simp_all add: put_all_def)

lemma bt_ok_put_all: "bt_ok m \<Longrightarrow> bt_ok (put_all m ws)"
  by (induction ws arbitrary: m) auto

lemma map_of_put_all: "distinct (map fst ws) \<Longrightarrow> map_of (put_all m ws) = map_of m ++ map_of ws"
proof (induction ws arbitrary: m)
  case (Cons w ws)
  obtain p page where w: "w = (p, page)" by fastforce
  with Cons have "map_of (put_all m (w # ws)) = (map_of m)(p \<mapsto> page) ++ map_of ws" by simp
  also have "\<dots> = map_of m ++ map_of (w # ws)"
    using Cons.prems w by (fastforce simp: fun_eq_iff map_add_def image_iff split: option.split dest: map_of_SomeD)
  finally show ?case .
qed simp

text \<open>Staging an ordered map of writes into an empty transaction stages that map.\<close>

lemma put_all_Nil: "bt_ok ws \<Longrightarrow> put_all [] ws = ws"
  by (intro bt_ok_map_of_eq) (simp_all add: bt_ok_put_all map_of_put_all bt_ok_distinct)

lemma stage_frame:
  assumes "store_replays SO I staged hash D" "I st" "stage SO sh ws t st = (res, st')"
  shows "I st' \<and> so_head SO st' = so_head SO st \<and>
    (\<forall>t'. res = Inr t' \<longrightarrow> staged t' = put_all (staged t) ws \<and>
       (\<forall>p i. (p, Some i) \<in> set ws \<longrightarrow> (\<exists>b. bytes_for sh i = Some b \<and> hash b = i))) \<and>
    (\<forall>e. res = Inl e \<longrightarrow> (\<exists>op x. e = SyncWal op x) \<or> (\<exists>p i. e = MissingPage (sh_lsn sh) p i) \<or>
       (\<exists>p i j. e = PageHashMismatch p i j \<and> i \<noteq> j))"
  using assms
proof (induction SO sh ws t st rule: stage.induct)
  case (1 SO sh t st)
  then show ?case by auto
next
  case (2 SO sh p i ws t st)
  show ?case
  proof (cases "bytes_for sh i")
    case None
    with 2 show ?thesis by auto
  next
    case (Some bs)
    obtain r s where w: "so_write SO st t p bs = (r, s)" by fastforce
    note law = store_replaysD(2) [OF 2(2,3) w]
    show ?thesis
    proof (cases r)
      case (Inl e)
      with 2(4) Some w law show ?thesis by auto
    next
      case (Inr it)
      obtain j t' where it: "it = (j, t')" by fastforce
      show ?thesis
      proof (cases "j = i")
        case False
        with 2(4) Some w Inr it law show ?thesis by auto
      next
        case True
        then have run: "stage SO sh ws t' s = (res, st')" using 2(4) Some w Inr it by simp
        have "I s \<and> so_head SO s = so_head SO st \<and> hash bs = i \<and> staged t' = bt_insert p (Some i) (staged t)"
          using law Inr it True by auto
        with 2(1) [OF Some w [symmetric] Inr it [symmetric] _ 2(2) _ run] True Some
        show ?thesis by (simp only: refl not_not put_all_simps list.set) (auto simp del: put_all_simps)
      qed
    qed
  qed
next
  case (3 SO sh p ws t st)
  obtain r s where w: "so_remove SO st t p = (r, s)" by fastforce
  note law = store_replaysD(3) [OF 3(2,3) w]
  show ?case
  proof (cases r)
    case (Inl e)
    with 3(4) w law show ?thesis by auto
  next
    case (Inr t')
    then have "stage SO sh ws t' s = (res, st')" using 3(4) w by simp
    with 3(1) [OF w [symmetric] Inr 3(2)] law Inr show ?thesis by auto
  qed
qed

lemma stage_up:
  assumes "store_replays SO I staged hash D" "store_up SO I" "I st"
    and "\<forall>p i. (p, Some i) \<in> set ws \<longrightarrow> (\<exists>b. bytes_for sh i = Some b \<and> hash b = i)"
  shows "\<exists>t' st'. stage SO sh ws t st = (Inr t', st')"
  using assms
proof (induction SO sh ws t st rule: stage.induct)
  case (2 SO sh p i ws t st)
  have "\<exists>b. bytes_for sh i = Some b \<and> hash b = i" by (rule 2(5) [rule_format, of p]) simp
  then obtain bs where bs: "bytes_for sh i = Some bs" "hash bs = i" by blast
  obtain r s where w: "so_write SO st t p bs = (r, s)" by fastforce
  have "\<not> isl (fst (so_write SO st t p bs))" using 2(3,4) unfolding store_up_def by blast
  then obtain j t' where r: "r = Inr (j, t')" by (cases r) (auto simp: w)
  have law: "I s" "j = i" using store_replaysD(2) [OF 2(2,4) w] r bs(2) by simp_all
  have "\<exists>t'' st'. stage SO sh ws t' s = (Inr t'', st')"
    using 2(5) by (intro 2(1) [OF bs(1) w [symmetric] r refl _ 2(2,3) law(1)]) (auto simp: law(2))
  with bs w r law(2) show ?case by simp
next
  case (3 SO sh p ws t st)
  obtain r s where w: "so_remove SO st t p = (r, s)" by fastforce
  have "\<not> isl (fst (so_remove SO st t p))" using 3(3,4) unfolding store_up_def by blast
  then obtain t' where r: "r = Inr t'" by (cases r) (auto simp: w)
  have "I s" using store_replaysD(3) [OF 3(2,4) w] by simp
  with 3(1) [OF w [symmetric] r 3(2,3)] 3(5) w r show ?case by simp
qed simp

subsection \<open>Applying one shipment\<close>

text \<open>The four ways out of \<open>apply\<close>, whatever the shipment.\<close>

lemma apply_cases:
  assumes law: "store_replays SO I staged hash D" and I: "I (rp_store r)"
    and run: "apply_shipment SO r sh = (res, r')"
  obtains (present) "replica_head SO r = sh_manifest sh" "res = Inr AlreadyPresent" "rp_store r' = rp_store r"
    | (refused) e where "res = Inl e" "I (rp_store r')" "replica_head SO r' = replica_head SO r"
        "rp_applied r' = rp_applied r" "\<forall>l m got. e \<noteq> Diverged l m got"
    | (failed) e where "res = Inl (SyncWal ''commit a replicated transaction'' e)" "I (rp_store r')"
    | (committed) got where "replica_head SO r = sh_base sh" "I (rp_store r')" "replica_head SO r' = got"
        "got = D (sh_base sh) (put_all [] (sh_writes sh)) (sh_created sh)"
        "\<forall>p i. (p, Some i) \<in> set (sh_writes sh) \<longrightarrow> (\<exists>b. bytes_for sh i = Some b \<and> hash b = i)"
        "res = (if got = sh_manifest sh then Inr Advanced else Inl (Diverged (sh_lsn sh) (sh_manifest sh) got))"
        "got = sh_manifest sh \<longrightarrow> rp_applied r' = Some (sh_lsn sh)"
proof -
  let ?head = "so_head SO (rp_store r)"
  consider (a) "?head = sh_manifest sh" | (b) "?head \<noteq> sh_manifest sh" "?head \<noteq> sh_base sh"
    | (c) "?head \<noteq> sh_manifest sh" "?head = sh_base sh" by blast
  then show ?thesis
  proof cases
    case a
    then show ?thesis using run
      by (intro present) (auto simp: apply_shipment_def Let_def replica_head_def)
  next
    case b
    then show ?thesis using run I
      by (intro refused [of "OutOfOrder (sh_lsn sh) (sh_base sh) ?head"]) (auto simp: apply_shipment_def Let_def replica_head_def)
  next
    case c
    obtain bres s1 where b: "so_begin SO (rp_store r) = (bres, s1)" by fastforce
    note lb = store_replaysD(1) [OF law I b]
    show ?thesis
    proof (cases bres)
      case (Inl e)
      then show ?thesis using run c b lb
        by (intro refused [of "SyncWal ''begin the replica transaction'' e"]) (auto simp: apply_shipment_def Let_def replica_head_def)
    next
      case (Inr t)
      obtain sres s2 where s: "stage SO sh (sh_writes sh) t s1 = (sres, s2)" by fastforce
      have I1: "I s1" using lb by simp
      note ls = stage_frame [OF law I1 s]
      show ?thesis
      proof (cases sres)
        case (Inl e)
        then show ?thesis using run c b s \<open>bres = Inr t\<close> lb ls
          by (intro refused [of e]) (auto simp: apply_shipment_def Let_def replica_head_def)
      next
        case (Inr t')
        obtain cres s3 where cm: "so_commit SO s2 t' (sh_created sh) = (cres, s3)" by fastforce
        have I2: "I s2" using ls by simp
        note lc = store_replaysD(4) [OF law I2 cm]
        show ?thesis
        proof (cases cres)
          case (Inl e)
          then show ?thesis using run c b s \<open>bres = Inr t\<close> \<open>sres = Inr t'\<close> cm lc
            by (intro failed [of e]) (auto simp: apply_shipment_def Let_def clock_read_def clock_set_def)
        next
          case (Inr got)
          have "got = D (sh_base sh) (put_all [] (sh_writes sh)) (sh_created sh)"
            using lc Inr ls lb c \<open>sres = Inr t'\<close> \<open>bres = Inr t\<close> by simp
          moreover have "I s3" "so_head SO s3 = got" using lc Inr by simp_all
          moreover have "\<forall>p i. (p, Some i) \<in> set (sh_writes sh) \<longrightarrow> (\<exists>b. bytes_for sh i = Some b \<and> hash b = i)"
            using ls \<open>sres = Inr t'\<close> by blast
          moreover have "rp_store r' = s3 \<and>
              res = (if got = sh_manifest sh then Inr Advanced else Inl (Diverged (sh_lsn sh) (sh_manifest sh) got)) \<and>
              (got = sh_manifest sh \<longrightarrow> rp_applied r' = Some (sh_lsn sh))"
            using run c b s \<open>bres = Inr t\<close> \<open>sres = Inr t'\<close> cm Inr
            by (cases "got = sh_manifest sh")
              (auto simp: apply_shipment_def Let_def clock_read_def clock_set_def)
          ultimately show ?thesis using c
            by (intro committed [of got]) (simp_all add: replica_head_def)
        qed
      qed
    qed
  qed
qed

lemma apply_up:
  assumes "store_replays SO I staged hash D" "store_up SO I" "I (rp_store r)"
    and "replica_head SO r = sh_base sh" "link_ok D hash sh"
  shows "\<exists>a r'. apply_shipment SO r sh = (Inr a, r') \<and> I (rp_store r') \<and> replica_head SO r' = sh_manifest sh \<and>
    (a = Advanced \<longrightarrow> rp_applied r' = Some (sh_lsn sh))"
proof -
  obtain bres s1 where b: "so_begin SO (rp_store r) = (bres, s1)" by fastforce
  note lb = store_replaysD(1) [OF assms(1,3) b]
  have "\<not> isl (fst (so_begin SO (rp_store r)))" using assms(2,3) unfolding store_up_def by blast
  then obtain t where t: "bres = Inr t" by (cases bres) (auto simp: b)
  have I1: "I s1" using lb by simp
  obtain t' s2 where s: "stage SO sh (sh_writes sh) t s1 = (Inr t', s2)"
    using stage_up [OF assms(1,2) I1] assms(5) unfolding link_ok_def by blast
  note ls = stage_frame [OF assms(1) I1 s]
  have I2: "I s2" using ls by simp
  obtain cres s3 where c: "so_commit SO s2 t' (sh_created sh) = (cres, s3)" by fastforce
  note lc = store_replaysD(4) [OF assms(1) I2 c]
  have "\<not> isl (fst (so_commit SO s2 t' (sh_created sh)))" using assms(2) I2 unfolding store_up_def by blast
  then obtain got where got: "cres = Inr got" by (cases cres) (auto simp: c)
  have "staged t' = sh_writes sh"
    using ls lb t put_all_Nil assms(5) by (simp add: link_ok_def)
  then have m: "got = sh_manifest sh"
    using lc got ls lb assms(4,5) by (simp add: link_ok_def replica_head_def)
  show ?thesis
    using assms(3,4) b t s c got m lc
    by (auto simp: apply_shipment_def Let_def clock_read_def clock_set_def replica_head_def)
qed

subsection \<open>Applying a chain\<close>

lemma apply_all_chain:
  assumes "store_replays SO I staged hash D" "store_up SO I" "I (rp_store r)"
    and "chain_of D hash (replica_head SO r) shs"
  shows "\<exists>k r'. apply_all SO r shs n = (Inr (n + k), r') \<and> k \<le> length shs \<and> I (rp_store r') \<and>
    replica_head SO r' = chain_end (replica_head SO r) shs"
  using assms(3,4)
proof (induction shs arbitrary: r n)
  case Nil
  then show ?case by simp
next
  case (Cons sh shs)
  then have base: "replica_head SO r = sh_base sh" and link: "link_ok D hash sh" by simp_all
  obtain a r' where ap: "apply_shipment SO r sh = (Inr a, r')" "I (rp_store r')"
    "replica_head SO r' = sh_manifest sh"
    using apply_up [OF assms(1,2) Cons.prems(1) base link] by blast
  let ?n = "if a = Advanced then n + 1 else n"
  have "chain_of D hash (replica_head SO r') shs" using Cons.prems(2) ap(3) by simp
  from Cons.IH [OF ap(2) this, of ?n] obtain k r'' where
    "apply_all SO r' shs ?n = (Inr (?n + k), r'')" "k \<le> length shs" "I (rp_store r'')"
    "replica_head SO r'' = chain_end (sh_manifest sh) shs"
    by (auto simp: ap(3))
  with ap(1) show ?case
    by (intro exI [of _ "if a = Advanced then k + 1 else k"]) (auto split: if_splits)
qed

lemma apply_until_eq:
  "apply_until SO r target shs =
     (case apply_all SO r (takeWhile (\<lambda>s. sh_lsn s \<le> target) shs) n of (res, r') \<Rightarrow> (map_sum id (\<lambda>_. ()) res, r'))"
proof (induction shs arbitrary: r n)
  case (Cons sh shs)
  obtain res r' where ap: "apply_shipment SO r sh = (res, r')" by fastforce
  show ?case
  proof (cases res)
    case (Inr a)
    with ap Cons.IH [of r' "if a = Advanced then n + 1 else n"] show ?thesis
      by (auto split: prod.split)
  qed (use ap in auto)
qed simp

lemma chain_of_takeWhile: "chain_of D hash m shs \<Longrightarrow> chain_of D hash m (takeWhile P shs)"
  by (metis chain_of_append takeWhile_dropWhile_id)

lemma apply_until_chain:
  assumes "store_replays SO I staged hash D" "store_up SO I" "I (rp_store r)"
    and "chain_of D hash (replica_head SO r) shs"
  shows "\<exists>r'. apply_until SO r target shs = (Inr (), r') \<and> I (rp_store r') \<and>
    replica_head SO r' = chain_end (replica_head SO r) (takeWhile (\<lambda>s. sh_lsn s \<le> target) shs)"
  using apply_all_chain [OF assms(1-3) chain_of_takeWhile [OF assms(4), of "\<lambda>s. sh_lsn s \<le> target"], of 0]
  by (auto simp: apply_until_eq [of SO r target shs 0])

subsection \<open>The stream a replica is given\<close>

lemma resume_of_Some:
  "resume_of (E, w) m = Some l \<Longrightarrow> resume_after E w m = Some (Inr l)"
  by (auto simp: resume_of_def split: option.splits sum.splits)

lemma with_stream_ready:
  assumes "primary_ok D hash E w" "resume_of (E, w) head = Some l"
  shows "with_stream E w head r f = Some (f (stream_of (E, w) l))"
proof -
  obtain ss where "shipments_from E w l = Some (Inr ss)"
    using primary_stream [OF assms(1)] by metis
  with resume_of_Some [OF assms(2)] show ?thesis by (simp add: with_stream_def stream_of_def)
qed

text \<open>The replica is on the primary's history: its head is the state after some prefix of it.\<close>

definition on_history :: "wal_env \<Rightarrow> wal_source \<Rightarrow> manifest_id \<Rightarrow> shipment list \<Rightarrow> bool" where
  "on_history E w m had \<longleftrightarrow>
     prefix had (stream_of (E, w) 0) \<and> m = chain_end (start_of (E, w)) had"

lemma on_history_resume:
  assumes "primary_ok D hash E w" "on_history E w m had"
  shows "\<exists>l. resume_of (E, w) m = Some l"
  using primary.resume_known [of D hash "(E, w)" m had] assms by (auto simp: on_history_def prefix_def)

lemma last_upto_takeWhile:
  "last_upto l ss at = (case rev (takeWhile (\<lambda>s. sh_lsn s \<le> l) ss) of [] \<Rightarrow> at | s # _ \<Rightarrow> Some (sh_manifest s))"
proof (induction ss arbitrary: at)
  case (Cons s ss)
  then show ?case by (auto split: list.splits)
qed simp

subsection \<open>The guarantees of a replica\<close>

text \<open>A store whose state is its head, kept for the concrete instances.\<close>

definition demo_store :: "(manifest_id, page_write list) store_ops" where
  "demo_store =
     \<lparr>so_open = (\<lambda>_. Inr (ManifestId [])), so_recover = (\<lambda>s. (Inr (), s)), so_head = (\<lambda>s. s),
      so_read = (\<lambda>_ _ _. Inl ''not kept''),
      so_begin = (\<lambda>s. (Inr [], s)),
      so_write = (\<lambda>s t p b. (Inr (PageId b, bt_insert p (Some (PageId b)) t), s)),
      so_remove = (\<lambda>s t p. (Inr (bt_insert p None t), s)),
      so_commit = (\<lambda>s t now. (Inr (demo_derive s t now), demo_derive s t now))\<rparr>"

lemma demo_store_replays: "store_replays demo_store (\<lambda>_. True) (\<lambda>t. t) PageId demo_derive"
  by (simp add: store_replays_def demo_store_def)

lemma demo_store_up: "store_up demo_store (\<lambda>_. True)"
  by (simp add: store_up_def demo_store_def)

definition demo_replica :: "manifest_id replica" where
  "demo_replica = replica_new (ManifestId []) clock_new"

lemma demo_replica_head: "replica_head demo_store demo_replica = ManifestId []"
  by (simp add: replica_head_def demo_store_def demo_replica_def replica_new_def)

lemma demo_on_history: "on_history demo_env demo_source (ManifestId []) []"
  by (simp add: on_history_def start_of_def demo_start)

text \<open>C22: what a replica reports is what it is. Whatever shipment it is given, honest, stale or
  corrupt: if \<open>apply\<close> succeeds the replica's head is the shipment's manifest; a missing page, a page
  that does not hash to its name, a gap or a failed staging call leaves the head where it was; and
  \<open>Diverged\<close> is reported exactly with the manifest the replica has then moved to.\<close>

theorem apply_reports_state:
  assumes "store_replays SO I staged hash D" "I (rp_store r)" "apply_shipment SO r sh = (res, r')"
  shows "case res of
      Inr _ \<Rightarrow> replica_head SO r' = sh_manifest sh
    | Inl (Diverged l m got) \<Rightarrow>
        l = sh_lsn sh \<and> m = sh_manifest sh \<and> got \<noteq> m \<and> replica_head SO r' = got
    | Inl (SyncWal op e) \<Rightarrow>
        op = ''commit a replicated transaction'' \<or> replica_head SO r' = replica_head SO r
    | Inl _ \<Rightarrow> replica_head SO r' = replica_head SO r \<and> rp_applied r' = rp_applied r"
  using assms
proof (cases rule: apply_cases)
  case present
  then show ?thesis by (simp add: replica_head_def)
next
  case (refused e)
  then show ?thesis by (cases e) simp_all
next
  case (failed e)
  then show ?thesis by simp
next
  case (committed got)
  then show ?thesis by (cases "got = sh_manifest sh") simp_all
qed

lemma demo_apply:
  "apply_shipment demo_store demo_replica (hd demo_shipments) =
     (Inr Advanced, \<lparr>rp_store = ManifestId [1, 100], rp_clock = \<lparr>clock_now_ms = 100\<rparr>, rp_applied = Some 2\<rparr>)"
  by (simp add: apply_shipment_def Let_def demo_store_def demo_replica_def replica_new_def demo_shipments_def
      clock_set_def clock_read_def clock_new_def bytes_for_def demo_derive_def)

lemma apply_reports_state_witness:
  "replica_head demo_store \<lparr>rp_store = ManifestId [1, 100], rp_clock = \<lparr>clock_now_ms = 100\<rparr>, rp_applied = Some 2\<rparr>
     = sh_manifest (hd demo_shipments)"
  using apply_reports_state [OF demo_store_replays TrueI demo_apply] by simp

text \<open>C13: catching up converges. A replica anywhere on the primary's history, over a store that
  answers, catches up without an error: afterwards its head is the primary's last committed manifest,
  and it advanced by at most the commits it did not have.\<close>

theorem catch_up_converges:
  assumes "primary_ok D hash E w" "store_replays SO I staged hash D" "store_up SO I"
    and "I (rp_store r)" "on_history E w (replica_head SO r) had"
  shows "\<exists>n r'. catch_up SO r E w = Some (Inr n, r') \<and> I (rp_store r') \<and>
    replica_head SO r' = chain_end (start_of (E, w)) (stream_of (E, w) 0) \<and>
    n \<le> length (stream_of (E, w) 0)"
proof -
  have ready: "case (E, w) of (E, w) \<Rightarrow> primary_ok D hash E w" using assms(1) by simp
  obtain l where l: "resume_of (E, w) (replica_head SO r) = Some l"
    using on_history_resume [OF assms(1,5)] by blast
  note st = primary.stream_chained [OF ready l]
  obtain k r' where "apply_all SO r (stream_of (E, w) l) 0 = (Inr k, r')"
    "k \<le> length (stream_of (E, w) l)" "I (rp_store r')"
    "replica_head SO r' = chain_end (replica_head SO r) (stream_of (E, w) l)"
    using apply_all_chain [OF assms(2-4) st(1), of 0] by auto
  moreover have "length (stream_of (E, w) l) \<le> length (stream_of (E, w) 0)"
    using primary.resume_splits [OF ready l] by (metis le_add2 length_append)
  moreover have "catch_up SO r E w = Some (apply_all SO r (stream_of (E, w) l) 0)"
    unfolding catch_up_def using with_stream_ready [OF assms(1) l] by (simp add: replica_head_def)
  ultimately show ?thesis using st(2) by simp
qed

lemma catch_up_converges_witness:
  "\<exists>n r'. catch_up demo_store demo_replica demo_env demo_source = Some (Inr n, r') \<and>
     replica_head demo_store r' = ManifestId [1, 100, 1, 200]"
proof -
  have "on_history demo_env demo_source (replica_head demo_store demo_replica) []"
    using demo_on_history by (simp add: demo_replica_head)
  from catch_up_converges [OF demo_primary demo_store_replays demo_store_up TrueI this]
  show ?thesis by (auto simp: stream_of_def demo_stream demo_shipments_def)
qed

text \<open>C18: a prefix equals the primary. Having applied any number of the commits it is streamed, a
  replica's head is the manifest the primary committed there.\<close>

theorem replica_equals_primary_at_prefix:
  assumes "primary_ok D hash E w" "store_replays SO I staged hash D" "store_up SO I"
    and "I (rp_store r)" "resume_after E w (replica_head SO r) = Some (Inr l)"
    and "k < length (stream_of (E, w) l)"
  shows "\<exists>n r'. apply_all SO r (take (Suc k) (stream_of (E, w) l)) 0 = (Inr n, r') \<and>
    replica_head SO r' = sh_manifest (stream_of (E, w) l ! k)"
proof -
  have ready: "case (E, w) of (E, w) \<Rightarrow> primary_ok D hash E w" using assms(1) by simp
  have l: "resume_of (E, w) (replica_head SO r) = Some l" using assms(5) by (simp add: resume_of_def)
  have "chain_of D hash (replica_head SO r) (take (Suc k) (stream_of (E, w) l))"
    using primary.stream_chained(1) [OF ready l] by (metis append_take_drop_id chain_of_append)
  from apply_all_chain [OF assms(2-4) this, of 0] assms(6) show ?thesis
    by (auto simp: take_Suc_conv_app_nth)
qed

lemma replica_equals_primary_at_prefix_witness:
  "\<exists>n r'. apply_all demo_store demo_replica (take 1 demo_shipments) 0 = (Inr n, r') \<and>
     replica_head demo_store r' = ManifestId [1, 100]"
proof -
  have s: "stream_of (demo_env, demo_source) 0 = demo_shipments" by (simp add: stream_of_def demo_stream)
  have r: "resume_after demo_env demo_source (replica_head demo_store demo_replica) = Some (Inr 0)"
    by (simp add: resume_after_def demo_start demo_replica_head)
  have "0 < length demo_shipments" by (simp add: demo_shipments_def)
  from replica_equals_primary_at_prefix [OF demo_primary demo_store_replays demo_store_up TrueI r, of 0]
  show ?thesis unfolding s using \<open>0 < length demo_shipments\<close> by (simp add: demo_shipments_def)
qed

text \<open>C16: point-in-time restore is exact. A replica that has no commit past the target restores to
  the target without an error, and its head is then what \<open>manifest_at\<close> says the primary was at, or
  the start of the history when no commit is that old.\<close>

theorem restore_exact:
  assumes "primary_ok D hash E w" "store_replays SO I staged hash D" "store_up SO I"
    and "I (rp_store r)" "resume_after E w (replica_head SO r) = Some (Inr l)" "unat l \<le> unat target + 1"
  shows "\<exists>r' at. restore_to SO r E w target = Some (Inr (), r') \<and>
    manifest_at E w target = Some (Inr at) \<and>
    replica_head SO r' = (case at of Some m \<Rightarrow> m | None \<Rightarrow> start_of (E, w))"
proof -
  let ?le = "\<lambda>s. sh_lsn s \<le> target"
  have ready: "case (E, w) of (E, w) \<Rightarrow> primary_ok D hash E w" using assms(1) by simp
  have l: "resume_of (E, w) (replica_head SO r) = Some l" using assms(5) by (simp add: resume_of_def)
  note st = primary.stream_chained [OF ready l]
  obtain r' where r': "apply_until SO r target (stream_of (E, w) l) = (Inr (), r')"
    "replica_head SO r' = chain_end (replica_head SO r) (takeWhile ?le (stream_of (E, w) l))"
    using apply_until_chain [OF assms(2-4) st(1), of target] by blast
  obtain pre where pre: "stream_of (E, w) 0 = pre @ stream_of (E, w) l"
    "chain_end (start_of (E, w)) pre = replica_head SO r"
    using primary.resume_splits [OF ready l] by blast
  have "?le s" if "s \<in> set pre" for s
  proof -
    have "stream_of (E, w) l = filter (\<lambda>s. l \<le> sh_lsn s) (stream_of (E, w) 0)"
      by (rule primary.gated [OF ready])
    then have "filter (\<lambda>s. l \<le> sh_lsn s) pre @ filter (\<lambda>s. l \<le> sh_lsn s) (stream_of (E, w) l)
        = stream_of (E, w) l" using pre(1) by (metis filter_append)
    then have "length (filter (\<lambda>s. l \<le> sh_lsn s) pre) + length (filter (\<lambda>s. l \<le> sh_lsn s) (stream_of (E, w) l))
        = length (stream_of (E, w) l)" by (metis length_append)
    moreover have "filter (\<lambda>s. l \<le> sh_lsn s) (stream_of (E, w) l) = stream_of (E, w) l"
      using \<open>stream_of (E, w) l = filter (\<lambda>s. l \<le> sh_lsn s) (stream_of (E, w) 0)\<close>
      by (metis (no_types, lifting) filter_id_conv mem_Collect_eq set_filter)
    ultimately have "filter (\<lambda>s. l \<le> sh_lsn s) pre = []" by simp
    then have "\<not> l \<le> sh_lsn s" using that by (simp add: filter_empty_conv)
    then show ?thesis using assms(6) by (simp add: word_le_nat_alt)
  qed
  then have tw: "takeWhile ?le (stream_of (E, w) 0) = pre @ takeWhile ?le (stream_of (E, w) l)"
    unfolding pre(1) by (simp add: takeWhile_append2)
  have "manifest_at E w target = Some (Inr (last_upto target (stream_of (E, w) 0) None))"
  proof -
    obtain ss where "\<forall>l. shipments_from E w l = Some (Inr (filter (\<lambda>s. l \<le> sh_lsn s) ss))"
      using primary_stream [OF assms(1)] by metis
    from this [THEN spec, of 0] show ?thesis by (simp add: manifest_at_def stream_of_def)
  qed
  moreover have "restore_to SO r E w target = Some (Inr (), r')"
    unfolding restore_to_def
    using with_stream_ready [OF assms(1) l, where r = r and f = "apply_until SO r target"] r'(1)
    by (simp add: replica_head_def)
  moreover have "chain_end (replica_head SO r) (takeWhile ?le (stream_of (E, w) l))
      = (case last_upto target (stream_of (E, w) 0) None of Some m \<Rightarrow> m | None \<Rightarrow> start_of (E, w))"
    unfolding last_upto_takeWhile tw pre(2) [symmetric]
    by (cases "takeWhile ?le (stream_of (E, w) l)" rule: rev_cases; cases pre rule: rev_cases) simp_all
  ultimately show ?thesis using r'(2) by metis
qed

lemma restore_exact_witness:
  "\<exists>r'. restore_to demo_store demo_replica demo_env demo_source 3 = Some (Inr (), r') \<and>
     replica_head demo_store r' = ManifestId [1, 100]"
proof -
  have r: "resume_after demo_env demo_source (replica_head demo_store demo_replica) = Some (Inr 0)"
    by (simp add: resume_after_def demo_start demo_replica_head)
  have "manifest_at demo_env demo_source 3 = Some (Inr (Some (ManifestId [1, 100])))"
    by (simp add: manifest_at_def demo_stream demo_shipments_def word_le_nat_alt)
  with restore_exact [OF demo_primary demo_store_replays demo_store_up TrueI r, of 3] show ?thesis by auto
qed

text \<open>C34: a restore does not go back. A replica that already has a commit past the target is left
  as it is, and the restore still reports success; its head is then not the primary's state at the
  target, which the documentation of \<open>restore_to\<close> promises.\<close>

theorem restore_never_rewinds:
  assumes "primary_ok D hash E w" "resume_after E w (replica_head SO r) = Some (Inr l)" "target < l"
  shows "restore_to SO r E w target = Some (Inr (), r)"
proof -
  have ready: "case (E, w) of (E, w) \<Rightarrow> primary_ok D hash E w" using assms(1) by simp
  have l: "resume_of (E, w) (replica_head SO r) = Some l" using assms(2) by (simp add: resume_of_def)
  have "\<forall>s \<in> set (stream_of (E, w) l). l \<le> sh_lsn s"
    using primary.gated [OF ready, of l] by (metis (no_types, lifting) mem_Collect_eq set_filter)
  then have "apply_until SO r target (stream_of (E, w) l) = (Inr (), r)"
    using assms(3) by (cases "stream_of (E, w) l") (auto dest: less_le_trans)
  then show ?thesis
    unfolding restore_to_def
    using with_stream_ready [OF assms(1) l, where r = r and f = "apply_until SO r target"]
    by (simp add: replica_head_def)
qed

lemma restore_never_rewinds_witness:
  "\<exists>r. restore_to demo_store r demo_env demo_source 1 = Some (Inr (), r) \<and>
     replica_head demo_store r = ManifestId [1, 100] \<and>
     manifest_at demo_env demo_source 1 = Some (Inr None)"
proof -
  let ?r = "replica_new (ManifestId [1, 100]) clock_new"
  have h: "replica_head demo_store ?r = ManifestId [1, 100]"
    by (simp add: replica_head_def demo_store_def replica_new_def)
  have r: "resume_after demo_env demo_source (replica_head demo_store ?r) = Some (Inr 3)"
    by (simp add: resume_after_def demo_start h demo_stream demo_shipments_def)
  have "manifest_at demo_env demo_source 1 = Some (Inr None)"
    by (simp add: manifest_at_def demo_stream demo_shipments_def word_le_nat_alt)
  with restore_never_rewinds [OF demo_primary r, of 1] h show ?thesis
    by (intro exI [of _ ?r]) (simp add: word_less_nat_alt)
qed

lemma with_stream_returns:
  assumes "\<And>k. shipments_from E w k \<noteq> None" "\<And>m. resume_after E w m \<noteq> None"
  shows "with_stream E w h r f \<noteq> None"
proof (cases "resume_after E w h")
  case None
  with assms(2) show ?thesis by blast
next
  case (Some res)
  show ?thesis
  proof (cases res)
    case (Inr l)
    obtain x where "shipments_from E w l = Some x" using assms(1) by blast
    with Some Inr show ?thesis by (cases x) (simp_all add: with_stream_def)
  qed (simp add: with_stream_def Some)
qed

text \<open>C35: shipping returns. With a decoder that consumes what it reads, none of a source's and a
  replica's operations loops, whatever the bytes of the log are.\<close>

theorem shipping_returns:
  assumes "decoder_ok (we_decode E)"
  shows "resume_after E w m \<noteq> None \<and> manifest_at E w l \<noteq> None \<and>
    catch_up SO r E w \<noteq> None \<and> restore_to SO r E w l \<noteq> None"
proof -
  have ships: "\<And>k. shipments_from E w k \<noteq> None" using shipments_returns [OF assms] by blast
  have resume: "\<And>m. resume_after E w m \<noteq> None"
    using ships [of 0] by (auto simp: resume_after_def bind_run_def split: sum.split)
  have "manifest_at E w l \<noteq> None"
    using ships [of 0] by (auto simp: manifest_at_def bind_run_def split: sum.split)
  moreover have "catch_up SO r E w \<noteq> None" "restore_to SO r E w l \<noteq> None"
    unfolding catch_up_def restore_to_def by (intro with_stream_returns ships resume)+
  ultimately show ?thesis using resume by blast
qed

lemma shipping_returns_witness:
  "catch_up demo_store demo_replica demo_env demo_source \<noteq> None"
proof -
  have "decoder_ok (we_decode demo_env)" using demo_decoder by (simp add: demo_env_def)
  then show ?thesis by (rule shipping_returns [THEN conjunct2, THEN conjunct2, THEN conjunct1])
qed

end
