(* ===== verification/Core_Replica.thy ===== *)
theory Core_Replica
  imports Core_Db Sync_Replica
begin

section \<open>Read replicas\<close>

text \<open>
  \<open>crates/flock-core/src/replica.rs\<close>: a follower with an SQL engine over it. It shares one durable
  store between the engine and the replica of \<open>flock-sync\<close>: here one handle, on whose world both act.
  What \<open>flock-sync\<close> calls on that store is \<open>R h\<close>, the store behind the handle \<open>h\<close>, and \<open>on_store\<close> runs
  one of its operations there.
\<close>

record ('h, 'c) read_replica =
  rr_name :: string
  rr_root :: path
  rr_replica :: "'h replica"
  rr_store :: "'h store"
  rr_kernel :: "'c kernel"
  rr_visible :: manifest_id
  rr_opts :: kernel_opts

definition at_world :: "'h replica \<Rightarrow> 'w \<Rightarrow> 'w replica" where
  "at_world r w = \<lparr>rp_store = w, rp_clock = rp_clock r, rp_applied = rp_applied r\<rparr>"

definition on_store :: "('w replica \<Rightarrow> 'r \<times> 'w replica) \<Rightarrow> 'h replica \<Rightarrow> 'w \<Rightarrow> 'r \<times> 'h replica \<times> 'w" where
  "on_store act r w =
     (case act (at_world r w) of
        (res, r') \<Rightarrow> (res, r\<lparr>rp_clock := rp_clock r', rp_applied := rp_applied r'\<rparr>, rp_store r'))"

subsection \<open>Operations\<close>

definition rr_open_with :: "('c, 'a, 'b) duck_ops \<Rightarrow> ('w, 'h, 't, 'm, 'o) subst \<Rightarrow> path \<Rightarrow> string \<Rightarrow>
    kernel_opts \<Rightarrow> 'w \<Rightarrow> fs \<Rightarrow> (flock_error + ('h, 'c) read_replica) \<times> 'w \<times> fs" where
  "rr_open_with D B root name opts w f =
     (case validate_name name of
        Inl e \<Rightarrow> (Inl e, w, f)
      | Inr _ \<Rightarrow>
     (case link_db_to_shared_cas root name f of
        (Inl e, f1) \<Rightarrow> (Inl e, w, f1)
      | (Inr dir, f1) \<Rightarrow>
     (case sb_open_replay B dir w of
        (Inl e, w1) \<Rightarrow> (Inl (FWal ''open the replica's durable store'' e), w1, f1)
      | (Inr durable, w1) \<Rightarrow>
     (case sb_recover B durable w1 of
        (Inl e, w2) \<Rightarrow> (Inl (FWal ''replay the replica's log'' e), w2, f1)
      | (Inr _, w2) \<Rightarrow>
          (let store = Local durable
           in case kernel_open D (store_page_store B store) w2 opts f1 of
                (Inl e, w3, f2) \<Rightarrow> (Inl (FKernel e), w3, f2)
              | (Inr k, w3, f2) \<Rightarrow>
                  (Inr \<lparr>rr_name = name, rr_root = root, rr_replica = replica_new durable clock_new, rr_store = store,
                     rr_kernel = k, rr_visible = store_head B store w3, rr_opts = opts\<rparr>, w3, f2))))))"

definition rr_open :: "('c, 'a, 'b) duck_ops \<Rightarrow> ('w, 'h, 't, 'm, 'o) subst \<Rightarrow> path \<Rightarrow> string \<Rightarrow>
    'w \<Rightarrow> fs \<Rightarrow> (flock_error + ('h, 'c) read_replica) \<times> 'w \<times> fs" where
  "rr_open D B root name = rr_open_with D B root name opts_default"

definition rr_applied_head :: "('h \<Rightarrow> ('w, 'u) store_ops) \<Rightarrow> ('h, 'c) read_replica \<Rightarrow> 'w \<Rightarrow> manifest_id" where
  "rr_applied_head R rr w = replica_head (R (rp_store (rr_replica rr))) (at_world (rr_replica rr) w)"

definition rr_applied_lsn :: "('h, 'c) read_replica \<Rightarrow> lsn option" where
  "rr_applied_lsn rr = rp_applied (rr_replica rr)"

definition rr_apply :: "('h \<Rightarrow> ('w, 'u) store_ops) \<Rightarrow> ('h, 'c) read_replica \<Rightarrow> shipment \<Rightarrow> 'w \<Rightarrow>
    (flock_error + unit) \<times> ('h, 'c) read_replica \<times> 'w" where
  "rr_apply R rr sh w =
     (case on_store (\<lambda>r. apply_shipment (R (rp_store (rr_replica rr))) r sh) (rr_replica rr) w of
        (res, r', w') \<Rightarrow>
          (map_err (FSync ''apply a shipped commit'') (map_sum id (\<lambda>_. ()) res), rr\<lparr>rr_replica := r'\<rparr>, w'))"

text \<open>What reads a source may not return; \<open>None\<close> is that.\<close>

definition rr_catch_up :: "('h \<Rightarrow> ('w, 'u) store_ops) \<Rightarrow> ('h, 'c) read_replica \<Rightarrow> wal_env \<Rightarrow> wal_source \<Rightarrow> 'w \<Rightarrow>
    ((flock_error + nat) \<times> ('h, 'c) read_replica \<times> 'w) option" where
  "rr_catch_up R rr E src w =
     (case catch_up (R (rp_store (rr_replica rr))) (at_world (rr_replica rr) w) E src of
        None \<Rightarrow> None
      | Some out \<Rightarrow>
          (case on_store (\<lambda>_. out) (rr_replica rr) w of
             (res, r', w') \<Rightarrow> Some (map_err (FSync ''catch up to the primary'') res, rr\<lparr>rr_replica := r'\<rparr>, w')))"

definition rr_refresh :: "('c, 'a, 'b) duck_ops \<Rightarrow> ('w, 'h, 't, 'm, 'o) subst \<Rightarrow> ('h, 'c) read_replica \<Rightarrow> 'w \<Rightarrow> fs \<Rightarrow>
    (flock_error + unit) \<times> ('h, 'c) read_replica \<times> 'w \<times> fs" where
  "rr_refresh D B rr w f =
     (case kernel_open D (store_page_store B (rr_store rr)) w (rr_opts rr) f of
        (Inl e, w', f') \<Rightarrow> (Inl (FKernel e), rr, w', f')
      | (Inr k, w', f') \<Rightarrow>
          (Inr (), rr\<lparr>rr_kernel := k, rr_visible := store_head B (rr_store rr) w'\<rparr>, w', kernel_drop (rr_kernel rr) f'))"

definition rr_restore_to :: "('c, 'a, 'b) duck_ops \<Rightarrow> ('w, 'h, 't, 'm, 'o) subst \<Rightarrow> ('h \<Rightarrow> ('w, 'u) store_ops) \<Rightarrow>
    ('h, 'c) read_replica \<Rightarrow> wal_env \<Rightarrow> wal_source \<Rightarrow> lsn \<Rightarrow> 'w \<Rightarrow> fs \<Rightarrow>
    ((flock_error + unit) \<times> ('h, 'c) read_replica \<times> 'w \<times> fs) option" where
  "rr_restore_to D B R rr E src target w f =
     (case restore_to (R (rp_store (rr_replica rr))) (at_world (rr_replica rr) w) E src target of
        None \<Rightarrow> None
      | Some out \<Rightarrow>
          (case on_store (\<lambda>_. out) (rr_replica rr) w of
             (Inl e, r', w') \<Rightarrow> Some (Inl (FSync ''restore to a point in time'' e), rr\<lparr>rr_replica := r'\<rparr>, w', f)
           | (Inr _, r', w') \<Rightarrow> Some (rr_refresh D B (rr\<lparr>rr_replica := r'\<rparr>) w' f)))"

definition rr_query :: "('c, 'a, 'b) duck_ops \<Rightarrow> ('h, 'c) read_replica \<Rightarrow> string \<Rightarrow> fs \<Rightarrow>
    (flock_error + ('a, 'b) arrow_stream) \<times> ('h, 'c) read_replica \<times> fs" where
  "rr_query D rr sql f =
     (case kernel_query D (rr_kernel rr) sql f of (r, k, f') \<Rightarrow> (map_err FKernel r, rr\<lparr>rr_kernel := k\<rparr>, f'))"

subsection \<open>Steps\<close>

text \<open>One call, with whether it succeeded.\<close>

datatype rr_op =
    RApply shipment
  | RCatchUp wal_env wal_source
  | RRestoreTo wal_env wal_source lsn
  | RRefresh
  | RQuery string

fun rr_step :: "('c, 'a, 'b) duck_ops \<Rightarrow> ('w, 'h, 't, 'm, 'o) subst \<Rightarrow> ('h \<Rightarrow> ('w, 'u) store_ops) \<Rightarrow> rr_op \<Rightarrow>
    ('h, 'c) read_replica \<times> 'w \<times> fs \<Rightarrow> (bool \<times> ('h, 'c) read_replica \<times> 'w \<times> fs) option" where
  "rr_step D B R (RApply sh) (rr, w, f) =
     (case rr_apply R rr sh w of (res, rr', w') \<Rightarrow> Some (\<not> isl res, rr', w', f))"
| "rr_step D B R (RCatchUp E src) (rr, w, f) =
     (case rr_catch_up R rr E src w of None \<Rightarrow> None | Some (res, rr', w') \<Rightarrow> Some (\<not> isl res, rr', w', f))"
| "rr_step D B R (RRestoreTo E src target) (rr, w, f) =
     (case rr_restore_to D B R rr E src target w f of
        None \<Rightarrow> None | Some (res, rr', w', f') \<Rightarrow> Some (\<not> isl res, rr', w', f'))"
| "rr_step D B R RRefresh (rr, w, f) =
     (case rr_refresh D B rr w f of (res, rr', w', f') \<Rightarrow> Some (\<not> isl res, rr', w', f'))"
| "rr_step D B R (RQuery sql) (rr, w, f) =
     (case rr_query D rr sql f of (res, rr', f') \<Rightarrow> Some (\<not> isl res, rr', w, f'))"

definition refreshes :: "rr_op \<Rightarrow> bool" where
  "refreshes c \<longleftrightarrow> (case c of RRefresh \<Rightarrow> True | RRestoreTo _ _ _ \<Rightarrow> True | _ \<Rightarrow> False)"

subsection \<open>The snapshot queries see\<close>

text \<open>The store of a replica is open, at the page size every store is opened with.\<close>

definition rr_inv :: "('w, 'h, 't, 'm, 'o) subst \<Rightarrow> ('w, 'h, 't) substrate_view \<Rightarrow> 'h \<Rightarrow> 'w \<Rightarrow> bool" where
  "rr_inv B V h w \<longleftrightarrow> sv_inv V w \<and> sv_live V w h \<and> pg_page_size B h w = sb_default_page_size B"

text \<open>The engine was opened over the whole file of the visible manifest.\<close>

definition rr_shows :: "('c, 'a, 'b) duck_ops \<Rightarrow> ('w, 'h, 't, 'm, 'o) subst \<Rightarrow> ('w, 'h, 't) substrate_view \<Rightarrow>
    ('h, 'c) read_replica \<Rightarrow> bool" where
  "rr_shows D B V rr \<longleftrightarrow> (\<forall>bs. sv_pages V (rr_visible rr) = layout (sb_default_page_size B) bs \<longrightarrow> length bs \<le> isize_max \<longrightarrow>
     (\<exists>c f1 f2. duck_open D (k_path (rr_kernel rr)) (ko_threads (rr_opts rr)) (ko_max_memory (rr_opts rr)) f1 = (Inr c, f2) \<and>
        fs_lookup f1 (k_path (rr_kernel rr)) = (if bs = [] then None else Some (FileNode bs))))"

definition rr_ok :: "('c, 'a, 'b) duck_ops \<Rightarrow> ('w, 'h, 't, 'm, 'o) subst \<Rightarrow> ('w, 'h, 't) substrate_view \<Rightarrow>
    ('h, 'c) read_replica \<Rightarrow> 'w \<Rightarrow> bool" where
  "rr_ok D B V rr w \<longleftrightarrow> rr_store rr = Local (rp_store (rr_replica rr)) \<and> rr_inv B V (rp_store (rr_replica rr)) w \<and>
     rr_shows D B V rr"

subsection \<open>What \<open>flock-sync\<close> does to the store\<close>

lemma apply_keeps:
  assumes "store_replays SO I staged hash Dv" "I (rp_store r)" "apply_shipment SO r sh = (res, r')"
  shows "I (rp_store r')"
  using assms by (cases rule: apply_cases) (simp_all add: assms(2))

lemma apply_all_keeps:
  assumes "store_replays SO I staged hash Dv"
  shows "I (rp_store r) \<Longrightarrow> apply_all SO r shs n = (res, r') \<Longrightarrow> I (rp_store r')"
proof (induction shs arbitrary: r n)
  case (Cons sh shs)
  obtain a r1 where ap: "apply_shipment SO r sh = (a, r1)" by fastforce
  note I1 = apply_keeps [OF assms Cons.prems(1) ap]
  show ?case
  proof (cases a)
    case (Inl e)
    with Cons.prems ap I1 show ?thesis by simp
  next
    case (Inr x)
    with Cons.prems ap Cons.IH [OF I1] show ?thesis by simp
  qed
qed simp

lemma with_stream_keeps:
  assumes "with_stream E src head r act = Some (res, r')" "P r" "\<And>shs q r1. act shs = (q, r1) \<Longrightarrow> P r1"
  shows "P r'"
  using assms by (auto simp: with_stream_def split: option.splits sum.splits)

lemma catch_up_keeps:
  assumes "store_replays SO I staged hash Dv" "I (rp_store r)" "catch_up SO r E src = Some (res, r')"
  shows "I (rp_store r')"
  using assms(3) unfolding catch_up_def
  by (rule with_stream_keeps [where P = "\<lambda>r. I (rp_store r)"]) (auto intro: assms apply_all_keeps)

lemma restore_to_keeps:
  assumes "store_replays SO I staged hash Dv" "I (rp_store r)" "restore_to SO r E src target = Some (res, r')"
  shows "I (rp_store r')"
  using assms(3) unfolding restore_to_def
proof (rule with_stream_keeps [where P = "\<lambda>r. I (rp_store r)"])
  fix shs q r1 assume "apply_until SO r target shs = (q, r1)"
  then obtain q' where "apply_all SO r (takeWhile (\<lambda>s. sh_lsn s \<le> target) shs) 0 = (q', r1)"
    by (auto simp: apply_until_eq [of SO r target shs 0] split: prod.splits)
  from apply_all_keeps [OF assms(1,2) this] show "I (rp_store r1)" .
qed (rule assms(2))

text \<open>A refresh that succeeds shows the head; one that fails changes nothing.\<close>

lemma rr_refresh_shows:
  assumes law: "substrate_law B V" and ok: "rr_ok D B V rr w" and run: "rr_refresh D B rr w f = (res, rr', w', f')"
  shows "rr_ok D B V rr' w' \<and> (case res of
      Inl _ \<Rightarrow> rr' = rr
    | Inr _ \<Rightarrow> rr_visible rr' = store_head B (rr_store rr) w' \<and> rr_replica rr' = rr_replica rr \<and> rr_store rr' = rr_store rr)"
proof -
  let ?h = "rp_store (rr_replica rr)"
  have st: "rr_store rr = Local ?h" and inv: "rr_inv B V ?h w" using ok by (simp_all add: rr_ok_def)
  obtain z w1 f1 where ko: "kernel_open D (store_page_store B (Local ?h)) w (rr_opts rr) f = (z, w1, f1)"
    by (cases "kernel_open D (store_page_store B (Local ?h)) w (rr_opts rr) f") auto
  have still: "still B V w w1"
    using kernel_open_still [OF law _ _ ko] inv by (simp add: rr_inv_def)
  then have inv1: "rr_inv B V ?h w1" and head: "pg_head B ?h w1 = pg_head B ?h w"
    using inv by (simp_all add: rr_inv_def still_def)
  show ?thesis
  proof (cases z)
    case (Inl e)
    with run ko st have "res = Inl (FKernel e)" "rr' = rr" "w' = w1" by (simp_all add: rr_refresh_def)
    with ok inv1 show ?thesis by (simp add: rr_ok_def)
  next
    case (Inr k)
    with run ko st have r: "res = Inr ()" "rr' = rr\<lparr>rr_kernel := k, rr_visible := pg_head B ?h w1\<rparr>" "w' = w1"
      by (auto simp: rr_refresh_def store_head_def)
    have ko': "kernel_open D (store_page_store B (Local ?h)) w (rr_opts rr) f = (Inr k, w1, f1)" using ko Inr by simp
    have I: "sv_inv V w \<and> sv_live V w (store_pager (Local ?h))" using inv by (simp add: rr_inv_def)
    have size: "pg_page_size B ?h w = sb_default_page_size B" using inv by (simp add: rr_inv_def)
    have "rr_shows D B V rr'"
      unfolding rr_shows_def
    proof (intro allI impI)
      fix bs assume v: "sv_pages V (rr_visible rr') = layout (sb_default_page_size B) bs" and len: "length bs \<le> isize_max"
      have "sv_pages V (pst_head (store_page_store B (Local ?h)) w) =
          layout (pst_page_size (store_page_store B (Local ?h)) w) bs"
        unfolding store_page_store_simps using v head size r by simp
      from kernel_open_Inr [OF core_store_law [OF law] I this len ko'] obtain f2 where
        op: "duck_open D (k_path k) (ko_threads (rr_opts rr)) (ko_max_memory (rr_opts rr)) f2 = (Inr (k_conn k), f1)"
          "fs_lookup f2 (k_path k) = (if bs = [] then None else Some (FileNode bs))" by blast
      have "rr_kernel rr' = k" "rr_opts rr' = rr_opts rr" using r by simp_all
      with op show "\<exists>c f1 f2. duck_open D (k_path (rr_kernel rr')) (ko_threads (rr_opts rr')) (ko_max_memory (rr_opts rr')) f1 = (Inr c, f2) \<and>
        fs_lookup f1 (k_path (rr_kernel rr')) = (if bs = [] then None else Some (FileNode bs))" by metis
    qed
    with r st inv1 show ?thesis by (simp add: rr_ok_def store_head_def)
  qed
qed

lemma on_store_keeps:
  assumes "on_store act r w = (res, r', w')" "\<And>q r1. act (at_world r w) = (q, r1) \<Longrightarrow> I (rp_store r1)"
  shows "I w' \<and> rp_store r' = rp_store r"
  using assms by (auto simp: on_store_def split: prod.splits)

text \<open>The calls of \<open>flock-sync\<close> leave the engine alone, on either result.\<close>

lemma rr_ok_moved:
  assumes "rr_ok D B V rr w" "on_store act (rr_replica rr) w = (res, r1, w1)"
    and "\<And>q r2. act (at_world (rr_replica rr) w) = (q, r2) \<Longrightarrow> rr_inv B V (rp_store (rr_replica rr)) (rp_store r2)"
  shows "rr_ok D B V (rr\<lparr>rr_replica := r1\<rparr>) w1 \<and> rp_store r1 = rp_store (rr_replica rr)"
  using on_store_keeps [OF assms(2), of "rr_inv B V (rp_store (rr_replica rr))"] assms(1,3)
  by (simp add: rr_ok_def rr_shows_def)

lemma rr_apply_stable:
  assumes "\<And>h. store_replays (R h) (rr_inv B V h) staged hash Dv" "rr_ok D B V rr w"
    and "rr_apply R rr sh w = (res, rr', w')"
  shows "rr_ok D B V rr' w' \<and> rr_visible rr' = rr_visible rr \<and> rr_kernel rr' = rr_kernel rr"
proof -
  let ?h = "rp_store (rr_replica rr)"
  obtain q r1 w1 where os: "on_store (\<lambda>r. apply_shipment (R ?h) r sh) (rr_replica rr) w = (q, r1, w1)"
    by (cases "on_store (\<lambda>r. apply_shipment (R ?h) r sh) (rr_replica rr) w") auto
  with assms(3) have r: "rr' = rr\<lparr>rr_replica := r1\<rparr>" "w' = w1" by (auto simp: rr_apply_def)
  have I: "rr_inv B V ?h (rp_store (at_world (rr_replica rr) w))" using assms(2) by (simp add: rr_ok_def at_world_def)
  from rr_ok_moved [OF assms(2) os apply_keeps [OF assms(1) I]] r show ?thesis by simp
qed

lemma rr_catch_up_stable:
  assumes "\<And>h. store_replays (R h) (rr_inv B V h) staged hash Dv" "rr_ok D B V rr w"
    and "rr_catch_up R rr E src w = Some (res, rr', w')"
  shows "rr_ok D B V rr' w' \<and> rr_visible rr' = rr_visible rr \<and> rr_kernel rr' = rr_kernel rr"
proof -
  let ?h = "rp_store (rr_replica rr)"
  obtain q x where cu: "catch_up (R ?h) (at_world (rr_replica rr) w) E src = Some (q, x)"
    using assms(3) by (auto simp: rr_catch_up_def split: option.splits)
  obtain q2 r1 w1 where os: "on_store (\<lambda>_. (q, x)) (rr_replica rr) w = (q2, r1, w1)" by (simp add: on_store_def)
  with assms(3) cu have r: "rr' = rr\<lparr>rr_replica := r1\<rparr>" "w' = w1" by (auto simp: rr_catch_up_def)
  have I: "rr_inv B V ?h (rp_store (at_world (rr_replica rr) w))" using assms(2) by (simp add: rr_ok_def at_world_def)
  from rr_ok_moved [OF assms(2) os] catch_up_keeps [OF assms(1) I cu] r show ?thesis by simp
qed

lemma rr_restore_to_stable:
  assumes "substrate_law B V" "\<And>h. store_replays (R h) (rr_inv B V h) staged hash Dv" "rr_ok D B V rr w"
    and "rr_restore_to D B R rr E src target w f = Some (res, rr', w', f')"
  shows "rr_ok D B V rr' w' \<and> (case res of
      Inl _ \<Rightarrow> rr_visible rr' = rr_visible rr \<and> rr_kernel rr' = rr_kernel rr
    | Inr _ \<Rightarrow> rr_visible rr' = store_head B (rr_store rr') w' \<and> rp_store (rr_replica rr') = rp_store (rr_replica rr))"
proof -
  let ?h = "rp_store (rr_replica rr)"
  obtain q x where rt: "restore_to (R ?h) (at_world (rr_replica rr) w) E src target = Some (q, x)"
    using assms(4) by (auto simp: rr_restore_to_def split: option.splits)
  obtain q2 r1 w1 where os: "on_store (\<lambda>_. (q, x)) (rr_replica rr) w = (q2, r1, w1)" by (simp add: on_store_def)
  have I: "rr_inv B V ?h (rp_store (at_world (rr_replica rr) w))" using assms(3) by (simp add: rr_ok_def at_world_def)
  have ok: "rr_ok D B V (rr\<lparr>rr_replica := r1\<rparr>) w1" "rp_store r1 = ?h"
    using rr_ok_moved [OF assms(3) os] restore_to_keeps [OF assms(2) I rt] by simp_all
  show ?thesis
  proof (cases q2)
    case (Inl e)
    with assms(4) rt os have "rr' = rr\<lparr>rr_replica := r1\<rparr>" "w' = w1" "isl res" by (auto simp: rr_restore_to_def)
    with ok show ?thesis by (cases res) simp_all
  next
    case (Inr u)
    obtain res2 x2 w2 f2 where rf: "rr_refresh D B (rr\<lparr>rr_replica := r1\<rparr>) w1 f = (res2, x2, w2, f2)"
      by (cases "rr_refresh D B (rr\<lparr>rr_replica := r1\<rparr>) w1 f") auto
    with assms(4) rt os Inr have r: "rr' = x2" "w' = w2" "isl res = isl res2" by (auto simp: rr_restore_to_def)
    from rr_refresh_shows [OF assms(1) ok(1) rf] r ok(2) show ?thesis by (cases res; cases res2) auto
  qed
qed

text \<open>C15: the snapshot queries see is whole, and moves only when asked. Whatever a read replica is
  called with, and whether the call succeeds or fails, its engine remains one opened over exactly the
  file of the manifest it says is visible; and that manifest changes only in a refresh, or a restore,
  that succeeded, and then to the head that has been applied.\<close>

theorem visible_snapshot_is_stable:
  assumes "substrate_law B V" "\<And>h. store_replays (R h) (rr_inv B V h) staged hash Dv"
    and "\<And>h w. so_head (R h) w = pg_head B h w"
    and "rr_ok D B V rr w" "rr_step D B R c (rr, w, f) = Some (succeeded, rr', w', f')"
  shows "rr_ok D B V rr' w' \<and>
    (if refreshes c \<and> succeeded then rr_visible rr' = rr_applied_head R rr' w'
     else rr_visible rr' = rr_visible rr \<and> k_path (rr_kernel rr') = k_path (rr_kernel rr))"
proof -
  have ok: "rr_ok D B V rr' w' \<Longrightarrow> rr_visible rr' = store_head B (rr_store rr') w' \<Longrightarrow>
      rr_visible rr' = rr_applied_head R rr' w'"
    by (simp add: rr_ok_def rr_applied_head_def replica_head_def at_world_def assms(3) store_head_def)
  show ?thesis
  proof (cases c)
    case (RApply sh)
    with assms(5) rr_apply_stable [OF assms(2,4), of sh] show ?thesis
      by (cases "rr_apply R rr sh w") (auto simp: refreshes_def)
  next
    case (RCatchUp E src)
    with assms(5) rr_catch_up_stable [OF assms(2,4), of E src] show ?thesis
      by (auto simp: refreshes_def split: option.splits)
  next
    case (RRestoreTo E src target)
    with assms(5) obtain res where rt: "rr_restore_to D B R rr E src target w f = Some (res, rr', w', f')"
      and s: "succeeded = (\<not> isl res)" by (auto split: option.splits)
    from rr_restore_to_stable [OF assms(1,2,4) rt] ok RRestoreTo s show ?thesis
      by (cases res) (auto simp: refreshes_def)
  next
    case RRefresh
    obtain res x2 w2 f2 where rf: "rr_refresh D B rr w f = (res, x2, w2, f2)" by (cases "rr_refresh D B rr w f") auto
    with RRefresh assms(5) have r: "rr' = x2" "w' = w2" "succeeded = (\<not> isl res)" by auto
    from rr_refresh_shows [OF assms(1,4) rf] r ok RRefresh show ?thesis by (cases res) (auto simp: refreshes_def)
  next
    case (RQuery sql)
    obtain q k f1 where kq: "kernel_query D (rr_kernel rr) sql f = (q, k, f1)"
      by (cases "kernel_query D (rr_kernel rr) sql f") auto
    then have k: "k_path k = k_path (rr_kernel rr)"
      by (auto simp: kernel_query_def split: sum.splits prod.splits)
    have r: "rr' = rr\<lparr>rr_kernel := k\<rparr>" "w' = w" using RQuery assms(5) kq by (auto simp: rr_query_def)
    then have "rr_ok D B V rr' w'" using assms(4) k by (simp add: rr_ok_def rr_shows_def)
    with RQuery r k show ?thesis by (simp add: refreshes_def)
  qed
qed

subsection \<open>An instance\<close>

text \<open>The stores of \<open>demo_subst\<close> as \<open>flock-sync\<close> sees them.\<close>

definition demo_follower :: "demo_handle \<Rightarrow> (demo_world, page_write list) store_ops" where
  "demo_follower h =
     \<lparr>so_open = (\<lambda>_. Inl ''already open''), so_recover = (\<lambda>w. (Inr (), w)), so_head = demo_head h,
      so_read = (\<lambda>_ _ _. Inl ''not kept''), so_begin = (\<lambda>w. (Inr [], w)),
      so_write = (\<lambda>w t p b. (Inr (PageId b, bt_insert p (Some (PageId b)) t), w)),
      so_remove = (\<lambda>w t p. (Inr (bt_insert p None t), w)),
      so_commit = (\<lambda>w t now. if demo_live w h
         then (Inr (demo_derive (demo_head h w) t now), demo_set h (demo_derive (demo_head h w) t now) w)
         else (Inl ''closed'', w))\<rparr>"

lemma demo_follower_replays:
  "store_replays (demo_follower h) (rr_inv demo_subst demo_obs h) (\<lambda>t. t) PageId demo_derive"
  by (auto simp: store_replays_def demo_follower_def rr_inv_def demo_live_set demo_head_set split: if_splits)

definition demo_rr :: "(demo_handle, unit) read_replica" where
  "demo_rr = \<lparr>rr_name = ''a'', rr_root = [''pool''],
     rr_replica = \<lparr>rp_store = (0, Some [''pool'', ''dbs'', ''a'']), rp_clock = clock_new, rp_applied = None\<rparr>,
     rr_store = Local (0, Some [''pool'', ''dbs'', ''a'']),
     rr_kernel = \<lparr>k_conn = (), k_path = [''db''], k_scratch = [''old'']\<rparr>, rr_visible = ManifestId [],
     rr_opts = opts_default\<rparr>"

definition demo_behind :: demo_world where
  "demo_behind = demo_w\<lparr>dw_open := [(Some [''pool'', ''dbs'', ''a''], ManifestId [])]\<rparr>"

lemma demo_rr_ok: "rr_ok demo_duck demo_subst demo_obs demo_rr demo_behind"
proof -
  have "\<exists>f1. fs_lookup f1 [''db''] = (if bs = [] then None else Some (FileNode bs))" for bs
  proof (cases "bs = []")
    case True
    then show ?thesis by (intro exI [of _ "\<lparr>fs_tree = [], fs_faults = \<lambda>_. None, fs_calls = 0,
     fs_done = (\<lambda>_. None), fs_gone = (\<lambda>_ _. False)\<rparr>"]) (simp add: fs_lookup_def)
  next
    case False
    then show ?thesis by (intro exI [of _ "fs_put demo_fs [''db''] (FileNode bs)"]) (simp add: fs_simps)
  qed
  then show ?thesis
    by (simp add: rr_ok_def rr_shows_def rr_inv_def demo_rr_def demo_behind_def demo_live_def demo_duck_def)
qed

text \<open>A shipment is applied: the head moves on, what queries see does not.\<close>

lemma visible_snapshot_is_stable_witness:
  "\<exists>rr' w' f'. rr_step demo_duck demo_subst demo_follower (RApply (hd demo_shipments)) (demo_rr, demo_behind, demo_fs) =
     Some (True, rr', w', f') \<and> rr_visible rr' = ManifestId [] \<and> rr_applied_head demo_follower rr' w' = ManifestId [1, 100]"
proof -
  have heads: "so_head (demo_follower h) w = pg_head demo_subst h w" for h w by (simp add: demo_follower_def)
  obtain rr' w' f' where run: "rr_step demo_duck demo_subst demo_follower (RApply (hd demo_shipments))
      (demo_rr, demo_behind, demo_fs) = Some (True, rr', w', f')"
    and head: "rr_applied_head demo_follower rr' w' = ManifestId [1, 100]"
    by (simp add: rr_apply_def on_store_def at_world_def demo_rr_def apply_shipment_def Let_def demo_follower_def
        demo_shipments_def demo_behind_def demo_w_def demo_head_def demo_live_def demo_set_def clock_set_def
        clock_read_def clock_new_def bytes_for_def demo_derive_def rr_applied_head_def replica_head_def map_err_def)
  from visible_snapshot_is_stable [OF demo_law demo_follower_replays heads demo_rr_ok run] run head show ?thesis
    by (simp add: refreshes_def demo_rr_def)
qed

end
