(* ===== verification/Core_Sleep.thy ===== *)
theory Core_Sleep
  imports Core_Db
begin

section \<open>Putting a database to sleep\<close>

text \<open>
  \<open>Db::sleep\<close> of \<open>crates/flock-core/src/db.rs\<close>: snapshot, release the engine, copy the head's whole
  ancestry and every page it can see into a throwaway tiered store, and have that store upload them.
  The walk follows two edges out of a manifest, its overlay base and its parent, so it is a search of
  a graph; that it ends, and that nothing reachable is left behind, is the theorem. A \<open>HashSet\<close> iterates
  in an order of its own: \<open>sleep\<close> takes that order as an argument.
\<close>

subsection \<open>The walk and the upload\<close>

text \<open>
  The walk over the head's ancestry: a stack with its top first, the manifests seen, the page ids
  collected. It loops on a graph, so it is a partial function; \<open>None\<close> is not returning.
\<close>

definition pushed :: "('w, 'h, 't, 'm, 'o) subst \<Rightarrow> 'm \<Rightarrow> manifest_id list \<Rightarrow> manifest_id list" where
  "pushed B m stack =
     (case mf_parent B m of Some p \<Rightarrow> [p] | None \<Rightarrow> []) @
     (case mf_overlay_base B m of Some b \<Rightarrow> [b] | None \<Rightarrow> []) @ stack"

partial_function (option) sleep_walk :: "('w, 'h, 't, 'm, 'o) subst \<Rightarrow> 'h \<Rightarrow> 'h \<Rightarrow> manifest_id list \<Rightarrow>
    manifest_id list \<Rightarrow> page_id list \<Rightarrow> 'w \<Rightarrow> ((flock_error + manifest_id list \<times> page_id list) \<times> 'w) option" where
  "sleep_walk B src dst stack seen page_ids w =
     (case stack of
        [] \<Rightarrow> Some (Inr (seen, page_ids), w)
      | mid # rest \<Rightarrow>
          if mid \<in> set seen then sleep_walk B src dst rest seen page_ids w
          else
     (case pg_manifest B src mid w of
        (Inl e, w1) \<Rightarrow> Some (Inl (FPager ''read manifest'' e), w1)
      | (Inr m, w1) \<Rightarrow>
     (case pg_resolve B src mid w1 of
        (Inl e, w2) \<Rightarrow> Some (Inl (FPager ''resolve manifest'' e), w2)
      | (Inr pages, w2) \<Rightarrow>
     (case ms_put B dst m w2 of
        (Inl e, w3) \<Rightarrow> Some (Inl (FPager ''stage manifest'' e), w3)
      | (Inr _, w3) \<Rightarrow>
          sleep_walk B src dst (pushed B m rest) (mid # seen)
            (fold List.insert (map snd pages) page_ids) w3))))"

fun copy_pages :: "('w, 'h, 't, 'm, 'o) subst \<Rightarrow> 'h \<Rightarrow> 'h \<Rightarrow> page_id list \<Rightarrow> 'w \<Rightarrow> (flock_error + unit) \<times> 'w" where
  "copy_pages B src dst [] w = (Inr (), w)"
| "copy_pages B src dst (p # ps) w =
     (case cas_get B src p w of
        (Inl e, w1) \<Rightarrow> (Inl (FPager ''read page for upload'' e), w1)
      | (Inr page, w1) \<Rightarrow>
          (case cas_put B dst page w1 of
             (Inl e, w2) \<Rightarrow> (Inl (FPager ''stage page for upload'' e), w2)
           | (Inr _, w2) \<Rightarrow> copy_pages B src dst ps w2))"

text \<open>From the staging store being open to it being asleep.\<close>

definition sleep_into :: "('w, 'h, 't, 'm, 'o) subst \<Rightarrow> (page_id list \<Rightarrow> page_id list) \<Rightarrow> 'h \<Rightarrow> 'h \<Rightarrow>
    manifest_id \<Rightarrow> 'w \<Rightarrow> ((flock_error + wake_token) \<times> 'w) option" where
  "sleep_into B order src tiered head w =
     (case sleep_walk B src tiered [head] [] [] w of
        None \<Rightarrow> None
      | Some (Inl e, w1) \<Rightarrow> Some (Inl e, w1)
      | Some (Inr (seen, page_ids), w1) \<Rightarrow>
          Some (case copy_pages B src tiered (order page_ids) w1 of
                  (Inl e, w2) \<Rightarrow> (Inl e, w2)
                | (Inr _, w2) \<Rightarrow>
                    (case pg_set_head_to B tiered head w2 of
                       (Inl e, w3) \<Rightarrow> (Inl (FPager ''position the staging store'' e), w3)
                     | (Inr _, w3) \<Rightarrow>
                         (case tr_sleep B tiered w3 of (r, w4) \<Rightarrow> (map_err (FTier ''sleep'') r, w4)))))"

fun outcome_of :: "'e + 'a \<Rightarrow> ('e, 'a) outcome" where
  "outcome_of (Inl e) = Err e"
| "outcome_of (Inr a) = Ok a"

definition db_sleep :: "('c, 'a, 'b) duck_ops \<Rightarrow> ('w, 'h, 't, 'm, 'o) subst \<Rightarrow> (page_id list \<Rightarrow> page_id list) \<Rightarrow>
    ('h, 'c) db \<Rightarrow> 'o remote_tier \<Rightarrow> 'w \<Rightarrow> fs \<Rightarrow> ((flock_error, wake_token) outcome \<times> 'w \<times> fs) option" where
  "db_sleep D B order db remote w f =
     (case db_snapshot D B db w f of
        (Err e, db', w1, f1) \<Rightarrow> Some (Err e, w1, kernel_drop (db_kernel db') f1)
      | (Panic, db', w1, f1) \<Rightarrow> Some (Panic, w1, kernel_drop (db_kernel db') f1)
      | (Ok head, db', w1, f1) \<Rightarrow>
          (let page_size = pg_page_size B (store_pager (db_store db)) w1;
               f2 = kernel_drop (db_kernel db') f1
           in case duck_temp_dir D f2 of
                (Inl e, f3) \<Rightarrow> Some (Err (FPool ''stage for sleep'' (db_root db) e), w1, f3)
              | (Inr staging, f3) \<Rightarrow>
                  (let config = \<lparr>sc_page_size = page_size, sc_pool = rt_pool remote\<rparr>
                   in case tr_open B staging remote config w1 of
                        (Inl e, w2) \<Rightarrow> Some (Err (FTier ''open the staging store'' e), w2, drop_scratch staging f3)
                      | (Inr tiered, w2) \<Rightarrow>
                          (case sleep_into B order (store_pager (db_store db)) tiered head w2 of
                             None \<Rightarrow> None
                           | Some (r, w3) \<Rightarrow> Some (outcome_of r, w3, drop_scratch staging f3)))))"

subsection \<open>What sleep relies on\<close>

text \<open>
  Manifests and pages are immutable and named by their content, a tiered store keeps what is put in it
  until it has been uploaded, and its sleep uploads what it keeps or fails.
\<close>

record ('w, 'h, 'm) sleep_view =
  pv_manifest :: "manifest_id \<Rightarrow> 'm"
  pv_resolved :: "manifest_id \<Rightarrow> page_id set"
  pv_content :: "page_id \<Rightarrow> bytes"
  pv_pending :: "'w \<Rightarrow> 'h \<Rightarrow> page_id set"
  pv_staged :: "'w \<Rightarrow> 'h \<Rightarrow> 'm set"
  pv_bucket_pages :: "'w \<Rightarrow> page_id set"
  pv_bucket_manifests :: "'w \<Rightarrow> 'm set"

definition keeps :: "('w, 'h, 't) substrate_view \<Rightarrow> ('w, 'h, 'm) sleep_view \<Rightarrow> 'w \<Rightarrow> 'w \<Rightarrow> bool" where
  "keeps V S w w' \<longleftrightarrow> sv_inv V w' \<and> (\<forall>h. sv_live V w h \<longrightarrow> sv_live V w' h \<and>
     pv_pending S w h \<subseteq> pv_pending S w' h \<and> pv_staged S w h \<subseteq> pv_staged S w' h)"

definition upload_law :: "('w, 'h, 't, 'm, 'o) subst \<Rightarrow> ('w, 'h, 't) substrate_view \<Rightarrow> ('w, 'h, 'm) sleep_view \<Rightarrow>
    'w \<Rightarrow> 'h \<Rightarrow> bool" where
  "upload_law B V S w h \<longleftrightarrow>
     (\<forall>m r w'. pg_manifest B h m w = (r, w') \<longrightarrow> keeps V S w w' \<and> (\<forall>x. r = Inr x \<longrightarrow> x = pv_manifest S m)) \<and>
     (\<forall>m r w'. pg_resolve B h m w = (r, w') \<longrightarrow> keeps V S w w' \<and>
        (\<forall>l. r = Inr l \<longrightarrow> snd ` set l = pv_resolved S m)) \<and>
     (\<forall>p r w'. cas_get B h p w = (r, w') \<longrightarrow> keeps V S w w' \<and> (\<forall>b. r = Inr b \<longrightarrow> b = pv_content S p)) \<and>
     (\<forall>b r w'. cas_put B h b w = (r, w') \<longrightarrow> keeps V S w w' \<and>
        (\<forall>i p. r = Inr i \<longrightarrow> pv_content S p = b \<longrightarrow> p \<in> pv_pending S w' h)) \<and>
     (\<forall>x r w'. ms_put B h x w = (r, w') \<longrightarrow> keeps V S w w' \<and> (r = Inr () \<longrightarrow> x \<in> pv_staged S w' h)) \<and>
     (\<forall>m r w'. pg_set_head_to B h m w = (r, w') \<longrightarrow> keeps V S w w' \<and> (r = Inr () \<longrightarrow> pg_head B h w' = m)) \<and>
     (\<forall>k w'. tr_sleep B h w = (Inr k, w') \<longrightarrow> wt_manifest k = pg_head B h w \<and>
        pv_pending S w h \<subseteq> pv_bucket_pages S w' \<and> pv_staged S w h \<subseteq> pv_bucket_manifests S w')"

definition sleep_law :: "('w, 'h, 't, 'm, 'o) subst \<Rightarrow> ('w, 'h, 't) substrate_view \<Rightarrow> ('w, 'h, 'm) sleep_view \<Rightarrow> bool" where
  "sleep_law B V S \<longleftrightarrow> (\<forall>w. sv_inv V w \<longrightarrow>
     (\<forall>d tier c r w'. tr_open B d tier c w = (r, w') \<longrightarrow> keeps V S w w' \<and> (\<forall>h. r = Inr h \<longrightarrow> sv_live V w' h)) \<and>
     (\<forall>h. sv_live V w h \<longrightarrow> upload_law B V S w h))"

lemma sleep_lawD:
  assumes "sleep_law B V S" "sv_inv V w"
  shows "tr_open B d tier c w = (r, w') \<Longrightarrow> keeps V S w w' \<and> (\<forall>h. r = Inr h \<longrightarrow> sv_live V w' h)"
    "sv_live V w h \<Longrightarrow> upload_law B V S w h"
proof -
  note L = assms(1) [unfolded sleep_law_def, rule_format, OF assms(2)]
  show "tr_open B d tier c w = (r, w') \<Longrightarrow> keeps V S w w' \<and> (\<forall>h. r = Inr h \<longrightarrow> sv_live V w' h)"
    using L(1) by blast
  show "sv_live V w h \<Longrightarrow> upload_law B V S w h" using L by blast
qed

lemma upload_lawD:
  assumes "upload_law B V S w h"
  shows "pg_manifest B h m w = (r2, w') \<Longrightarrow> keeps V S w w' \<and> (\<forall>x. r2 = Inr x \<longrightarrow> x = pv_manifest S m)"
    "pg_resolve B h m w = (r3, w') \<Longrightarrow> keeps V S w w' \<and> (\<forall>l. r3 = Inr l \<longrightarrow> snd ` set l = pv_resolved S m)"
    "cas_get B h p w = (r4, w') \<Longrightarrow> keeps V S w w' \<and> (\<forall>b. r4 = Inr b \<longrightarrow> b = pv_content S p)"
    "cas_put B h b w = (r5, w') \<Longrightarrow>
       keeps V S w w' \<and> (\<forall>i p. r5 = Inr i \<longrightarrow> pv_content S p = b \<longrightarrow> p \<in> pv_pending S w' h)"
    "ms_put B h x w = (r6, w') \<Longrightarrow> keeps V S w w' \<and> (r6 = Inr () \<longrightarrow> x \<in> pv_staged S w' h)"
    "pg_set_head_to B h m w = (r7, w') \<Longrightarrow> keeps V S w w' \<and> (r7 = Inr () \<longrightarrow> pg_head B h w' = m)"
    "tr_sleep B h w = (Inr k, w') \<Longrightarrow> wt_manifest k = pg_head B h w \<and>
       pv_pending S w h \<subseteq> pv_bucket_pages S w' \<and> pv_staged S w h \<subseteq> pv_bucket_manifests S w'"
  using assms by (simp_all add: upload_law_def)

lemma keeps_trans: "keeps V S w w1 \<Longrightarrow> keeps V S w1 w2 \<Longrightarrow> keeps V S w w2"
  unfolding keeps_def by blast

lemma keeps_refl: "sv_inv V w \<Longrightarrow> keeps V S w w"
  by (simp add: keeps_def)

lemma keepsD: "keeps V S w w' \<Longrightarrow> sv_live V w h \<Longrightarrow> sv_inv V w' \<and> sv_live V w' h \<and>
    pv_pending S w h \<subseteq> pv_pending S w' h \<and> pv_staged S w h \<subseteq> pv_staged S w' h"
  by (simp add: keeps_def)

subsection \<open>The ancestry\<close>

text \<open>The manifests a manifest leads to, and everything reachable from it.\<close>

definition next_manifests :: "('w, 'h, 't, 'm, 'o) subst \<Rightarrow> ('w, 'h, 'm) sleep_view \<Rightarrow> manifest_id \<Rightarrow> manifest_id set" where
  "next_manifests B S m = set_option (mf_parent B (pv_manifest S m)) \<union> set_option (mf_overlay_base B (pv_manifest S m))"

definition ancestry :: "('w, 'h, 't, 'm, 'o) subst \<Rightarrow> ('w, 'h, 'm) sleep_view \<Rightarrow> manifest_id \<Rightarrow> manifest_id set" where
  "ancestry B S head = {(a, b). b \<in> next_manifests B S a}\<^sup>* `` {head}"

lemma ancestry_head [simp, intro]: "head \<in> ancestry B S head"
  by (simp add: ancestry_def)

lemma ancestry_next: "a \<in> ancestry B S head \<Longrightarrow> next_manifests B S a \<subseteq> ancestry B S head"
  unfolding ancestry_def by (auto intro: rtrancl_into_rtrancl)

lemma ancestry_least:
  assumes "head \<in> X" "\<And>a. a \<in> X \<Longrightarrow> next_manifests B S a \<subseteq> X"
  shows "ancestry B S head \<subseteq> X"
proof
  fix m assume "m \<in> ancestry B S head"
  then have "(head, m) \<in> {(a, b). b \<in> next_manifests B S a}\<^sup>*" by (simp add: ancestry_def)
  then show "m \<in> X" by induction (use assms in auto)
qed

lemma set_pushed: "set (pushed B (pv_manifest S m) stack) = next_manifests B S m \<union> set stack"
  by (auto simp: pushed_def next_manifests_def split: option.splits)

lemma set_fold_insert: "set (fold List.insert xs ys) = set xs \<union> set ys"
  by (induction xs arbitrary: ys) auto

subsection \<open>The walk ends and misses nothing\<close>

text \<open>What a walk from \<open>stack\<close> with \<open>seen\<close> behind it ends with.\<close>

definition walked :: "('w, 'h, 't, 'm, 'o) subst \<Rightarrow> ('w, 'h, 'm) sleep_view \<Rightarrow> 'h \<Rightarrow> manifest_id list \<Rightarrow>
    manifest_id list \<Rightarrow> page_id list \<Rightarrow> 'w \<Rightarrow> manifest_id list \<Rightarrow> page_id list \<Rightarrow> bool" where
  "walked B S dst stack seen ids w' seen' ids' \<longleftrightarrow>
     set seen \<union> set stack \<subseteq> set seen' \<and> set ids \<subseteq> set ids' \<and>
     (\<forall>a \<in> set seen' - set seen. next_manifests B S a \<subseteq> set seen' \<and>
        pv_manifest S a \<in> pv_staged S w' dst \<and> pv_resolved S a \<subseteq> set ids')"

lemma sleep_walk_visit:
  assumes law: "sleep_law B V S" and inv: "sv_inv V w" and src: "sv_live V w src" and dst: "sv_live V w dst"
    and new: "mid \<notin> set seen"
  obtains (stops) e w' where "sleep_walk B src dst (mid # rest) seen ids w = Some (Inl e, w')" "keeps V S w w'"
  | (goes) l :: "(page_no \<times> page_id) list" and w3 where "sleep_walk B src dst (mid # rest) seen ids w =
        sleep_walk B src dst (pushed B (pv_manifest S mid) rest) (mid # seen) (fold List.insert (map snd l) ids) w3"
      "keeps V S w w3" "pv_manifest S mid \<in> pv_staged S w3 dst" "snd ` set l = pv_resolved S mid"
proof -
  obtain rm w1 where m: "pg_manifest B src mid w = (rm, w1)" by fastforce
  note k1 = upload_lawD(1) [OF sleep_lawD(2) [OF law inv src] m]
  note l1 = keepsD [OF conjunct1 [OF k1] src] keepsD [OF conjunct1 [OF k1] dst]
  obtain rp w2 where p: "pg_resolve B src mid w1 = (rp, w2)" by fastforce
  have inv1: "sv_inv V w1" and src1: "sv_live V w1 src" and dst1: "sv_live V w1 dst" using l1 by simp_all
  note k2 = upload_lawD(2) [OF sleep_lawD(2) [OF law inv1 src1] p]
  have inv2: "sv_inv V w2" and dst2: "sv_live V w2 dst" using keepsD [OF conjunct1 [OF k2] dst1] by simp_all
  obtain rs w3 where st: "ms_put B dst (pv_manifest S mid) w2 = (rs, w3)" by fastforce
  note k3 = upload_lawD(5) [OF sleep_lawD(2) [OF law inv2 dst2] st]
  note k02 = keeps_trans [OF conjunct1 [OF k1] conjunct1 [OF k2]]
  note k03 = keeps_trans [OF k02 conjunct1 [OF k3]]
  show thesis
  proof (cases "isl rm \<or> isl rp \<or> isl rs")
    case True
    then have "\<exists>e w'. sleep_walk B src dst (mid # rest) seen ids w = Some (Inl e, w') \<and> keeps V S w w'"
      using k1 k02 k03 m p st new
      by (cases rm; cases rp; cases rs) (auto simp: sleep_walk.simps [of B src dst "mid # rest"])
    with stops show thesis by blast
  next
    case False
    then obtain l where r: "rm = Inr (pv_manifest S mid)" "rp = Inr l" "rs = Inr ()"
      using k1 by (cases rm; cases rp; cases rs) auto
    have "sleep_walk B src dst (mid # rest) seen ids w =
        sleep_walk B src dst (pushed B (pv_manifest S mid) rest) (mid # seen) (fold List.insert (map snd l) ids) w3"
      using m p st r new by (simp add: sleep_walk.simps [of B src dst "mid # rest"])
    from goes [OF this k03] k2 k3 r show thesis by blast
  qed
qed

lemma sleep_walk_runs:
  assumes law: "sleep_law B V S" and fin: "finite A" and clo: "\<And>a. a \<in> A \<Longrightarrow> next_manifests B S a \<subseteq> A"
  shows "sv_inv V w \<Longrightarrow> sv_live V w src \<Longrightarrow> sv_live V w dst \<Longrightarrow> set stack \<subseteq> A \<Longrightarrow>
    \<exists>r w'. sleep_walk B src dst stack seen ids w = Some (r, w') \<and> keeps V S w w' \<and>
      (\<forall>seen' ids'. r = Inr (seen', ids') \<longrightarrow> walked B S dst stack seen ids w' seen' ids')"
proof (induction "(card (A - set seen), length stack)" arbitrary: stack seen ids w
    rule: wf_induct_rule [OF wf_lex_prod [OF wf_less_than wf_less_than]])
  case 1
  note IH = "1.hyps" and inv = "1.prems"(1) and src = "1.prems"(2) and dst = "1.prems"(3) and sub = "1.prems"(4)
  show ?case
  proof (cases stack)
    case Nil
    then show ?thesis using keeps_refl [OF inv, of S] by (simp add: sleep_walk.simps walked_def)
  next
    case (Cons mid rest)
    show ?thesis
    proof (cases "mid \<in> set seen")
      case True
      then have "\<exists>r w'. sleep_walk B src dst rest seen ids w = Some (r, w') \<and> keeps V S w w' \<and>
          (\<forall>seen' ids'. r = Inr (seen', ids') \<longrightarrow> walked B S dst rest seen ids w' seen' ids')"
        by (intro IH) (use inv src dst sub Cons in auto)
      then show ?thesis using True by (fastforce simp: Cons sleep_walk.simps [of B src dst "mid # rest"] walked_def)
    next
      case False
      from law inv src dst False show ?thesis
      proof (cases rule: sleep_walk_visit [where rest = rest and ids = ids])
        case (stops e w')
        then show ?thesis by (simp add: Cons)
      next
        case (goes l w3)
        let ?stack = "pushed B (pv_manifest S mid) rest" and ?ids = "fold List.insert (map snd l) ids"
        note l3 = keepsD [OF goes(2) src] keepsD [OF goes(2) dst]
        have midA: "mid \<in> A" using sub Cons by simp
        have "A - set (mid # seen) \<subset> A - set seen" using midA False by auto
        then have "card (A - set (mid # seen)) < card (A - set seen)" using fin by (intro psubset_card_mono) simp_all
        then have "\<exists>r w'. sleep_walk B src dst ?stack (mid # seen) ?ids w3 = Some (r, w') \<and> keeps V S w3 w' \<and>
            (\<forall>seen' ids'. r = Inr (seen', ids') \<longrightarrow> walked B S dst ?stack (mid # seen) ?ids w' seen' ids')"
          by (intro IH) (use l3 clo [OF midA] sub Cons in \<open>auto simp: set_pushed\<close>)
        then obtain r w' where run: "sleep_walk B src dst stack seen ids w = Some (r, w')" and k: "keeps V S w3 w'"
          and wk: "\<And>seen' ids'. r = Inr (seen', ids') \<Longrightarrow> walked B S dst ?stack (mid # seen) ?ids w' seen' ids'"
          using goes(1) Cons by auto
        have "pv_manifest S mid \<in> pv_staged S w' dst" using goes(3) keepsD [OF k] l3 by blast
        then have "walked B S dst stack seen ids w' seen' ids'" if "r = Inr (seen', ids')" for seen' ids'
          using wk [OF that] goes(4) by (auto simp: walked_def set_pushed set_fold_insert Cons)
        with run keeps_trans [OF goes(2) k] show ?thesis by blast
      qed
    qed
  qed
qed

lemma copy_pages_pending:
  assumes law: "sleep_law B V S"
  shows "copy_pages B src dst ps w = (r, w') \<Longrightarrow> sv_inv V w \<Longrightarrow> sv_live V w src \<Longrightarrow> sv_live V w dst \<Longrightarrow>
    keeps V S w w' \<and> (r = Inr () \<longrightarrow> set ps \<subseteq> pv_pending S w' dst)"
proof (induction ps arbitrary: w)
  case Nil
  then show ?case by (simp add: keeps_refl)
next
  case (Cons p ps)
  obtain rg w1 where g: "cas_get B src p w = (rg, w1)" by fastforce
  note k1 = upload_lawD(3) [OF sleep_lawD(2) [OF law Cons.prems(2,3)] g]
  have inv1: "sv_inv V w1" and live1: "sv_live V w1 src" "sv_live V w1 dst"
    using keepsD [OF conjunct1 [OF k1]] Cons.prems by blast+
  show ?case
  proof (cases rg)
    case (Inl e)
    with Cons.prems g k1 show ?thesis by auto
  next
    case (Inr b)
    obtain rp w2 where p: "cas_put B dst b w1 = (rp, w2)" by fastforce
    note k2 = upload_lawD(4) [OF sleep_lawD(2) [OF law inv1 live1(2)] p]
    have inv2: "sv_inv V w2" and live2: "sv_live V w2 src" "sv_live V w2 dst"
      using keepsD [OF conjunct1 [OF k2]] live1 by blast+
    note k02 = keeps_trans [OF conjunct1 [OF k1] conjunct1 [OF k2]]
    show ?thesis
    proof (cases rp)
      case (Inl e)
      with Cons.prems g p Inr k02 show ?thesis by auto
    next
      case (Inr i)
      have rest: "copy_pages B src dst ps w2 = (r, w')" using Cons.prems(1) g p \<open>rg = Inr b\<close> Inr by simp
      note ih = Cons.IH [OF rest inv2 live2]
      have "p \<in> pv_pending S w2 dst" using k1 k2 \<open>rg = Inr b\<close> Inr by blast
      then have "p \<in> pv_pending S w' dst" using keepsD [OF conjunct1 [OF ih] live2(2)] by blast
      with ih keeps_trans [OF k02 conjunct1 [OF ih]] show ?thesis by simp
    qed
  qed
qed

text \<open>What the bucket must hold for a manifest to be woken, read and restored to any of its history.\<close>

definition uploaded :: "('w, 'h, 't, 'm, 'o) subst \<Rightarrow> ('w, 'h, 'm) sleep_view \<Rightarrow> manifest_id \<Rightarrow> 'w \<Rightarrow> bool" where
  "uploaded B S head w \<longleftrightarrow> (\<forall>a \<in> ancestry B S head. pv_manifest S a \<in> pv_bucket_manifests S w \<and>
     pv_resolved S a \<subseteq> pv_bucket_pages S w)"

lemma sleep_into_uploads:
  assumes law: "sleep_law B V S" and fin: "finite (ancestry B S head)" and order: "\<And>ps. set (order ps) = set ps"
    and inv: "sv_inv V w" and src: "sv_live V w src" and dst: "sv_live V w dst"
  shows "\<exists>r w'. sleep_into B order src dst head w = Some (r, w') \<and>
    (\<forall>token. r = Inr token \<longrightarrow> wt_manifest token = head \<and> uploaded B S head w')"
proof -
  obtain q w1 where walk: "sleep_walk B src dst [head] [] [] w = Some (q, w1)" and k1: "keeps V S w w1"
    and wk: "\<And>seen ids. q = Inr (seen, ids) \<Longrightarrow> walked B S dst [head] [] [] w1 seen ids"
    using sleep_walk_runs [OF law fin ancestry_next inv src dst, of "[head]" "[]" "[]"] by auto
  show ?thesis
  proof (cases q)
    case (Inl e)
    with walk show ?thesis by (simp add: sleep_into_def)
  next
    case (Inr si)
    obtain seen ids where si: "si = (seen, ids)" by (cases si)
    have "walked B S dst [head] [] [] w1 seen ids" using wk Inr si by simp
    then have closed: "head \<in> set seen" "\<And>a. a \<in> set seen \<Longrightarrow> next_manifests B S a \<subseteq> set seen"
      and man: "\<forall>a \<in> set seen. pv_manifest S a \<in> pv_staged S w1 dst"
      and pages: "\<forall>a \<in> set seen. pv_resolved S a \<subseteq> set ids"
      by (simp_all add: walked_def)
    have "ancestry B S head \<subseteq> set seen" by (rule ancestry_least [OF closed])
    obtain c w2 where cp: "copy_pages B src dst (order ids) w1 = (c, w2)" by fastforce
    have i1: "sv_inv V w1" "sv_live V w1 src" "sv_live V w1 dst" using keepsD [OF k1] src dst by blast+
    note k2 = copy_pages_pending [OF law cp i1]
    have i2: "sv_inv V w2" "sv_live V w2 dst" using keepsD [OF conjunct1 [OF k2] i1(3)] by blast+
    obtain h w3 where hd: "pg_set_head_to B dst head w2 = (h, w3)" by fastforce
    note k3 = upload_lawD(6) [OF sleep_lawD(2) [OF law i2] hd]
    have i3: "sv_inv V w3" "sv_live V w3 dst" using keepsD [OF conjunct1 [OF k3] i2(2)] by blast+
    obtain z w4 where sl: "tr_sleep B dst w3 = (z, w4)" by fastforce
    note into = walk Inr si cp hd sl
    show ?thesis
    proof (cases "isl c \<or> isl h \<or> isl z")
      case True
      with into show ?thesis by (cases c; cases h; cases z) (auto simp: sleep_into_def map_err_def)
    next
      case False
      then obtain k where r: "c = Inr ()" "h = Inr ()" "z = Inr k" by (cases c; cases h; cases z) auto
      have "sleep_into B order src dst head w = Some (Inr k, w4)" using into r by (simp add: sleep_into_def)
      moreover have up: "wt_manifest k = head \<and> pv_pending S w3 dst \<subseteq> pv_bucket_pages S w4 \<and>
          pv_staged S w3 dst \<subseteq> pv_bucket_manifests S w4"
        using upload_lawD(7) [OF sleep_lawD(2) [OF law i3] sl [unfolded r(3)]] k3 r(2) by simp
      moreover have "set ids \<subseteq> pv_pending S w3 dst"
        using k2 r(1) order keepsD [OF conjunct1 [OF k3] i2(2)] by auto
      moreover have "\<forall>a \<in> set seen. pv_manifest S a \<in> pv_staged S w3 dst"
        using man keepsD [OF conjunct1 [OF k2] i1(3)] keepsD [OF conjunct1 [OF k3] i2(2)] by blast
      ultimately show ?thesis
        using \<open>ancestry B S head \<subseteq> set seen\<close> pages by (fastforce simp: uploaded_def)
    qed
  qed
qed

text \<open>The whole sleep.\<close>

lemma db_sleep_runs:
  assumes "substrate_law B V" "sleep_law B V S" "\<And>m. finite (ancestry B S m)" "\<And>ps. set (order ps) = set ps"
    and "db_ok B V db w"
  shows "\<exists>out w' f'. db_sleep D B order db remote w f = Some (out, w', f') \<and>
    (\<forall>token. out = Ok token \<longrightarrow>
       (\<exists>db1 w1 f1. db_snapshot D B db w f = (Ok (wt_manifest token), db1, w1, f1)) \<and>
       uploaded B S (wt_manifest token) w')"
proof -
  obtain s db1 w1 f1 where sn: "db_snapshot D B db w f = (s, db1, w1, f1)" by (cases "db_snapshot D B db w f") auto
  note mv = db_snapshot_moves [OF assms(1,5) sn]
  have inv1: "sv_inv V w1" and src1: "sv_live V w1 (store_pager (db_store db1))"
    using mv by (simp_all add: db_ok_def db_handle_def)
  have st: "db_store db1 = db_store db" using mv by auto
  show ?thesis
  proof (cases s)
    case (Ok head)
    obtain t f3 where dir: "duck_temp_dir D (kernel_drop (db_kernel db1) f1) = (t, f3)" by fastforce
    show ?thesis
    proof (cases t)
      case (Inl e)
      with sn Ok dir show ?thesis by (simp add: db_sleep_def Let_def)
    next
      case (Inr staging)
      let ?config = "\<lparr>sc_page_size = pg_page_size B (store_pager (db_store db)) w1, sc_pool = rt_pool remote\<rparr>"
      obtain o1 w2 where op: "tr_open B staging remote ?config w1 = (o1, w2)" by fastforce
      note k2 = sleep_lawD(1) [OF assms(2) inv1 op]
      show ?thesis
      proof (cases o1)
        case (Inl e)
        with sn Ok dir Inr op show ?thesis by (simp add: db_sleep_def Let_def)
      next
        case tiered: (Inr tiered)
        have i2: "sv_inv V w2" "sv_live V w2 (store_pager (db_store db1))" "sv_live V w2 tiered"
          using k2 tiered keepsD [OF conjunct1 [OF k2] src1] by simp_all
        from sleep_into_uploads [where head = head and order = order, OF assms(2,3,4) i2, unfolded st] obtain r w3 where
          into: "sleep_into B order (store_pager (db_store db)) tiered head w2 = Some (r, w3)"
            "\<forall>token. r = Inr token \<longrightarrow> wt_manifest token = head \<and> uploaded B S head w3"
          by blast
        have "db_sleep D B order db remote w f = Some (outcome_of r, w3, drop_scratch staging f3)"
          using sn Ok dir Inr op tiered into(1) st by (simp add: db_sleep_def Let_def)
        with into(2) sn Ok show ?thesis by (cases r) auto
      qed
    qed
  qed (use sn in \<open>simp_all add: db_sleep_def\<close>)
qed

text \<open>C12: sleeping leaves nothing behind. Over any history substrate can hold, a sleep returns; and a
  token it returns names the head that was snapshot, with the manifest of everything reachable from
  it, through overlay bases and parents, in the bucket, and every page any of them can see.\<close>

theorem sleep_uploads_ancestry:
  assumes "substrate_law B V" "sleep_law B V S" "\<And>m. finite (ancestry B S m)" "\<And>ps. set (order ps) = set ps"
    and "db_ok B V db w"
  shows "\<exists>out w' f'. db_sleep D B order db remote w f = Some (out, w', f') \<and>
    (\<forall>token. out = Ok token \<longrightarrow>
       (\<exists>db1 w1 f1. db_snapshot D B db w f = (Ok (wt_manifest token), db1, w1, f1)) \<and>
       uploaded B S (wt_manifest token) w')"
  by (rule db_sleep_runs [OF assms])

subsection \<open>An instance\<close>

definition demo_sleep :: "(demo_world, demo_handle, manifest_id) sleep_view" where
  "demo_sleep = \<lparr>pv_manifest = id,
     pv_resolved = (\<lambda>m. case fst (pst_resolve demo_pst m m) of Inr l \<Rightarrow> snd ` set l | Inl _ \<Rightarrow> {}),
     pv_content = (\<lambda>p. case p of PageId b \<Rightarrow> b),
     pv_pending = (\<lambda>w h. set (dw_pages w)), pv_staged = (\<lambda>w h. set (dw_manifests w)),
     pv_bucket_pages = (\<lambda>w. set (dw_pages w)), pv_bucket_manifests = (\<lambda>w. set (dw_manifests w))\<rparr>"

lemma demo_sleep_simps [simp]:
  "pv_manifest demo_sleep = id" "pv_pending demo_sleep w h = set (dw_pages w)"
  "pv_staged demo_sleep w h = set (dw_manifests w)" "pv_bucket_pages demo_sleep w = set (dw_pages w)"
  "pv_bucket_manifests demo_sleep w = set (dw_manifests w)"
  "pv_content demo_sleep (PageId b) = b"
  by (simp_all add: demo_sleep_def)

lemma demo_upload_simps [simp]:
  "cas_get demo_subst h i w = (Inr (case i of PageId b \<Rightarrow> b), w)"
  "cas_put demo_subst h b w = (Inr (PageId b), w\<lparr>dw_pages := PageId b # dw_pages w\<rparr>)"
  "ms_put demo_subst h m w = (Inr (), w\<lparr>dw_manifests := m # dw_manifests w\<rparr>)"
  "tr_open demo_subst d tier c w = map_prod Inr id (demo_open_at None w)"
  "tr_sleep demo_subst h w = (Inr \<lparr>wt_pool = [], wt_manifest = demo_head h w, wt_page_size = 4\<rparr>, w)"
  "mf_parent demo_subst m = (if m = ManifestId [1] then Some (ManifestId []) else None)"
  "mf_overlay_base demo_subst m = None"
  by (simp_all add: demo_subst_def)

lemma demo_keeps:
  "(\<And>g. demo_live w g \<Longrightarrow> demo_live w' g) \<Longrightarrow> set (dw_pages w) \<subseteq> set (dw_pages w') \<Longrightarrow>
     set (dw_manifests w) \<subseteq> set (dw_manifests w') \<Longrightarrow> keeps demo_obs demo_sleep w w'"
  by (simp add: keeps_def)

lemma demo_live_put [simp]:
  "demo_live (w\<lparr>dw_pages := ps\<rparr>) g = demo_live w g" "demo_live (w\<lparr>dw_manifests := ms\<rparr>) g = demo_live w g"
  by (simp_all add: demo_live_def)

lemma demo_uploads:
  assumes live: "demo_live w h"
  shows "upload_law demo_subst demo_obs demo_sleep w h"
proof -
  have page: "p = PageId (pv_content demo_sleep p)" for p by (cases p) simp
  have same: "keeps demo_obs demo_sleep w w" by (rule demo_keeps) simp_all
  have put: "keeps demo_obs demo_sleep w (w\<lparr>dw_pages := p # dw_pages w\<rparr>)"
    "keeps demo_obs demo_sleep w (w\<lparr>dw_manifests := m # dw_manifests w\<rparr>)" for p m
    by (auto intro!: demo_keeps)
  have set: "keeps demo_obs demo_sleep w (demo_set h m w)" for m
    by (rule demo_keeps) (simp_all add: demo_live_set [OF live], simp_all add: demo_set_def)
  show ?thesis
    unfolding upload_law_def
    by (intro conjI allI impI)
      (use same put set page demo_head_set [OF live, of h] in
        \<open>auto simp: demo_sleep_def [THEN arg_cong [of _ _ pv_resolved]] demo_sleep_def [THEN arg_cong [of _ _ pv_content]]\<close>)
qed

lemma demo_sleep_law: "sleep_law demo_subst demo_obs demo_sleep"
proof -
  have "keeps demo_obs demo_sleep w w' \<and> demo_live w' h" if "demo_open_at None w = (h, w')" for w w' h
    using that by (auto simp: demo_open_at_def demo_live_def nth_append intro!: demo_keeps)
  then show ?thesis
    by (simp add: sleep_law_def demo_uploads) (metis (no_types, lifting) id_apply map_prod_simp prod.collapse prod.inject sum.inject(2))
qed

lemma demo_ancestry: "ancestry demo_subst demo_sleep m \<subseteq> {m, ManifestId []}"
  by (rule ancestry_least) (auto simp: next_manifests_def split: if_splits)

definition demo_remote :: "unit remote_tier" where
  "demo_remote = \<lparr>rt_backend = (), rt_pool = ''acme''\<rparr>"

lemma demo_sleeps:
  "\<exists>w' f'. db_sleep demo_duck demo_subst rev demo_db remote demo_w demo_pool =
     Some (Ok \<lparr>wt_pool = [], wt_manifest = ManifestId [1], wt_page_size = 4\<rparr>, w', f')"
proof -
  let ?src = "(0, Some [''pool'', ''dbs'', ''a'']) :: demo_handle" and ?dst = "(1, None) :: demo_handle"
  have src: "store_pager (db_store demo_db) = ?src" by (simp add: demo_db_def)
  define w1 where "w1 = demo_w\<lparr>dw_open := dw_open demo_w @ [(None, ManifestId [])]\<rparr>"
  define w2 where "w2 = w1\<lparr>dw_manifests := [ManifestId [], ManifestId [1]]\<rparr>"
  have op: "tr_open demo_subst d tier c demo_w = (Inr ?dst, w1)" for d and tier :: "unit remote_tier" and c
    by (simp add: demo_open_at_def demo_w_def w1_def)
  have res: "fst (pst_resolve demo_pst (ManifestId [1]) (ManifestId [1])) = Inr [(0, PageId [0]), (1, PageId [1])]"
    "fst (pst_resolve demo_pst (ManifestId []) (ManifestId [])) = Inr []"
    by (simp_all add: demo_pst_def demo_view_def)
  have walk: "sleep_walk demo_subst ?src ?dst [ManifestId [1]] [] [] w1 =
      Some (Inr ([ManifestId [], ManifestId [1]], [PageId [1], PageId [0]]), w2)"
    using res by (simp add: sleep_walk.simps pushed_def w2_def) (simp add: w1_def demo_w_def)
  have copy: "copy_pages demo_subst ?src ?dst (rev [PageId [1], PageId [0]]) w2 = (Inr (), w2\<lparr>dw_pages := [PageId [1], PageId [0]]\<rparr>)"
    by (simp add: w2_def w1_def demo_w_def)
  have into: "sleep_into demo_subst rev ?src ?dst (ManifestId [1]) w1 = Some (Inr \<lparr>wt_pool = [], wt_manifest = ManifestId [1], wt_page_size = 4\<rparr>,
      demo_set ?dst (ManifestId [1]) (w2\<lparr>dw_pages := [PageId [1], PageId [0]]\<rparr>))"
  proof -
    have "demo_head ?dst (demo_set ?dst (ManifestId [1]) (w2\<lparr>dw_pages := [PageId [1], PageId [0]]\<rparr>)) = ManifestId [1]"
      by (simp add: demo_head_def demo_set_def w2_def w1_def demo_w_def)
    then show ?thesis
      by (simp only: sleep_into_def walk copy option.case sum.case prod.case demo_subst_simps demo_upload_simps)
        (simp add: map_err_def)
  qed
  have temp: "duck_temp_dir demo_duck f = (Inr [''tmp''], fs_put f [''tmp''] DirNode)" for f by (simp add: demo_duck_def)
  show ?thesis
    by (simp only: db_sleep_def demo_snapshot src op temp into Let_def prod.case outcome.case sum.case option.case
        outcome_of.simps) blast
qed

lemma sleep_uploads_ancestry_witness:
  "\<exists>token w' f'. db_sleep demo_duck demo_subst rev demo_db demo_remote demo_w demo_pool = Some (Ok token, w', f') \<and>
     wt_manifest token = ManifestId [1] \<and> ManifestId [] \<in> set (dw_manifests w') \<and> PageId [0] \<in> set (dw_pages w')"
proof -
  have fin: "finite (ancestry demo_subst demo_sleep m)" for m
    by (rule finite_subset [OF demo_ancestry]) simp
  have anc: "ManifestId [] \<in> ancestry demo_subst demo_sleep (ManifestId [1])"
    using ancestry_next [OF ancestry_head, of demo_subst demo_sleep "ManifestId [1]"] by (simp add: next_manifests_def)
  have "fst (pst_resolve demo_pst (ManifestId [1]) (ManifestId [1])) = Inr [(0, PageId [0]), (1, PageId [1])]"
    by (simp add: demo_pst_def demo_view_def)
  then have page: "PageId [0] \<in> pv_resolved demo_sleep (ManifestId [1])" by (simp add: demo_sleep_def)
  obtain w' f' where run: "db_sleep demo_duck demo_subst rev demo_db demo_remote demo_w demo_pool =
     Some (Ok \<lparr>wt_pool = [], wt_manifest = ManifestId [1], wt_page_size = 4\<rparr>, w', f')" using demo_sleeps by blast
  from sleep_uploads_ancestry [OF demo_law demo_sleep_law fin set_rev demo_db_ok, of demo_duck demo_remote demo_pool] run
  have "uploaded demo_subst demo_sleep (ManifestId [1]) w'" by auto
  with anc page ancestry_head [of "ManifestId [1]" demo_subst demo_sleep] run show ?thesis
    by (fastforce simp: uploaded_def)
qed

end
