(* ===== verification/Tier_Read.thy ===== *)
theory Tier_Read
  imports Core_Sleep
begin

section \<open>Reading a sleeping database\<close>

text \<open>
  What the two halves of the product promise each other: \<open>Db::sleep\<close> (\<open>Core_Sleep\<close>) puts the pages of a
  file in the tier, the C interface (\<open>Vfs_Ffi\<close>) wakes a store over the tier and reads the file through
  it. Between them is substrate's \<open>TieredStore::wake\<close>, with its documented behaviour as a law
  (\<open>wakes_from\<close>): a store woken for a token has the token's head and page size, and a read returns the
  manifest's page, without fail when the manifest is whole in the tier.
\<close>

definition wakes_from :: "('x, 'o, 'rt) vfs_env \<Rightarrow> 'x tiered_ops \<Rightarrow> ('w, 'h, 't) substrate_view \<Rightarrow>
    'o remote_tier \<Rightarrow> (manifest_id \<Rightarrow> bool) \<Rightarrow> bool" where
  "wakes_from E P V tier whole \<longleftrightarrow>
     (\<forall>rt cache k x. ve_wake E rt cache tier k = Inr x \<longrightarrow> (\<exists>I. I x \<and> (\<forall>y. I y \<longrightarrow>
        to_page_size P y = wt_page_size k \<and> to_head P y = wt_manifest k \<and>
        (\<forall>p r y'. to_read P y (wt_manifest k) p = (r, y') \<longrightarrow> I y' \<and>
           (\<forall>b. r = Inr b \<longrightarrow> sv_pages V (wt_manifest k) p = Some b)) \<and>
        (whole (wt_manifest k) \<longrightarrow> (\<forall>p. sv_pages V (wt_manifest k) p \<noteq> None \<longrightarrow>
           \<not> isl (fst (to_read P y (wt_manifest k) p)))))))"

lemma layout_page: "0 < ps \<Longrightarrow> layout ps f p = Some b \<Longrightarrow> b = page_of ps f (unat p)"
  by (auto simp: layout_def chunks_page_of split: if_splits)

lemma layout_present: "0 < ps \<Longrightarrow> unat p * ps < length f \<Longrightarrow> layout ps f p \<noteq> None"
  by (simp add: layout_def chunks_nth_offset_lt)

text \<open>So a woken store serves a file whose layout is the manifest's pages.\<close>

lemma woken_pager:
  assumes law: "wakes_from E P V tier whole" and wake: "ve_wake E rt cache tier k = Inr x"
    and ps: "0 < wt_page_size k" and pages: "sv_pages V (wt_manifest k) = layout (unat (wt_page_size k)) f"
    and whole: "whole (wt_manifest k)"
  shows "\<exists>I. I x \<and> pager_serves P I f \<and> pager_available P I f"
proof -
  let ?ps = "unat (wt_page_size k)"
  have pos: "0 < ?ps" using ps by (simp add: word_less_nat_alt)
  obtain I where I: "I x" and law': "\<And>y. I y \<Longrightarrow> to_page_size P y = wt_page_size k \<and> to_head P y = wt_manifest k \<and>
      (\<forall>p r y'. to_read P y (wt_manifest k) p = (r, y') \<longrightarrow> I y' \<and>
         (\<forall>b. r = Inr b \<longrightarrow> sv_pages V (wt_manifest k) p = Some b)) \<and>
      (whole (wt_manifest k) \<longrightarrow> (\<forall>p. sv_pages V (wt_manifest k) p \<noteq> None \<longrightarrow>
         \<not> isl (fst (to_read P y (wt_manifest k) p))))"
    using law [unfolded wakes_from_def, THEN spec, THEN spec, THEN spec, THEN spec, THEN mp, OF wake] by blast
  have at: "to_page_size P y = wt_page_size k \<and> to_head P y = wt_manifest k"
    and read: "to_read P y (wt_manifest k) p = (r, y') \<Longrightarrow>
      I y' \<and> (\<forall>b. r = Inr b \<longrightarrow> sv_pages V (wt_manifest k) p = Some b)"
    and some: "sv_pages V (wt_manifest k) p \<noteq> None \<Longrightarrow> \<not> isl (fst (to_read P y (wt_manifest k) p))"
    if "I y" for y p r y'
    using law' [OF that] whole by simp_all
  have "pager_serves P I f"
    unfolding pager_serves_def
  proof (intro allI impI conjI)
    fix y p r y' assume y: "I y"
    show "0 < to_page_size P y" using at [OF y] ps by simp
    assume run: "to_read P y (to_head P y) p = (r, y')"
    then have run: "to_read P y (wt_manifest k) p = (r, y')" using at [OF y] by simp
    note step = read [OF y run]
    then show "I y'" by simp
    then show "to_page_size P y' = to_page_size P y" using at y by simp
    fix b assume "r = Inr b"
    then show "b = page_of (unat (to_page_size P y)) f (unat p)"
      using step pages at [OF y] layout_page [OF pos] by simp
  qed
  moreover have "pager_available P I f"
    unfolding pager_available_def
  proof (intro allI impI)
    fix y and p :: u64 assume y: "I y" and "unat p * unat (to_page_size P y) < length f"
    then have "sv_pages V (wt_manifest k) p \<noteq> None" using pages at [OF y] layout_present [OF pos] by simp
    from some [OF y this] at [OF y] show "\<exists>b y'. to_read P y (to_head P y) p = (Inr b, y')"
      by (cases "fst (to_read P y (wt_manifest k) p)"; cases "to_read P y (wt_manifest k) p") auto
  qed
  ultimately show ?thesis using I by blast
qed

text \<open>Opening a database from C by its token, and reading it: \<open>pread\<close> of the file.\<close>

definition reads_as :: "'x tiered_ops \<Rightarrow> (u64 list \<Rightarrow> u64 list) \<Rightarrow> nat \<Rightarrow> ('x, 'rt) ffi \<Rightarrow> bytes \<Rightarrow> bool" where
  "reads_as P order h S f \<longleftrightarrow> (\<forall>offset mem len.
     - (2 ^ 63) \<le> offset \<longrightarrow> offset < 2 ^ 63 \<longrightarrow> len \<le> length mem \<longrightarrow> length mem \<le> isize_max \<longrightarrow>
     (\<exists>S'. flock_vfs_pread P order h offset (Some mem) len S =
        (if offset < 0 then Returned (- 1, Some mem, S')
         else Returned (int (clamp (length f) (nat offset) len),
           Some (take (clamp (length f) (nat offset) len) (drop (nat offset) f) @
             drop (clamp (length f) (nat offset) len) mem), S'))))"

lemma token_opens_file:
  fixes k :: wake_token
  assumes reach: "ffi_reach E P order S"
    and op: "flock_vfs_open E r c p m (wt_page_size k) (word_of_nat (length f)) S = (h, S1)" "h \<noteq> 0"
    and tier: "remote_tier E (text_of (the r)) (text_of (the p)) = Inr tier"
    and tok: "text_of (the p) = wt_pool k" "ve_from_hex E (text_of (the m)) = Inr (wt_manifest k)"
    and law: "wakes_from E P V tier whole" "whole (wt_manifest k)"
    and pages: "sv_pages V (wt_manifest k) = layout (unat (wt_page_size k)) f" and len: "length f \<le> isize_max"
  shows "reads_as P order h S1 f"
proof -
  note v = ffi_open_validates [OF op(1) reach]
  obtain rt x where w: "ve_wake E rt (text_of (the c)) tier
      \<lparr>wt_pool = text_of (the p), wt_manifest = wt_manifest k, wt_page_size = wt_page_size k\<rparr> = Inr x"
    and heap: "ffi_heap S1 h = Some \<lparr>fv_source = new_tiered x (word_of_nat (length f)), fv_rt = rt\<rparr>"
    using v op(2) tier tok(2) by auto
  have ps: "0 < wt_page_size k" using v op(2) by (auto simp: word_neq_0_conv)
  have k: "\<lparr>wt_pool = text_of (the p), wt_manifest = wt_manifest k, wt_page_size = wt_page_size k\<rparr> = k"
    by (simp add: tok(1))
  obtain I where I: "I x" "pager_serves P I f" "pager_available P I f"
    using woken_pager [OF law(1) w [unfolded k] ps pages law(2)] by blast
  have n: "unat (word_of_nat (length f) :: u64) = length f" using len by (intro unat_of_nat_u64) (simp add: isize_max_def)
  show ?thesis
    unfolding reads_as_def
  proof (intro allI impI)
    fix offset :: int and mem :: bytes and l
    assume o: "- (2 ^ 63) \<le> offset" "offset < 2 ^ 63" "l \<le> length mem" "length mem \<le> isize_max"
    have "I (ts_store (fv_source \<lparr>fv_source = new_tiered x (word_of_nat (length f)), fv_rt = rt\<rparr>))"
      using I(1) by (simp add: new_tiered_def)
    from ffi_pread_exact [OF I(2,3) this op(2) heap _ o, of order] n
    show "\<exists>S'. flock_vfs_pread P order h offset (Some mem) l S1 =
        (if offset < 0 then Returned (- 1, Some mem, S')
         else Returned (int (clamp (length f) (nat offset) l),
           Some (take (clamp (length f) (nat offset) l) (drop (nat offset) f) @
             drop (clamp (length f) (nat offset) l) mem), S'))"
      by (fastforce simp: new_tiered_def)
  qed
qed

text \<open>What a token carries: the page size and pool its store was opened with.\<close>

definition tokens_carry :: "('w, 'h, 't, 'm, 'o) subst \<Rightarrow> store_config \<Rightarrow> bool" where
  "tokens_carry B config \<longleftrightarrow> (\<forall>d tier w h w1. tr_open B d tier config w = (Inr h, w1) \<longrightarrow>
     (\<forall>w2 k w3. tr_sleep B h w2 = (Inr k, w3) \<longrightarrow>
        wt_page_size k = word_of_nat (sc_page_size config) \<and> wt_pool k = sc_pool config))"

lemma db_sleep_token:
  assumes "db_sleep D B order db remote w f = Some (Ok k, w', f')"
    and "db_snapshot D B db w f = (Ok m, db1, w1, f1)"
    and "tokens_carry B \<lparr>sc_page_size = pg_page_size B (store_pager (db_store db)) w1, sc_pool = rt_pool remote\<rparr>"
  shows "wt_page_size k = word_of_nat (pg_page_size B (store_pager (db_store db)) w1) \<and> wt_pool k = rt_pool remote"
proof -
  obtain staging f3 tiered w2 where op: "tr_open B staging remote
        \<lparr>sc_page_size = pg_page_size B (store_pager (db_store db)) w1, sc_pool = rt_pool remote\<rparr> w1 = (Inr tiered, w2)"
    and into: "sleep_into B order (store_pager (db_store db)) tiered m w2 = Some (Inr k, w')"
    using assms(1,2)
    by (auto simp: db_sleep_def Let_def split: prod.splits sum.splits option.splits elim!: outcome_of.elims)
  from into obtain w3 where "tr_sleep B tiered w3 = (Inr k, w')"
    by (auto simp: sleep_into_def map_err_def split: prod.splits sum.splits option.splits)
  with assms(3) op show ?thesis unfolding tokens_carry_def by fastforce
qed

text \<open>C2: a slept database is read from C as the file DuckDB left. When \<open>sleep\<close> returns a token, a client
  that opens the database by that token, over the tier it slept in, with the length of the file as
  DuckDB's \<open>CHECKPOINT\<close> left it, and is given a handle, reads that file: every offset and length gives
  the clamped count and exactly those bytes of the file, the rest of the buffer untouched.\<close>

theorem slept_database_served:
  assumes "substrate_law B V" "sleep_law B V W" "\<And>m. finite (ancestry B W m)" "\<And>ps. set (order ps) = set ps"
    and "db_ok B V db w" "db_synced B V db w"
    and "tokens_carry B \<lparr>sc_page_size = pg_page_size B (db_handle db) w, sc_pool = rt_pool remote\<rparr>"
    and "pg_page_size B (db_handle db) w < 2 ^ 64"
    and "db_sleep D B order db remote w f = Some (Ok k, w', f')"
    and "duck_batch D (k_conn (db_kernel db)) ''CHECKPOINT'' f = (Inr (), c, f1)"
    and "fs_lookup f1 (k_path (db_kernel db)) = Some (FileNode bs)" "length bs \<le> isize_max"
    and "wakes_from E P V remote (\<lambda>m. uploaded B W m w')"
    and "ffi_reach E P faults S" "remote_tier E (text_of (the r)) (text_of (the p)) = Inr remote"
    and "text_of (the p) = wt_pool k" "ve_from_hex E (text_of (the hex)) = Inr (wt_manifest k)"
    and "flock_vfs_open E r cache p hex (wt_page_size k) (word_of_nat (length bs)) S = (h, S1)" "h \<noteq> 0"
  shows "reads_as P faults h S1 bs"
proof -
  obtain db1 w1 f2 where sn: "db_snapshot D B db w f = (Ok (wt_manifest k), db1, w1, f2)"
    and up: "uploaded B W (wt_manifest k) w'"
    using db_sleep_runs [OF assms(1-5), of D remote f] assms(9) by auto
  have "pg_page_size B (db_handle db) w1 = pg_page_size B (db_handle db) w"
    using db_snapshot_moves [OF assms(1,5) sn] assms(5) by (auto simp: only_moves_def db_ok_def)
  then have "wt_page_size k = word_of_nat (pg_page_size B (db_handle db) w)"
    using db_sleep_token [OF assms(9) sn] assms(7) by (simp add: db_handle_def)
  then have "unat (wt_page_size k) = pg_page_size B (db_handle db) w" using assms(8) by (simp add: unat_of_nat_u64)
  with db_snapshot_Ok [OF assms(1,5,6) sn] assms(10,11,12)
  have "sv_pages V (wt_manifest k) = layout (unat (wt_page_size k)) bs" by auto
  from token_opens_file [OF assms(14,18,19,15-17,13) up this assms(12)] show ?thesis .
qed

subsection \<open>An instance\<close>

text \<open>A process that wakes what the small world put in the tier: a store is its token.\<close>

definition demo_tier :: "unit remote_tier" where
  "demo_tier = \<lparr>rt_backend = (), rt_pool = []\<rparr>"

definition demo_waker :: "(wake_token, unit, unit) vfs_env" where
  "demo_waker = \<lparr>ve_s3 = False, ve_var = (\<lambda>_. None), ve_local = (\<lambda>_. Inr ()), ve_aws = (\<lambda>_. Inl ''no network''),
     ve_from_hex = (\<lambda>s. if s = ''01'' then Inr (ManifestId [1]) else Inl ''not hex''), ve_runtime = Inr (),
     ve_wake = (\<lambda>_ _ _ k. Inr k)\<rparr>"

definition demo_woken_pager :: "wake_token tiered_ops" where
  "demo_woken_pager = \<lparr>to_page_size = wt_page_size, to_head = wt_manifest,
     to_read = (\<lambda>k m p. (case demo_view m p of None \<Rightarrow> Inl ''no such page'' | Some b \<Rightarrow> Inr b, k)),
     to_misses = (\<lambda>_. 0), to_hits = (\<lambda>_. 0)\<rparr>"

lemma demo_wakes_from: "wakes_from demo_waker demo_woken_pager demo_obs tier whole"
  unfolding wakes_from_def
proof (intro allI impI)
  fix rt cache k x assume "ve_wake demo_waker rt cache tier k = Inr x"
  then have "x = k" by (simp add: demo_waker_def)
  then show "\<exists>I. I x \<and> (\<forall>y. I y \<longrightarrow>
      to_page_size demo_woken_pager y = wt_page_size k \<and> to_head demo_woken_pager y = wt_manifest k \<and>
      (\<forall>p r y'. to_read demo_woken_pager y (wt_manifest k) p = (r, y') \<longrightarrow> I y' \<and>
         (\<forall>b. r = Inr b \<longrightarrow> sv_pages demo_obs (wt_manifest k) p = Some b)) \<and>
      (whole (wt_manifest k) \<longrightarrow> (\<forall>p. sv_pages demo_obs (wt_manifest k) p \<noteq> None \<longrightarrow>
         \<not> isl (fst (to_read demo_woken_pager y (wt_manifest k) p)))))"
    by (intro exI [of _ "\<lambda>y. y = k"]) (auto simp: demo_woken_pager_def split: option.splits)
qed

lemma demo_opens_tier:
  "remote_tier demo_waker ''r'' [] = Inr demo_tier"
  "\<exists>S. flock_vfs_open demo_waker (Some [0x72]) (Some [0x63]) (Some []) (Some [0x30, 0x31]) 4 5 (ffi_init demo_disk) =
    (1, S)"
  by (simp_all add: remote_tier_def local_tier_def demo_waker_def demo_tier_def flock_vfs_open_def open_inner_def cstr_def
      in_range_def text_of_def components_def fs_create_dir_all_def fs_call_def fs_call_in_parts_def demo_disk_def ffi_init_def
      fs_lookup_def Let_def char_of_def bit_Suc_0_iff)

lemma slept_database_served_witness:
  "\<exists>k w' f' S1 S2. db_sleep demo_duck demo_subst rev demo_db demo_tier demo_w demo_pool = Some (Ok k, w', f') \<and>
     flock_vfs_open demo_waker (Some [0x72]) (Some [0x63]) (Some []) (Some [0x30, 0x31]) (wt_page_size k) 5
       (ffi_init demo_disk) = (1, S1) \<and>
     flock_vfs_pread demo_woken_pager id 1 3 (Some [0, 0, 0]) 3 S1 = Returned (2, Some [4, 5, 0], S2)"
proof -
  let ?k = "\<lparr>wt_pool = [], wt_manifest = ManifestId [1], wt_page_size = 4\<rparr> :: wake_token"
  obtain w' f' where run: "db_sleep demo_duck demo_subst rev demo_db demo_tier demo_w demo_pool = Some (Ok ?k, w', f')"
    using demo_sleeps by blast
  obtain S1 where op: "flock_vfs_open demo_waker (Some [0x72]) (Some [0x63]) (Some []) (Some [0x30, 0x31]) 4 5
      (ffi_init demo_disk) = (1, S1)" using demo_opens_tier(2) by blast
  have fin: "finite (ancestry demo_subst demo_sleep m)" for m by (rule finite_subset [OF demo_ancestry]) simp
  have carry: "tokens_carry demo_subst \<lparr>sc_page_size = pg_page_size demo_subst (db_handle demo_db) demo_w,
      sc_pool = rt_pool demo_tier\<rparr>" by (simp add: tokens_carry_def demo_tier_def)
  have ck: "duck_batch demo_duck (k_conn (db_kernel demo_db)) ''CHECKPOINT'' demo_pool = (Inr (), (), demo_pool)"
    by (simp add: demo_duck_def)
  have disk: "fs_lookup demo_pool (k_path (db_kernel demo_db)) = Some (FileNode [1, 2, 3, 4, 5])"
    by (simp add: demo_pool_def demo_db_def fs_lookup_def)
  have txts: "text_of [0x72] = ''r''" "text_of [] = []" "text_of [0x30, 0x31] = ''01''"
    by (simp_all add: text_of_def char_of_def bit_Suc_0_iff)
  have hex: "ve_from_hex demo_waker ''01'' = Inr (ManifestId [1])" by (simp add: demo_waker_def)
  have "reads_as demo_woken_pager id 1 S1 [1, 2, 3, 4, 5]"
    by (rule slept_database_served [OF demo_law demo_sleep_law fin set_rev demo_db_ok demo_db_synced carry _ run ck disk _
        demo_wakes_from ffi_start, of "Some [0x72]" "Some []" "Some [0x30, 0x31]" "Some [0x63]" demo_disk 1 S1 id])
      (simp_all add: txts hex op demo_opens_tier(1) isize_max_def)
  from this [unfolded reads_as_def, rule_format, of 3 3 "[0, 0, 0]"] op run
  show ?thesis by (fastforce simp: isize_max_def clamp_def)
qed

end
