(* ===== verification/Spike_Seeds.thy ===== *)
theory Spike_Seeds
  imports Tier_Read
begin

section \<open>The seeds of the spikes\<close>

text \<open>
  \<open>spikes/wake-query/seed/src/main.rs\<close> and \<open>spikes/wake-latency/seed/src/main.rs\<close>: programs that write a
  DuckDB file into a tiered store page by page, put the store to sleep, and print what is needed to wake
  it. They differ in how they select the tier. Substrate, the tier and hexadecimal text are parameters;
  the runtime is there. The result is the lines printed or the error \<open>main\<close> returns.
\<close>

datatype seed_error =
    SeedUsage
  | SeedIo io_error
  | SeedBackend string
  | SeedVfs vfs_error
  | SeedStore store_error
  | SeedPager pager_error
  | SeedMoved manifest_id manifest_id

text \<open>The loop over \<open>bytes.chunks(page_size)\<close>.\<close>

fun seed_write :: "('w, 'h, 't, 'm, 'o) subst \<Rightarrow> 'h \<Rightarrow> nat \<Rightarrow> bytes list \<Rightarrow> 't \<Rightarrow> 'w \<Rightarrow> (seed_error + 't) \<times> 'w" where
  "seed_write B h i [] t w = (Inr t, w)"
| "seed_write B h i (chunk # rest) t w =
     (case pg_write B h t (word_of_nat i) chunk w of
        (Inl e, w1) \<Rightarrow> (Inl (SeedPager e), w1)
      | (Inr t1, w1) \<Rightarrow> seed_write B h (Suc i) rest t1 w1)"

definition seed_pages :: "('w, 'h, 't, 'm, 'o) subst \<Rightarrow> 'h \<Rightarrow> nat \<Rightarrow> bytes \<Rightarrow> 'w \<Rightarrow>
    (seed_error, manifest_id) outcome \<times> 'w" where
  "seed_pages B h page_size bs w =
     (case pg_begin B h w of
        (Inl e, w1) \<Rightarrow> (Err (SeedPager e), w1)
      | (Inr t, w1) \<Rightarrow>
          if page_size = 0 then (Panic, w1)
          else
            (case seed_write B h 0 (chunks page_size bs) t w1 of
               (Inl e, w2) \<Rightarrow> (Err e, w2)
             | (Inr t1, w2) \<Rightarrow>
                 (case pg_commit B h t1 w2 of
                    (Inl e, w3) \<Rightarrow> (Err (SeedPager e), w3)
                  | (Inr head, w3) \<Rightarrow> (Ok head, w3))))"

definition seed_lines :: "(manifest_id \<Rightarrow> string) \<Rightarrow> manifest_id \<Rightarrow> nat \<Rightarrow> u64 \<Rightarrow> string \<Rightarrow> string list" where
  "seed_lines to_hex m page_size total_len pool =
     [''MANIFEST='' @ to_hex m, ''PAGE_SIZE='' @ dec page_size, ''TOTAL_LEN='' @ dec (unat total_len), ''POOL='' @ pool]"

text \<open>From opening the store to printing.\<close>

definition seed_into :: "('w, 'h, 't, 'm, 'o) subst \<Rightarrow> (manifest_id \<Rightarrow> string) \<Rightarrow> string \<Rightarrow> 'o remote_tier \<Rightarrow>
    string \<Rightarrow> string \<Rightarrow> 'w \<Rightarrow> fs \<Rightarrow> (seed_error, string list) outcome \<times> 'w \<times> fs" where
  "seed_into B to_hex realfile remote cache_dir pool w f =
     (let page_size = sb_default_page_size B
      in case tr_open B (components cache_dir) remote \<lparr>sc_page_size = page_size, sc_pool = pool\<rparr> w of
           (Inl e, w1) \<Rightarrow> (Err (SeedStore e), w1, f)
         | (Inr store, w1) \<Rightarrow>
     (case fs_read f (components realfile) of
        (Inl e, f1) \<Rightarrow> (Err (SeedIo e), w1, f1)
      | (Inr bs, f1) \<Rightarrow>
     (case seed_pages B store page_size bs w1 of
        (Err e, w2) \<Rightarrow> (Err e, w2, f1)
      | (Panic, w2) \<Rightarrow> (Panic, w2, f1)
      | (Ok head, w2) \<Rightarrow>
     (case tr_sleep B store w2 of
        (Inl e, w3) \<Rightarrow> (Err (SeedStore e), w3, f1)
      | (Inr token, w3) \<Rightarrow>
          if wt_manifest token \<noteq> head then (Err (SeedMoved head (wt_manifest token)), w3, f1)
          else (Ok (seed_lines to_hex (wt_manifest token) page_size (word_of_nat (length bs)) pool), w3, f1)))))"

definition seed_dirs :: "string \<Rightarrow> string \<Rightarrow> fs \<Rightarrow> (seed_error + unit) \<times> fs" where
  "seed_dirs remote_dir cache_dir f =
     (case fs_create_dir_all f (components remote_dir) of
        (Inl e, f1) \<Rightarrow> (Inl (SeedIo e), f1)
      | (Inr _, f1) \<Rightarrow> (case fs_create_dir_all f1 (components cache_dir) of (r, f2) \<Rightarrow> (map_err SeedIo r, f2)))"

fun query_seed :: "('x, 'o, 'rt) vfs_env \<Rightarrow> ('w, 'h, 't, 'm, 'o) subst \<Rightarrow> (manifest_id \<Rightarrow> string) \<Rightarrow> string list \<Rightarrow>
    'w \<Rightarrow> fs \<Rightarrow> (seed_error, string list) outcome \<times> 'w \<times> fs" where
  "query_seed E B to_hex (realfile # remote_dir # cache_dir # pool # rest) w f =
     (case seed_dirs remote_dir cache_dir f of
        (Inl e, f1) \<Rightarrow> (Err e, w, f1)
      | (Inr _, f1) \<Rightarrow>
          (case remote_tier E remote_dir pool of
             Inl e \<Rightarrow> (Err (SeedVfs e), w, f1)
           | Inr remote \<Rightarrow> seed_into B to_hex realfile remote cache_dir pool w f1))"
| "query_seed E B to_hex args w f = (Err SeedUsage, w, f)"

fun latency_seed :: "('x, 'o, 'rt) vfs_env \<Rightarrow> ('w, 'h, 't, 'm, 'o) subst \<Rightarrow> (manifest_id \<Rightarrow> string) \<Rightarrow> string list \<Rightarrow>
    'w \<Rightarrow> fs \<Rightarrow> (seed_error, string list) outcome \<times> 'w \<times> fs" where
  "latency_seed E B to_hex (realfile # remote_dir # cache_dir # pool # rest) w f =
     (case seed_dirs remote_dir cache_dir f of
        (Inl e, f1) \<Rightarrow> (Err e, w, f1)
      | (Inr _, f1) \<Rightarrow>
          (case ve_local E remote_dir of
             Inl e \<Rightarrow> (Err (SeedBackend e), w, f1)
           | Inr backend \<Rightarrow>
               seed_into B to_hex realfile \<lparr>rt_backend = backend, rt_pool = pool\<rparr> cache_dir pool w f1))"
| "latency_seed E B to_hex args w f = (Err SeedUsage, w, f)"

subsection \<open>What a seed writes\<close>

lemma seed_write_delta:
  assumes law: "substrate_law B V"
  shows "sv_inv V w \<Longrightarrow> sv_live V w h \<Longrightarrow> i + length cs < 2 ^ 64 \<Longrightarrow> seed_write B h i cs t w = (Inr t', w') \<Longrightarrow>
    still B V w w' \<and> sv_staged V t' = chunk_delta Map.empty i cs (sv_staged V t)"
proof (induction cs arbitrary: i t w)
  case Nil
  then show ?case by (simp add: still_refl)
next
  case (Cons c cs)
  obtain r w1 where wr: "pg_write B h t (word_of_nat i) c w = (r, w1)" by fastforce
  with Cons.prems(4) obtain t1 where t1: "r = Inr t1" "seed_write B h (Suc i) cs t1 w1 = (Inr t', w')" by (cases r) auto
  note st = stages_lawD(2) [OF substrate_lawD(3) [OF law Cons.prems(1,2)] wr]
  then have s1: "still B V w w1" by blast
  then have "sv_inv V w1" "sv_live V w1 h" using Cons.prems(2) by (simp_all add: still_def)
  from Cons.IH [OF this _ t1(2)] Cons.prems(3) st t1(1) still_trans [OF s1] show ?case
    by (simp add: chunk_delta_Cons fun_upd_def)
qed

lemma apply_layout: "0 < ps \<Longrightarrow> apply_changes Map.empty (chunk_delta Map.empty 0 (chunks ps bs) Map.empty) = layout ps bs"
  by (auto simp: apply_changes_def chunk_delta_def layout_def fun_eq_iff)

lemma seed_pages_layout:
  assumes law: "substrate_law B V" and inv: "sv_inv V w" and live: "sv_live V w h"
    and fresh: "sv_pages V (pg_head B h w) = Map.empty" and len: "length bs \<le> isize_max"
    and run: "seed_pages B h ps bs w = (Ok m, w')"
  shows "sv_pages V m = layout ps bs"
proof -
  obtain r w1 where b: "pg_begin B h w = (r, w1)" by fastforce
  with run obtain t where t: "r = Inr t" and ps: "0 < ps" by (cases r) (auto simp: seed_pages_def split: if_splits)
  obtain q w2 where sw: "seed_write B h 0 (chunks ps bs) t w1 = (q, w2)" by fastforce
  with run b t ps obtain t1 where t1: "q = Inr t1" by (cases q) (auto simp: seed_pages_def)
  obtain c w3 where cm: "pg_commit B h t1 w2 = (c, w3)" by fastforce
  with run b t ps sw t1 have c: "c = Inr m" by (cases c) (auto simp: seed_pages_def)
  note s1 = stages_lawD(1) [OF substrate_lawD(3) [OF law inv live] b]
  then have i1: "sv_inv V w1" "sv_live V w1 h" using live by (simp_all add: still_def)
  have "0 + length (chunks ps bs) < 2 ^ 64" using chunk_count_lt [OF ps len] by simp
  note s2 = seed_write_delta [OF law i1 this sw [unfolded t1]]
  then have i2: "sv_inv V w2" "sv_live V w2 h" "pg_head B h w2 = pg_head B h w"
    using i1 s1 live by (simp_all add: still_def)
  have "commits_as B V h t1 w2 m w3"
    using heads_lawD(4) [OF substrate_lawD(4) [OF law i2(1,2)] cm] c by blast
  then show ?thesis
    using s2 s1 t fresh i2(3) apply_layout [OF ps] by (simp add: commits_as_def)
qed

text \<open>
  What a seed relies on: a tiered store opened over its cache directory, a new one, is empty and open,
  and a tiered store put to sleep is whole in the tier.
\<close>

definition opens_fresh :: "('w, 'h, 't, 'm, 'o) subst \<Rightarrow> ('w, 'h, 't) substrate_view \<Rightarrow> path \<Rightarrow> bool" where
  "opens_fresh B V d \<longleftrightarrow> (\<forall>tier config w h w'. sv_inv V w \<longrightarrow> tr_open B d tier config w = (Inr h, w') \<longrightarrow>
     sv_inv V w' \<and> sv_live V w' h \<and> sv_pages V (pg_head B h w') = Map.empty)"

definition sleeps_whole :: "('w, 'h, 't, 'm, 'o) subst \<Rightarrow> ('w \<Rightarrow> manifest_id \<Rightarrow> bool) \<Rightarrow> bool" where
  "sleeps_whole B whole \<longleftrightarrow> (\<forall>h w k w'. tr_sleep B h w = (Inr k, w') \<longrightarrow> whole w' (wt_manifest k))"

lemma seed_into_Ok:
  assumes law: "substrate_law B V" "opens_fresh B V (components cache_dir)" "sleeps_whole B whole" and inv: "sv_inv V w"
    and src: "fs_lookup f (components realfile) = Some (FileNode bs)" and len: "length bs \<le> isize_max"
    and run: "seed_into B to_hex realfile remote cache_dir pool w f = (Ok out, w', f')"
  shows "\<exists>m. out = seed_lines to_hex m (sb_default_page_size B) (word_of_nat (length bs)) pool \<and>
    sv_pages V m = layout (sb_default_page_size B) bs \<and> whole w' m"
proof -
  let ?ps = "sb_default_page_size B"
  obtain h w1 where op: "tr_open B (components cache_dir) remote \<lparr>sc_page_size = ?ps, sc_pool = pool\<rparr> w = (Inr h, w1)"
    using run by (auto simp: seed_into_def Let_def split: prod.splits sum.splits)
  have f: "sv_inv V w1" "sv_live V w1 h" "sv_pages V (pg_head B h w1) = Map.empty"
    using law(2) inv op unfolding opens_fresh_def by blast+
  obtain r f1 where rd: "fs_read f (components realfile) = (r, f1)" by fastforce
  with run op have r: "r = Inr bs" using fs_read_frame [OF rd] src
    by (cases r) (auto simp: seed_into_def Let_def)
  obtain m w2 where pg: "seed_pages B h ?ps bs w1 = (Ok m, w2)"
    using run op rd r by (auto simp: seed_into_def Let_def split: prod.splits outcome.splits)
  obtain k where sl: "tr_sleep B h w2 = (Inr k, w')" and k: "wt_manifest k = m"
    and out: "out = seed_lines to_hex m ?ps (word_of_nat (length bs)) pool"
    using run op rd r pg by (auto simp: seed_into_def Let_def split: prod.splits sum.splits if_splits)
  have "whole w' m" using law(3) sl k unfolding sleeps_whole_def by blast
  with seed_pages_layout [OF law(1) f len pg] out show ?thesis by blast
qed

text \<open>C5: a seeded file is read back from C byte for byte. Whatever file the seed of the wake-query spike
  was given, when it succeeds, a client that parses the lines it printed, opens the database by them over
  the same directory or bucket, and is given a handle, reads that file: every offset and length gives the
  clamped count and exactly those bytes.\<close>

theorem seeded_file_served:
  assumes "substrate_law B V" "opens_fresh B V (components cache_dir)" "sleeps_whole B whole" "sv_inv V w"
    and "sb_default_page_size B < 2 ^ 64" "\<And>m. ve_from_hex E (to_hex m) = Inr m"
    and "fs_lookup f (components realfile) = Some (FileNode bs)" "length bs \<le> isize_max"
    and "query_seed E B to_hex [realfile, text_of (the r), cache_dir, text_of (the p)] w f = (Ok out, w', f')"
    and "out = [''MANIFEST='' @ text_of (the hex), ''PAGE_SIZE='' @ ps_text, ''TOTAL_LEN='' @ len_text, ''POOL='' @ text_of (the p)]"
    and "parse_u64 ps_text = Some ps" "parse_u64 len_text = Some total_len"
    and "remote_tier E (text_of (the r)) (text_of (the p)) = Inr tier" "wakes_from E P V tier (whole w')"
    and "ffi_reach E P faults S" "flock_vfs_open E r cache p hex ps total_len S = (h, S1)" "h \<noteq> 0"
  shows "reads_as P faults h S1 bs"
proof -
  let ?ps = "sb_default_page_size B" and ?remote = "text_of (the r)" and ?pool = "text_of (the p)"
  obtain f1 where d: "seed_dirs ?remote cache_dir f = (Inr (), f1)"
    and run: "seed_into B to_hex realfile tier cache_dir ?pool w f1 = (Ok out, w', f')"
    using assms(9,13) by (auto split: prod.splits sum.splits)
  have "fs_grows f f1"
    using d create_dir_all_grows fs_grows_trans by (fastforce simp: seed_dirs_def split: prod.splits sum.splits)
  then have src: "fs_lookup f1 (components realfile) = Some (FileNode bs)" using assms(7) by (simp add: fs_grows_def)
  obtain m where out: "out = seed_lines to_hex m ?ps (word_of_nat (length bs)) ?pool"
    and m: "sv_pages V m = layout ?ps bs" "whole w' m"
    using seed_into_Ok [OF assms(1-4) src assms(8) run] by blast
  have lt: "length bs < 2 ^ 64" using assms(8) by (simp add: isize_max_def)
  have dec: "parse_u64 (dec n) = Some (word_of_nat n)" if "n < 2 ^ 64" for n
    using parse_pad_dec [OF that, of 0] by (simp add: pad_dec_def)
  have t: "text_of (the hex) = to_hex m" "ps = word_of_nat ?ps" "total_len = word_of_nat (length bs)"
    using out assms(10-12) dec [OF assms(5)] dec [OF lt] by (simp_all add: seed_lines_def unat_of_nat_u64 [OF lt])
  define k where "k = \<lparr>wt_pool = ?pool, wt_manifest = m, wt_page_size = ps\<rparr>"
  have op: "flock_vfs_open E r cache p hex (wt_page_size k) (word_of_nat (length bs)) S = (h, S1)"
    using assms(16) t(3) by (simp add: k_def)
  have pages: "sv_pages V (wt_manifest k) = layout (unat (wt_page_size k)) bs"
    using m(1) t(2) assms(5) by (simp add: k_def unat_of_nat_u64)
  show ?thesis
    by (rule token_opens_file [OF assms(15) op assms(17) assms(13) _ _ assms(14) _ pages assms(8)])
      (simp_all add: k_def t(1) assms(6) m(2))
qed

text \<open>Without an S3 bucket in the environment the two seeds are the same program.\<close>

lemma seeds_agree:
  assumes "\<not> ve_s3 E \<or> ve_var E S3_URL_ENV = None" "ve_local E remote_dir = Inr backend"
  shows "latency_seed E B to_hex (realfile # remote_dir # rest) w f = query_seed E B to_hex (realfile # remote_dir # rest) w f"
proof -
  have "remote_tier E remote_dir pool = Inr \<lparr>rt_backend = backend, rt_pool = pool\<rparr>" for pool
    using assms by (auto simp: remote_tier_def local_tier_def)
  with assms(2) show ?thesis by (cases rest; cases "tl rest") (simp_all split: prod.split sum.split)
qed

subsection \<open>An instance\<close>

text \<open>The small world with a pager that commits one file, and identities whose text is their bytes.\<close>

definition seed_subst :: "(demo_world, demo_handle, (page_no \<times> bytes option) list, manifest_id, unit) substrate" where
  "seed_subst = demo_subst\<lparr>pg_commit := (\<lambda>h t w.
     if t = [] then (Inr (demo_head h w), w)
     else if t = [(1, Some [5]), (0, Some [1, 2, 3, 4])] \<and> demo_live w h \<and> demo_head h w = ManifestId []
     then (Inr (ManifestId [1]), demo_set h (ManifestId [1]) w) else (Inl ''full'', w))\<rparr>"

definition seed_env :: "(wake_token, unit, unit) vfs_env" where
  "seed_env = demo_waker\<lparr>ve_from_hex := (\<lambda>s. Inr (ManifestId (map (\<lambda>c. word_of_nat (of_char c)) s)))\<rparr>"

fun seed_hex :: "manifest_id \<Rightarrow> string" where
  "seed_hex (ManifestId bs) = text_of bs"

lemma seed_law: "substrate_law seed_subst demo_obs"
proof -
  have same: "still seed_subst demo_obs = still demo_subst demo_obs"
    "only_moves seed_subst demo_obs = only_moves demo_subst demo_obs"
    "commits_as seed_subst demo_obs = commits_as demo_subst demo_obs"
    by (simp_all add: fun_eq_iff still_def only_moves_def commits_as_def seed_subst_def)
  have view: "demo_view (ManifestId [1]) = apply_changes (demo_view (ManifestId []))
      (map_of [(1, Some [5]), (0, Some [1, 2, 3, 4])])"
    by (auto simp: demo_view_def apply_changes_def fun_eq_iff)
  have "heads_law seed_subst demo_obs w h" if live: "demo_live w h" for w h
  proof -
    have cm: "only_moves demo_subst demo_obs h w w' \<and> (\<forall>d. demo_recorded w' d = demo_recorded w d) \<and>
        (\<forall>m. r = Inr m \<longrightarrow> commits_as demo_subst demo_obs h t w m w')"
      if "pg_commit seed_subst h t w = (r, w')" for t r w'
      using that demo_set_moves [OF live, of "ManifestId [1]"] only_moves_refl [of demo_obs w demo_subst h]
      by (auto simp: seed_subst_def commits_as_def apply_changes_def demo_head_set [OF live] view split: if_splits)
    note h = demo_heads [OF live, unfolded heads_law_def]
    show ?thesis
      unfolding heads_law_def same
      using h cm by (simp add: seed_subst_def [THEN arg_cong [of _ _ sb_recover]]
          seed_subst_def [THEN arg_cong [of _ _ sb_checkpoint]] seed_subst_def [THEN arg_cong [of _ _ sb_commit]]
          seed_subst_def [THEN arg_cong [of _ _ pg_rewind]] seed_subst_def [THEN arg_cong [of _ _ pg_set_head_to]]
          seed_subst_def [THEN arg_cong [of _ _ pg_head]])
  qed
  moreover have "opens_law seed_subst demo_obs w" for w
    using demo_opens [of w] unfolding opens_law_def same by (simp add: seed_subst_def)
  moreover have "reads_law seed_subst demo_obs w h" for w h
    using demo_reads [of w h] unfolding reads_law_def same by (simp add: seed_subst_def)
  moreover have "stages_law seed_subst demo_obs w h" for w h
    using demo_stages [of w h] unfolding stages_law_def same by (simp add: seed_subst_def)
  ultimately show ?thesis by (simp add: substrate_law_def)
qed

lemma seed_opens_fresh: "opens_fresh seed_subst demo_obs d"
  by (auto simp: opens_fresh_def seed_subst_def demo_open_at_def demo_live_def demo_head_def demo_view_def nth_append)

lemma seed_wakes_from: "wakes_from seed_env demo_woken_pager demo_obs tier whole"
  using demo_wakes_from [of tier whole] by (simp add: wakes_from_def seed_env_def)

lemma seed_hex_inverse: "ve_from_hex seed_env (seed_hex m) = Inr m"
proof (cases m)
  case (ManifestId bs)
  have "unat b mod 256 = unat b" for b :: u8 using unsigned_less [of b, where 'a = nat] by simp
  with ManifestId show ?thesis by (simp add: seed_env_def text_of_def comp_def)
qed

definition seed_disk :: fs where
  "seed_disk = \<lparr>fs_tree = [([''db''], FileNode [1, 2, 3, 4, 5]), ([''r''], DirNode), ([''c''], DirNode)],
     fs_faults = (\<lambda>_. None), fs_calls = 0,
     fs_done = (\<lambda>_. None), fs_gone = (\<lambda>_ _. False)\<rparr>"

lemma seed_opens_tier: "remote_tier seed_env ''r'' [] = Inr demo_tier"
  by (simp add: remote_tier_def local_tier_def seed_env_def demo_waker_def demo_tier_def)

lemma demo_seeds:
  "\<exists>w' f'. query_seed seed_env seed_subst seed_hex [''db'', ''r'', ''c'', []] demo_w seed_disk =
     (Ok (seed_lines seed_hex (ManifestId [1]) 4 5 []), w', f')"
proof -
  define w1 where "w1 = demo_w\<lparr>dw_open := dw_open demo_w @ [(None, ManifestId [])]\<rparr>"
  let ?h = "(1, None) :: demo_handle" and ?w2 = "demo_set (1, None) (ManifestId [1]) w1"
  have dirs: "\<exists>f1. seed_dirs ''r'' ''c'' seed_disk = (Inr (), f1) \<and> fs_tree f1 = fs_tree seed_disk \<and> fs_faults f1 = fs_faults seed_disk"
    by (simp add: seed_dirs_def fs_create_dir_all_def fs_call_def fs_call_in_parts_def seed_disk_def components_def fs_lookup_def Let_def)
  then obtain f1 where f1: "seed_dirs ''r'' ''c'' seed_disk = (Inr (), f1)" "fs_tree f1 = fs_tree seed_disk"
    "fs_faults f1 = fs_faults seed_disk" by blast
  then have rd: "fs_read f1 (components ''db'') = (Inr [1, 2, 3, 4, 5], f1\<lparr>fs_calls := Suc (fs_calls f1)\<rparr>)"
    by (simp add: fs_read_def fs_call_def fs_call_in_parts_def seed_disk_def components_def fs_lookup_def Let_def)
  have tier: "remote_tier seed_env ''r'' [] = Inr demo_tier"
    by (rule seed_opens_tier)
  have op: "tr_open seed_subst d tr c demo_w = (Inr ?h, w1)" for d tr c
    by (simp add: seed_subst_def demo_open_at_def demo_w_def w1_def)
  have live: "demo_live w1 ?h" "demo_head ?h w1 = ManifestId []" by (simp_all add: demo_live_def demo_head_def w1_def demo_w_def)
  have pages: "seed_pages seed_subst ?h 4 [1, 2, 3, 4, 5] w1 = (Ok (ManifestId [1]), ?w2)"
    using live by (simp add: seed_pages_def seed_subst_def chunks.simps)
  have "demo_head ?h ?w2 = ManifestId [1]" by (simp add: demo_head_def demo_set_def w1_def demo_w_def)
  then have sleep: "tr_sleep seed_subst ?h ?w2 = (Inr \<lparr>wt_pool = [], wt_manifest = ManifestId [1], wt_page_size = 4\<rparr>, ?w2)"
    by (simp add: seed_subst_def)
  have ps: "sb_default_page_size seed_subst = 4" by (simp add: seed_subst_def)
  have "seed_into seed_subst seed_hex ''db'' demo_tier ''c'' [] demo_w f1 =
      (Ok (seed_lines seed_hex (ManifestId [1]) 4 5 []), ?w2, f1\<lparr>fs_calls := Suc (fs_calls f1)\<rparr>)"
    unfolding seed_into_def Let_def ps op rd pages sleep sum.case prod.case outcome.case by simp
  then show ?thesis by (simp add: f1(1) tier)
qed

lemma seeded_file_served_witness:
  "\<exists>out w' f' S1 S2. query_seed seed_env seed_subst seed_hex [''db'', ''r'', ''c'', []] demo_w seed_disk = (Ok out, w', f') \<and>
     flock_vfs_open seed_env (Some [0x72]) (Some [0x63]) (Some []) (Some [1]) 4 5 (ffi_init demo_disk) = (1, S1) \<and>
     flock_vfs_pread demo_woken_pager id 1 3 (Some [0, 0, 0]) 3 S1 = Returned (2, Some [4, 5, 0], S2)"
proof -
  obtain w' f' where run: "query_seed seed_env seed_subst seed_hex [''db'', ''r'', ''c'', []] demo_w seed_disk =
     (Ok (seed_lines seed_hex (ManifestId [1]) 4 5 []), w', f')" using demo_seeds by blast
  obtain S1 where op: "flock_vfs_open seed_env (Some [0x72]) (Some [0x63]) (Some []) (Some [1]) 4 5 (ffi_init demo_disk) = (1, S1)"
    by (simp add: remote_tier_def local_tier_def seed_env_def demo_waker_def flock_vfs_open_def open_inner_def cstr_def
      in_range_def text_of_def components_def fs_create_dir_all_def fs_call_def fs_call_in_parts_def demo_disk_def ffi_init_def
      fs_lookup_def Let_def char_of_def bit_Suc_0_iff)
  have txts: "text_of [0x72] = ''r''" "text_of [] = []" by (simp_all add: text_of_def char_of_def bit_Suc_0_iff)
  have dec: "dec 4 = ''4''" "dec 5 = ''5''" by code_simp+
  have num: "parse_u64 ''4'' = Some 4" "parse_u64 ''5'' = Some 5"
    using parse_pad_dec [of 4 0] parse_pad_dec [of 5 0] by (simp_all add: pad_dec_def dec)
  have law: "sleeps_whole seed_subst (\<lambda>_ _. True)" "sv_inv demo_obs demo_w" "sb_default_page_size seed_subst < 2 ^ 64"
    by (simp_all add: sleeps_whole_def seed_subst_def)
  have disk: "fs_lookup seed_disk (components ''db'') = Some (FileNode [1, 2, 3, 4, 5])"
    by (simp add: seed_disk_def fs_lookup_def components_def)
  have tier: "remote_tier seed_env ''r'' [] = Inr demo_tier"
    by (rule seed_opens_tier)
  have "reads_as demo_woken_pager id 1 S1 [1, 2, 3, 4, 5]"
    by (rule seeded_file_served [OF seed_law seed_opens_fresh law seed_hex_inverse disk, of "Some [0x72]" "''c''" "Some []"
        "seed_lines seed_hex (ManifestId [1]) 4 5 []" w' f' "Some [1]" "''4''" "''5''" 4 5 demo_tier])
      (use run op in \<open>simp_all add: txts seed_lines_def dec num tier isize_max_def seed_wakes_from ffi_start\<close>)
  from this [unfolded reads_as_def, rule_format, of 3 3 "[0, 0, 0]"] op run
  show ?thesis by (fastforce simp: isize_max_def clamp_def)
qed

end
