(* ===== verification/Core_Files.thy ===== *)
theory Core_Files
  imports Core_Sleep
begin

section \<open>What the operations leave of a pool's files\<close>

text \<open>
  The operations of a database write in a scratch directory of their own, and in the pool only
  directories and links that are not there. So whatever a pool holds it still holds after any of
  them (\<open>holds\<close>), as long as DuckDB and the temporary directories keep out of the pool, which is what
  \<open>duck_law\<close> states of them: a temporary directory is beside the pool, opening a file and a CHECKPOINT
  touch nothing in it.
\<close>

definition holds :: "path \<Rightarrow> fs \<Rightarrow> fs \<Rightarrow> bool" where
  "holds root f f' \<longleftrightarrow> (\<forall>q n. prefix root q \<longrightarrow> fs_lookup f q = Some n \<longrightarrow> fs_lookup f' q = Some n)"

definition away :: "path \<Rightarrow> path \<Rightarrow> bool" where
  "away root p \<longleftrightarrow> \<not> prefix root p \<and> \<not> prefix p root"

definition duck_law :: "('c, 'a, 'b) duck_ops \<Rightarrow> path \<Rightarrow> bool" where
  "duck_law D root \<longleftrightarrow>
     (\<forall>f r f'. duck_temp_dir D f = (r, f') \<longrightarrow> holds root f f' \<and> (\<forall>dir. r = Inr dir \<longrightarrow> away root dir)) \<and>
     (\<forall>p t m f r f'. duck_open D p t m f = (r, f') \<longrightarrow> away root p \<longrightarrow> holds root f f') \<and>
     (\<forall>c f r c' f'. duck_batch D c ''CHECKPOINT'' f = (r, c', f') \<longrightarrow> holds root f f')"

lemma duck_lawD:
  assumes "duck_law D root"
  shows "duck_temp_dir D f = (r1, f') \<Longrightarrow> holds root f f' \<and> (\<forall>dir. r1 = Inr dir \<longrightarrow> away root dir)"
    and "duck_open D p t m f = (r2, f') \<Longrightarrow> away root p \<Longrightarrow> holds root f f'"
    and "duck_batch D c ''CHECKPOINT'' f = (r3, c', f') \<Longrightarrow> holds root f f'"
  using assms unfolding duck_law_def by blast+

declare store_page_store.simps [simp del]

lemma holds_refl [simp, intro]: "holds root f f"
  by (simp add: holds_def)

lemma holds_trans [trans]: "holds root f g \<Longrightarrow> holds root g h \<Longrightarrow> holds root f h"
  by (simp add: holds_def)

lemma holds_grows: "fs_grows f f' \<Longrightarrow> holds root f f'"
  by (simp add: holds_def fs_grows_def)

lemma holds_lookups: "\<forall>q. fs_lookup f' q = fs_lookup f q \<Longrightarrow> holds root f f'"
  by (simp add: holds_def)

lemma holds_file: "holds root f f' \<Longrightarrow> prefix root p \<Longrightarrow> is_file f p \<Longrightarrow> is_file f' p"
  by (auto simp: holds_def is_file_def split: option.splits)

lemma away_below: "away root dir \<Longrightarrow> away root (dir @ p)"
  unfolding away_def by (metis append_prefixD prefix_same_cases prefixI)

lemma away_not_Nil: "away root p \<Longrightarrow> p \<noteq> []"
  by (auto simp: away_def)

subsection \<open>Kernels\<close>

text \<open>Dropping a scratch directory, entirely or up to a failure, removes only what is in it.\<close>

lemma map_of_filter_keys: "map_of (filter (\<lambda>(k, v). P k) l) k = (if P k then map_of l k else None)"
  by (induction l) auto

lemma drop_scratch_lookup:
  assumes "q \<noteq> []"
  shows "fs_lookup (drop_scratch dir f) q = fs_lookup f q \<or>
    (prefix dir q \<and> fs_lookup (drop_scratch dir f) q = None)"
proof -
  let ?g = "f\<lparr>fs_calls := Suc (fs_calls f)\<rparr>"
  have below: "prefix dir q" if "take (length dir) q = dir" using that by (metis take_is_prefix)
  have cut: ?thesis if "drop_scratch dir f = ?g\<lparr>fs_tree := filter (\<lambda>(q, v). P q) (fs_tree ?g)\<rparr>"
    and "\<not> P q \<Longrightarrow> take (length dir) q = dir" for P
    using assms that below by (simp add: fs_lookup_def map_of_filter_keys [of P])
  show ?thesis
  proof (cases "drop_scratch dir f = ?g")
    case True
    then show ?thesis by simp
  next
    case False
    then consider "drop_scratch dir f = ?g\<lparr>fs_tree := filter (\<lambda>(q, v). take (length dir) q \<noteq> dir) (fs_tree ?g)\<rparr>"
      | "drop_scratch dir f =
          ?g\<lparr>fs_tree := filter (\<lambda>(q, v). \<not> (take (length dir) q = dir \<and> fs_gone ?g (fs_calls f) q)) (fs_tree ?g)\<rparr>"
      by (simp add: drop_scratch_def fs_remove_dir_all_def fs_call_in_parts_def Let_def
          split: option.splits node.splits if_splits)
    then show ?thesis
    proof cases
      case 1
      show ?thesis by (rule cut [OF 1]) simp
    next
      case 2
      show ?thesis by (rule cut [OF 2]) simp
    qed
  qed
qed

lemma drop_scratch_root: "fs_lookup (drop_scratch dir f) [] = fs_lookup f []"
  by (simp add: fs_lookup_def)

lemma drop_scratch_outside: "\<not> prefix dir q \<Longrightarrow> fs_lookup (drop_scratch dir f) q = fs_lookup f q"
  using drop_scratch_lookup [of q dir f] drop_scratch_root by (cases "q = []") auto

lemma drop_scratch_holds: "away root dir \<Longrightarrow> holds root f (drop_scratch dir f)"
  unfolding holds_def away_def by (metis drop_scratch_outside prefix_same_cases)

lemma hydrate_holds: "hydrate P x m p f = (r, x', f') \<Longrightarrow> away root p \<Longrightarrow> holds root f f'"
proof -
  assume run: "hydrate P x m p f = (r, x', f')" and away: "away root p"
  obtain e1 g1 where rm: "fs_remove_file f p = (e1, g1)" by fastforce
  have "holds root f g1"
    using fs_remove_file_effect [OF rm away_not_Nil [OF away]] away by (auto simp: holds_def away_def split: sum.splits)
  moreover have "holds root f g2" if "fs_write f p b = (e2, g2)" for b e2 g2
    using fs_write_effect [OF that away_not_Nil [OF away]] away by (auto simp: holds_def away_def split: sum.splits)
  moreover have "f' = f \<or> f' = g1 \<or> (\<exists>b e2. fs_write f p b = (e2, f'))"
    using run rm by (auto simp: hydrate_def Let_def split: sum.splits prod.splits if_splits io_error.splits)
  ultimately show ?thesis by auto
qed

lemma kernel_open_holds:
  assumes law: "duck_law D root" and run: "kernel_open D P x opts f = (r, x', f')"
  shows "holds root f f' \<and> (\<forall>k. r = Inr k \<longrightarrow> away root (k_scratch k))"
proof -
  obtain d f1 where t: "duck_temp_dir D f = (d, f1)" by fastforce
  note l1 = duck_lawD(1) [OF law t]
  show ?thesis
  proof (cases d)
    case (Inl e)
    with run t l1 show ?thesis by (auto simp: kernel_open_def)
  next
    case (Inr dir)
    let ?p = "join dir SCRATCH_FILE"
    have away: "away root dir" "away root ?p"
      using l1 Inr away_below by (auto simp: join_plain SCRATCH_FILE_def)
    obtain h x1 f2 where hy: "hydrate P x (pst_head P x) ?p f1 = (h, x1, f2)"
      by (cases "hydrate P x (pst_head P x) ?p f1") auto
    obtain c f3 where op: "duck_open D ?p (ko_threads opts) (ko_max_memory opts) f2 = (c, f3)" by fastforce
    have h2: "holds root f f2" using l1 hydrate_holds [OF hy away(2)] holds_trans by blast
    have h3: "holds root f f3" using h2 duck_lawD(2) [OF law op away(2)] holds_trans by blast
    have drop: "holds root f (drop_scratch dir g)" if "holds root f g" for g
      using that drop_scratch_holds [OF away(1)] holds_trans by blast
    have "f' \<in> {drop_scratch dir f2, drop_scratch dir f3, f3} \<and> (\<forall>k. r = Inr k \<longrightarrow> k_scratch k = dir)"
      using run t Inr hy op by (auto simp: kernel_open_def Let_def split: sum.splits option.splits)
    with h2 h3 drop away(1) show ?thesis by auto
  qed
qed

lemma kernel_checkpoint_holds:
  assumes law: "duck_law D root" and run: "kernel_checkpoint D P k x f = (r, k', x', f')"
  shows "holds root f f' \<and> k_scratch k' = k_scratch k"
proof -
  obtain b c f1 where ck: "duck_batch D (k_conn k) ''CHECKPOINT'' f = (b, c, f1)"
    by (cases "duck_batch D (k_conn k) ''CHECKPOINT'' f") auto
  note h1 = duck_lawD(3) [OF law ck]
  have st: "\<forall>q. fs_lookup g' q = fs_lookup g q" if "fs_metadata_len g p = (n, g')" for g p n g'
    using fs_metadata_len_frame [OF that] by blast
  obtain q k1 f2 where fw: "fold_wal D k f = (q, k1, f2)" by (cases "fold_wal D k f") auto
  have "k1 = k\<lparr>k_conn := c\<rparr> \<and> (f2 = f1 \<or> (\<exists>p n. fs_metadata_len f1 p = (n, f2)))"
    using fw ck by (auto simp: fold_wal_def kernel_batch_def Let_def split: sum.splits prod.splits io_error.splits if_splits)
  then have k1: "k_scratch k1 = k_scratch k" and h2: "holds root f f2"
    using h1 holds_lookups [OF st] holds_trans by fastforce+
  obtain p1 x1 f3 where ps: "persist P x (k_path k1) f2 = (p1, x1, f3)"
    by (cases "persist P x (k_path k1) f2") auto
  obtain z f4 where rd: "fs_read f2 (k_path k1) = (z, f4)" by fastforce
  have "f3 = f4" using ps rd by (auto simp: persist_def Let_def split: sum.splits prod.splits if_splits)
  then have h3: "holds root f f3" using fs_read_frame [OF rd] h2 holds_lookups holds_trans by blast
  have "f' \<in> {f2, f3} \<and> k' = k1" using run fw ps by (auto simp: kernel_checkpoint_def split: sum.splits)
  with h2 h3 k1 show ?thesis by auto
qed

subsection \<open>Databases\<close>

definition db_away :: "path \<Rightarrow> ('h, 'c) db \<Rightarrow> bool" where
  "db_away root db \<longleftrightarrow> away root (k_scratch (db_kernel db))"

lemma flock_open_holds:
  assumes law: "duck_law D root" and run: "flock_open_with D B r name opts w f = (res, w', f')"
  shows "holds root f f' \<and> (\<forall>db. res = Inr db \<longrightarrow> db_away root db)"
proof -
  obtain l f1 where lk: "link_db_to_shared_cas r name f = (l, f1)" by fastforce
  have h1: "holds root f f1" by (rule holds_grows [OF link_db_grows [OF lk]])
  consider (early) "f' \<in> {f, f1}" "\<not> (\<exists>db. res = Inr db)"
    | (opened) st w2 k w3 where "kernel_open D (store_page_store B st) w2 opts f1 = (k, w3, f')"
      "\<forall>db. res = Inr db \<longrightarrow> k = Inr (db_kernel db)"
    using run lk by (auto simp: flock_open_with_def Let_def split: sum.splits prod.splits)
  then show ?thesis
  proof cases
    case early
    with h1 show ?thesis by auto
  next
    case opened
    from kernel_open_holds [OF law opened(1)] opened(2) h1 show ?thesis
      using holds_trans by (auto simp: db_away_def)
  qed
qed

lemma db_snapshot_holds:
  assumes law: "duck_law D root" and run: "db_snapshot D B db w f = (r, db', w', f')"
  shows "holds root f f' \<and> db_away root db' = db_away root db"
proof -
  obtain q k w1 f1 where "kernel_checkpoint D (store_page_store B (db_store db)) (db_kernel db) w f = (q, k, w1, f1)"
    by (cases "kernel_checkpoint D (store_page_store B (db_store db)) (db_kernel db) w f") auto
  with run kernel_checkpoint_holds [OF law this] show ?thesis by (auto simp: db_snapshot_def db_away_def)
qed

lemma kernel_drop_holds: "db_away root db \<Longrightarrow> holds root f (kernel_drop (db_kernel db) f)"
  by (simp add: kernel_drop_def db_away_def drop_scratch_holds)

lemma db_sleep_holds:
  assumes law: "duck_law D root" and away: "db_away root db"
    and run: "db_sleep D B order db remote w f = Some (r, w', f')"
  shows "holds root f f'"
proof -
  obtain s db1 w1 f1 where sn: "db_snapshot D B db w f = (s, db1, w1, f1)" by (cases "db_snapshot D B db w f") auto
  note h1 = db_snapshot_holds [OF law sn]
  let ?f2 = "kernel_drop (db_kernel db1) f1"
  have h2: "holds root f ?f2" using h1 away kernel_drop_holds holds_trans by blast
  obtain t f3 where tm: "duck_temp_dir D ?f2 = (t, f3)" by fastforce
  note l3 = duck_lawD(1) [OF law tm]
  have h3: "holds root f f3" using h2 l3 holds_trans by blast
  have "f' = ?f2 \<or> f' = f3 \<or> (\<exists>dir. t = Inr dir \<and> f' = drop_scratch dir f3)"
    using run sn tm by (auto simp: db_sleep_def Let_def split: outcome.splits sum.splits option.splits prod.splits)
  with h2 h3 l3 show ?thesis using drop_scratch_holds holds_trans by blast
qed

lemma db_fork_holds:
  assumes law: "duck_law D root" and run: "db_fork D B db name w f = (r, db', w', f')"
  shows "holds root f f' \<and> db_away root db' = db_away root db \<and> (\<forall>child. r = Ok child \<longrightarrow> db_away root child)"
proof -
  obtain s db1 w1 f1 where sn: "db_snapshot D B db w f = (s, db1, w1, f1)" by (cases "db_snapshot D B db w f") auto
  note h1 = db_snapshot_holds [OF law sn]
  obtain l f2 where lk: "link_db_to_shared_cas (db_root db) name f1 = (l, f2)" by fastforce
  have h2: "holds root f f2" using h1 holds_grows [OF link_db_grows [OF lk]] holds_trans by blast
  consider (early) "f' \<in> {f, f1, f2}" "db' \<in> {db, db1}" "\<not> (\<exists>c. r = Ok c)"
    | (opened) st w5 k w6 where "kernel_open D (store_page_store B st) w5 (db_opts db) f2 = (k, w6, f')" "db' = db1"
      "\<forall>c. r = Ok c \<longrightarrow> k = Inr (db_kernel c)"
    using run sn lk
    by (auto simp: db_fork_def Let_def split: outcome.splits sum.splits prod.splits if_splits)
  then show ?thesis
  proof cases
    case early
    with h1 h2 show ?thesis by auto
  next
    case opened
    from kernel_open_holds [OF law opened(1)] opened h1 h2 show ?thesis
      using holds_trans by (auto simp: db_away_def)
  qed
qed

subsection \<open>A fork that fails\<close>

text \<open>What a fork does after it has taken its snapshot and linked its directory leaves what the pool holds.\<close>

lemma db_fork_after_link:
  assumes law: "duck_law D root" and run: "db_fork D B db name w f = (r, db', w', f')"
    and sn: "db_snapshot D B db w f = (Ok m, db1, w1, f1)"
    and lk: "link_db_to_shared_cas (db_root db) name f1 = (l, f2)"
    and name: "validate_name name = Inr ()" "\<not> path_exists f (db_dir (db_root db) name)"
  shows "holds root f2 f'"
proof -
  have "holds root f2 f'" if dir: "l = Inr dir" for dir
  proof -
    note run' = run [unfolded db_fork_def, simplified name sn lk dir Let_def sum.case outcome.case prod.case if_False]
    consider (early) "f' = f2" | (opened) st w5 k w6 where "kernel_open D (store_page_store B st) w5 (db_opts db) f2 = (k, w6, f')"
      using run' by (auto split: sum.splits prod.splits)
    then show ?thesis
    proof cases
      case opened
      then show ?thesis using kernel_open_holds [OF law opened] by simp
    qed simp
  qed
  then show ?thesis using run sn lk name by (cases l) (simp_all add: db_fork_def Let_def)
qed

lemma holds_exists: "holds root f f' \<Longrightarrow> prefix root p \<Longrightarrow> path_exists f p \<Longrightarrow> path_exists f' p"
  by (auto simp: holds_def path_exists_def)

lemma db_dir_in_pool: "validate_name name = Inr () \<Longrightarrow> prefix root (db_dir root name)"
  by (simp add: db_dir_valid)

text \<open>C38: a fork that fails once its directory is made keeps the name. Whatever fails then, the second
  of the directory's links, opening, replaying, positioning or recording the fork's store, or opening
  its engine, the directory stays; and from then on, as long as nothing removes what the pool holds,
  a fork to that name from any database of the pool is refused as taken.\<close>

theorem failed_fork_keeps_name:
  assumes "duck_law D (db_root db)" "validate_name name = Inr ()"
    and "db_fork D B db name w f = (Err e, db', w', f')"
    and "db_snapshot D B db w f = (Ok m, db1, w1, f1)"
    and "link_db_to_shared_cas (db_root db) name f1 = (l, f2)" "path_exists f2 (db_dir (db_root db) name)"
  shows "path_exists f' (db_dir (db_root db) name) \<and>
    (\<forall>other w2 g. db_root other = db_root db \<longrightarrow> holds (db_root db) f' g \<longrightarrow>
      db_fork D B other name w2 g = (Err (NameTaken name (db_dir (db_root db) name)), other, w2, g))"
proof -
  note below = db_dir_in_pool [OF assms(2), of "db_root db"]
  have there: "path_exists f' (db_dir (db_root db) name)"
  proof (cases "path_exists f (db_dir (db_root db) name)")
    case True
    with assms(2,3) show ?thesis by (simp add: db_fork_def Let_def)
  next
    case False
    show ?thesis
      by (rule holds_exists [OF db_fork_after_link [OF assms(1,3-5,2) False] below assms(6)])
  qed
  have "db_fork D B other name w2 g = (Err (NameTaken name (db_dir (db_root db) name)), other, w2, g)"
    if "db_root other = db_root db" "holds (db_root db) f' g" for other w2 g
    using holds_exists [OF that(2) below there] assms(2) that(1) by (simp add: db_fork_def Let_def)
  with there show ?thesis by blast
qed

lemma demo_duck_law: "duck_law demo_duck [''pool'']"
proof -
  have "holds [''pool''] f (fs_put f [''tmp''] DirNode)" for f by (auto simp: holds_def fs_simps)
  moreover have "away [''pool''] [''tmp'']" by (simp add: away_def)
  ultimately show ?thesis by (auto simp: duck_law_def demo_duck_def)
qed


lemma failed_fork_keeps_name_witness:
  "fst (db_fork demo_duck (demo_subst\<lparr>sb_open := \<lambda>d w. (Inl ''disk full'', w)\<rparr>) demo_db ''b'' demo_w
      (snd (snd (snd (db_fork demo_duck (demo_subst\<lparr>sb_open := \<lambda>d w. (Inl ''disk full'', w)\<rparr>) demo_db ''b''
        demo_w demo_pool))))) = Err (NameTaken ''b'' [''pool'', ''dbs'', ''b''])"
proof -
  let ?B = "demo_subst\<lparr>sb_open := \<lambda>d w. (Inl ''disk full'', w)\<rparr>"
  have st: "store_page_store ?B st = store_page_store demo_subst st" for st
    by (cases st) (simp_all add: store_page_store.simps delegate_to_pager_def durable_commit_def [abs_def] tiered_commit_def [abs_def])
  have snap: "db_snapshot demo_duck ?B demo_db demo_w demo_pool =
      (Ok (ManifestId [1]), demo_db, demo_w, demo_pool\<lparr>fs_calls := 2\<rparr>)"
    using demo_snapshot by (simp only: db_snapshot_def st)
  have v: "validate_name ''b'' = Inr ()" by code_simp
  have d: "db_dir [''pool''] ''b'' = [''pool'', ''dbs'', ''b'']" by (simp add: db_dir_def join_plain)
  have free: "\<not> path_exists demo_pool [''pool'', ''dbs'', ''b'']"
    by (simp add: path_exists_def fs_lookup_def demo_pool_def)
  have "fst (link_db_to_shared_cas [''pool''] ''b'' (demo_pool\<lparr>fs_calls := 2\<rparr>)) = Inr [''pool'', ''dbs'', ''b'']"
    by code_simp
  then obtain f2 where link: "link_db_to_shared_cas [''pool''] ''b'' (demo_pool\<lparr>fs_calls := 2\<rparr>) =
      (Inr [''pool'', ''dbs'', ''b''], f2)" by (metis prod.collapse)
  have root: "db_root demo_db = [''pool'']" by (simp add: demo_db_def)
  have op: "sb_open ?B dir w = (Inl ''disk full'', w)" for dir w by simp
  have run: "db_fork demo_duck ?B demo_db ''b'' demo_w demo_pool =
      (Err (FWal ''open the fork's durable store'' ''disk full''), demo_db, demo_w, f2)"
    unfolding db_fork_def
    by (simp only: v d free root snap link op Let_def prod.case sum.case outcome.case if_False)
  have made: "path_exists f2 [''pool'', ''dbs'', ''b'']" using link_makes_dir [OF link] by simp
  have law: "duck_law demo_duck (db_root demo_db)" using demo_duck_law root by simp
  from failed_fork_keeps_name [OF law v run snap, unfolded root d, OF link made]
  have "db_fork demo_duck ?B demo_db ''b'' demo_w f2 =
      (Err (NameTaken ''b'' [''pool'', ''dbs'', ''b'']), demo_db, demo_w, f2)" using root by simp
  then show ?thesis by (simp add: run)
qed

end
