(* ===== verification/Cli_Workspace.thy ===== *)
theory Cli_Workspace
  imports Core_Sleep "HOL-Library.List_Lexorder"
begin

section \<open>The command line's workspace\<close>

text \<open>
  \<open>crates/flock-cli/src/workspace.rs\<close> and \<open>error.rs\<close>: the pool on disk as the command line sees it, the
  branch \<open>HEAD\<close> names, the branches in it, awake or asleep. Text is the list of its UTF-8 bytes, and
  file names are UTF-8. An existence check cannot fail, a read can. The JSON of a sleep record is
  \<open>serde_json\<close>'s and of a token substrate's: parameters (\<open>json_ops\<close>). Errors carry the values of their
  messages; the hints are left out.
\<close>

subsection \<open>Errors\<close>

datatype cli_error =
    CFlock flock_error
  | NoPool path
  | UnknownBranch string "string list"
  | BranchAsleep string
  | BranchAwake string
  | UnknownFormat string string
  | NoSuchFile string
  | BadTableName string
  | TableExists string string
  | TierNotSupported string
  | CIo string path io_error
  | BadSleepRecord string path string
  | CTier path string
  | CStore string store_error
  | CRender string

definition known_or_none :: "string list \<Rightarrow> string" where
  "known_or_none known =
     (if known = [] then ''(none '' @ [CHR 0xE2, CHR 0x80, CHR 0x94] @ '' this pool has no branches yet)'' else join_with '', '' known)"

subsection \<open>Text\<close>

definition bytes_of :: "string \<Rightarrow> bytes" where
  "bytes_of s = map (\<lambda>c. word_of_nat (of_char c)) s"

text \<open>The characters \<open>str::trim\<close> removes (Unicode's White_Space), each in UTF-8.\<close>

definition white_space :: "string list" where
  "white_space = map (map char_of)
     ([[n]. n \<leftarrow> [9, 10, 11, 12, 13, 32]] @ [[0xC2, 0x85], [0xC2, 0xA0], [0xE1, 0x9A, 0x80]] @
      [[0xE2, 0x80, n]. n \<leftarrow> [0x80 ..< 0x8B] @ [0xA8, 0xA9, 0xAF]] @ [[0xE2, 0x81, 0x9F], [0xE3, 0x80, 0x80 :: nat]])"

lemma find_SomeD: "find P xs = Some x \<Longrightarrow> P x \<and> x \<in> set xs"
  by (induction xs) (auto split: if_splits)

definition drop_space :: "string \<Rightarrow> string option" where
  "drop_space s = Option.bind (find (\<lambda>w. strip_prefix w s \<noteq> None) white_space) (\<lambda>w. strip_prefix w s)"

definition drop_space_end :: "string \<Rightarrow> string option" where
  "drop_space_end s = Option.bind (find (\<lambda>w. strip_suffix w s \<noteq> None) white_space) (\<lambda>w. strip_suffix w s)"

lemma white_space_nonempty: "w \<in> set white_space \<Longrightarrow> w \<noteq> []"
  by (auto simp: white_space_def)

lemma drop_space_Some: "drop_space s = Some r \<Longrightarrow> \<exists>w \<in> set white_space. s = w @ r"
  by (auto simp: drop_space_def bind_eq_Some_conv strip_prefix_Some dest!: find_SomeD)

lemma drop_space_end_Some: "drop_space_end s = Some r \<Longrightarrow> \<exists>w \<in> set white_space. s = r @ w"
  by (auto simp: drop_space_end_def bind_eq_Some_conv strip_suffix_Some dest!: find_SomeD)

function trim_start :: "string \<Rightarrow> string" where
  "trim_start s = (case drop_space s of Some r \<Rightarrow> trim_start r | None \<Rightarrow> s)"
  by pat_completeness auto
termination
  by (relation "measure length") (auto dest!: drop_space_Some white_space_nonempty)

function trim_end :: "string \<Rightarrow> string" where
  "trim_end s = (case drop_space_end s of Some r \<Rightarrow> trim_end r | None \<Rightarrow> s)"
  by pat_completeness auto
termination
  by (relation "measure length") (auto dest!: drop_space_end_Some white_space_nonempty)

declare trim_start.simps [simp del] trim_end.simps [simp del]

definition trim :: "string \<Rightarrow> string" where
  "trim s = trim_end (trim_start s)"

text \<open>\<open>fs::read_to_string\<close>.\<close>

definition read_to_string :: "fs \<Rightarrow> path \<Rightarrow> (io_error + string) \<times> fs" where
  "read_to_string f p =
     (case fs_read f p of
        (Inl e, f') \<Rightarrow> (Inl e, f')
      | (Inr b, f') \<Rightarrow>
          (if utf8_valid b then Inr (text_of b) else Inl (IoOther ''stream did not contain valid UTF-8''), f'))"

subsection \<open>Where things are\<close>

definition DEFAULT_POOL :: string where
  "DEFAULT_POOL = ''.flock''"

text \<open>The root is kept as it was written.\<close>

record workspace =
  ws_text :: string

definition locate :: "string option \<Rightarrow> string option \<Rightarrow> workspace" where
  "locate explicit flock_pool =
     \<lparr>ws_text = (case explicit of Some p \<Rightarrow> p | None \<Rightarrow> (case flock_pool of Some p \<Rightarrow> p | None \<Rightarrow> DEFAULT_POOL))\<rparr>"

definition ws_root :: "workspace \<Rightarrow> path" where
  "ws_root ws = components (ws_text ws)"

definition head_path :: "workspace \<Rightarrow> path" where
  "head_path ws = join (ws_root ws) ''HEAD''"

definition dbs_dir :: "workspace \<Rightarrow> path" where
  "dbs_dir ws = join (ws_root ws) ''dbs''"

definition asleep_dir :: "workspace \<Rightarrow> path" where
  "asleep_dir ws = join (ws_root ws) ''asleep''"

definition sleep_record_path :: "workspace \<Rightarrow> string \<Rightarrow> path" where
  "sleep_record_path ws branch = join (asleep_dir ws) (branch @ ''.json'')"

definition ws_cas_dir :: "workspace \<Rightarrow> path" where
  "ws_cas_dir ws = join (ws_root ws) ''cas''"

definition ws_exists :: "workspace \<Rightarrow> fs \<Rightarrow> bool" where
  "ws_exists ws f = is_file f (head_path ws)"

definition is_asleep :: "workspace \<Rightarrow> string \<Rightarrow> fs \<Rightarrow> bool" where
  "is_asleep ws branch f = is_file f (sleep_record_path ws branch)"

subsection \<open>\<open>HEAD\<close> and the branches\<close>

definition ws_head :: "workspace \<Rightarrow> fs \<Rightarrow> (cli_error + string) \<times> fs" where
  "ws_head ws f =
     (if \<not> ws_exists ws f then (Inl (NoPool (ws_root ws)), f)
      else
        (case read_to_string f (head_path ws) of
           (Inl e, f') \<Rightarrow> (Inl (CIo ''read HEAD'' (head_path ws) e), f')
         | (Inr name, f') \<Rightarrow> (Inr (trim name), f')))"

definition ws_set_head :: "workspace \<Rightarrow> string \<Rightarrow> fs \<Rightarrow> (cli_error + unit) \<times> fs" where
  "ws_set_head ws branch f =
     (case fs_create_dir_all f (ws_root ws) of
        (Inl e, f1) \<Rightarrow> (Inl (CIo ''create the pool'' (ws_root ws) e), f1)
      | (Inr _, f1) \<Rightarrow>
          (case fs_write f1 (head_path ws) (bytes_of (branch @ [CHR 0x0A])) of
             (r, f2) \<Rightarrow> (map_err (CIo ''write HEAD'' (head_path ws)) r, f2)))"

definition branch_of_entry :: "string \<Rightarrow> string" where
  "branch_of_entry name = (case strip_suffix ''.json'' name of Some r \<Rightarrow> r | None \<Rightarrow> name)"

fun add_names :: "path list \<Rightarrow> string list \<Rightarrow> string list" where
  "add_names [] names = names"
| "add_names (entry # entries) names =
     (let name = branch_of_entry (last entry)
      in add_names entries (if name \<in> set names then names else names @ [name]))"

fun list_dirs :: "path list \<Rightarrow> string list \<Rightarrow> fs \<Rightarrow> (cli_error + string list) \<times> fs" where
  "list_dirs [] names f = (Inr names, f)"
| "list_dirs (dir # dirs) names f =
     (case fs_read_dir f dir of
        (Inr entries, f') \<Rightarrow> list_dirs dirs (add_names entries names) f'
      | (Inl IoNotFound, f') \<Rightarrow> list_dirs dirs names f'
      | (Inl e, f') \<Rightarrow> (Inl (CIo ''list branches'' dir e), f'))"

definition ws_branches :: "workspace \<Rightarrow> fs \<Rightarrow> (cli_error + string list) \<times> fs" where
  "ws_branches ws f =
     (case list_dirs [dbs_dir ws, asleep_dir ws] [] f of
        (Inl e, f') \<Rightarrow> (Inl e, f')
      | (Inr names, f') \<Rightarrow> (Inr (sort names), f'))"

definition ws_resolve :: "workspace \<Rightarrow> string option \<Rightarrow> fs \<Rightarrow> (cli_error + string) \<times> fs" where
  "ws_resolve ws explicit f =
     (case (case explicit of Some n \<Rightarrow> (Inr n, f) | None \<Rightarrow> ws_head ws f) of
        (Inl e, f1) \<Rightarrow> (Inl e, f1)
      | (Inr name, f1) \<Rightarrow>
          if \<not> ws_exists ws f1 then (Inl (NoPool (ws_root ws)), f1)
          else
            (case ws_branches ws f1 of
               (Inl e, f2) \<Rightarrow> (Inl e, f2)
             | (Inr known, f2) \<Rightarrow>
                 if name \<notin> set known then (Inl (UnknownBranch name known), f2)
                 else if is_asleep ws name f2 then (Inl (BranchAsleep name), f2)
                 else (Inr name, f2)))"

subsection \<open>Sleep records\<close>

record sleep_record =
  sr_tier :: path
  sr_pool :: string
  sr_token :: string

record json_ops =
  js_of_record :: "sleep_record \<Rightarrow> string + string"
  js_to_record :: "string \<Rightarrow> string + sleep_record"
  js_of_token :: "wake_token \<Rightarrow> store_error + string"
  js_to_token :: "string \<Rightarrow> store_error + wake_token"

definition read_sleep_record :: "json_ops \<Rightarrow> workspace \<Rightarrow> string \<Rightarrow> fs \<Rightarrow> (cli_error + sleep_record) \<times> fs" where
  "read_sleep_record J ws branch f =
     (let p = sleep_record_path ws branch
      in case read_to_string f p of
           (Inl e, f') \<Rightarrow> (Inl (CIo ''read the sleep record'' p e), f')
         | (Inr text, f') \<Rightarrow> (map_err (BadSleepRecord branch p) (js_to_record J text), f'))"

definition write_sleep_record :: "json_ops \<Rightarrow> workspace \<Rightarrow> string \<Rightarrow> sleep_record \<Rightarrow> fs \<Rightarrow> (cli_error + unit) \<times> fs" where
  "write_sleep_record J ws branch rec f =
     (case fs_create_dir_all f (asleep_dir ws) of
        (Inl e, f1) \<Rightarrow> (Inl (CIo ''create the sleep-record directory'' (asleep_dir ws) e), f1)
      | (Inr _, f1) \<Rightarrow>
          (let p = sleep_record_path ws branch
           in case js_of_record J rec of
                Inl e \<Rightarrow> (Inl (BadSleepRecord branch p e), f1)
              | Inr json \<Rightarrow>
                  (case fs_write f1 p (bytes_of json) of
                     (r, f2) \<Rightarrow> (map_err (CIo ''write the sleep record'' p) r, f2))))"

definition remove_sleep_record :: "workspace \<Rightarrow> string \<Rightarrow> fs \<Rightarrow> (cli_error + unit) \<times> fs" where
  "remove_sleep_record ws branch f =
     (let p = sleep_record_path ws branch
      in case fs_remove_file f p of (r, f') \<Rightarrow> (map_err (CIo ''remove the sleep record'' p) r, f'))"

definition remove_branch_dir :: "workspace \<Rightarrow> string \<Rightarrow> fs \<Rightarrow> (cli_error + unit) \<times> fs" where
  "remove_branch_dir ws branch f =
     (let dir = join (dbs_dir ws) branch
      in case fs_remove_dir_all f dir of
           (Inr _, f') \<Rightarrow> (Inr (), f')
         | (Inl IoNotFound, f') \<Rightarrow> (Inr (), f')
         | (Inl e, f') \<Rightarrow> (Inl (CIo ''remove the branch directory'' dir e), f'))"

subsection \<open>Text of names\<close>

lemma text_of_bytes [simp]: "text_of (bytes_of s) = s"
proof -
  have "unat (word_of_nat (of_char c) :: u8) = of_char c" for c
    using of_char_of [of "of_char c :: nat"] by (simp add: unat_of_nat nat_of_char_less_256)
  then show ?thesis by (induction s) (simp_all add: text_of_def bytes_of_def)
qed

lemma utf8_valid_ascii: "list_all (\<lambda>c. (of_char c :: nat) < 128) s \<Longrightarrow> utf8_valid (bytes_of s)"
proof (induction s)
  case Nil
  then show ?case by (simp add: bytes_of_def)
next
  case (Cons c s)
  then have "unat (word_of_nat (of_char c) :: u8) < 128" by (simp add: unat_of_nat)
  with Cons show ?case by (simp add: bytes_of_def in_range_def)
qed

lemma white_space_ends:
  "w \<in> set white_space \<Longrightarrow> \<not> name_char (hd w) \<and> \<not> name_char (last w) \<and> (last w = CHR 0x0A \<longrightarrow> w = [CHR 0x0A])"
proof -
  have "list_all (\<lambda>w. \<not> name_char (hd w) \<and> \<not> name_char (last w) \<and> (last w = CHR 0x0A \<longrightarrow> w = [CHR 0x0A])) white_space"
    by code_simp
  then show "w \<in> set white_space \<Longrightarrow> \<not> name_char (hd w) \<and> \<not> name_char (last w) \<and> (last w = CHR 0x0A \<longrightarrow> w = [CHR 0x0A])"
    by (simp add: list_all_iff)
qed

lemma drop_space_None: "s \<noteq> [] \<Longrightarrow> name_char (hd s) \<Longrightarrow> drop_space s = None"
proof (rule ccontr)
  assume s: "s \<noteq> []" "name_char (hd s)" and "drop_space s \<noteq> None"
  then obtain r w where "w \<in> set white_space" "s = w @ r" using drop_space_Some by fast
  with s white_space_ends [of w] white_space_nonempty [of w] show False by simp
qed

lemma drop_space_end_None: "s \<noteq> [] \<Longrightarrow> name_char (last s) \<Longrightarrow> drop_space_end s = None"
proof (rule ccontr)
  assume s: "s \<noteq> []" "name_char (last s)" and "drop_space_end s \<noteq> None"
  then obtain r w where "w \<in> set white_space" "s = r @ w" using drop_space_end_Some by fast
  with s white_space_ends [of w] white_space_nonempty [of w] show False by simp
qed

lemma drop_space_end_newline: "drop_space_end (s @ [CHR 0x0A]) = Some s"
proof -
  have nl: "[CHR 0x0A] \<in> set white_space" by code_simp
  have "find (\<lambda>w. strip_suffix w (s @ [CHR 0x0A]) \<noteq> None) white_space \<noteq> None"
    unfolding find_None_iff using nl by auto
  then obtain w where w: "find (\<lambda>w. strip_suffix w (s @ [CHR 0x0A]) \<noteq> None) white_space = Some w" by blast
  from find_SomeD [OF w] obtain r where r: "s @ [CHR 0x0A] = r @ w" "w \<in> set white_space"
    by (auto simp: strip_suffix_Some)
  then have "last w = CHR 0x0A" using white_space_nonempty [of w] by (metis last_appendR last_snoc)
  with r white_space_ends [of w] have "w = [CHR 0x0A]" by simp
  with w show ?thesis by (simp add: drop_space_end_def)
qed

lemma trim_line: "s \<noteq> [] \<Longrightarrow> list_all name_char s \<Longrightarrow> trim (s @ [CHR 0x0A]) = s"
proof -
  assume s: "s \<noteq> []" "list_all name_char s"
  then have c: "name_char (hd s)" "name_char (last s)" by (simp_all add: list_all_iff)
  have "trim_start (s @ [CHR 0x0A]) = s @ [CHR 0x0A]"
    using drop_space_None [of "s @ [CHR 0x0A]"] s c by (simp add: trim_start.simps [of "s @ [CHR 0x0A]"])
  moreover have "trim_end (s @ [CHR 0x0A]) = s"
    using drop_space_end_None [OF s(1) c(2)]
    by (simp add: trim_end.simps [of "s @ [CHR 0x0A]"] trim_end.simps [of s] drop_space_end_newline)
  ultimately show ?thesis by (simp add: trim_def)
qed

lemma name_char_ascii: "name_char c \<Longrightarrow> (of_char c :: nat) < 128"
  by (auto simp: name_char_def ascii_alphanumeric_def less_eq_char_def)

subsection \<open>Where \<open>HEAD\<close> points\<close>

lemma below_root [simp]:
  "head_path ws = ws_root ws @ [''HEAD'']" "dbs_dir ws = ws_root ws @ [''dbs'']"
  "asleep_dir ws = ws_root ws @ [''asleep'']" "ws_cas_dir ws = ws_root ws @ [''cas'']"
  by (simp_all add: head_path_def dbs_dir_def asleep_dir_def ws_cas_dir_def join_plain)

text \<open>\<open>HEAD\<close> says what was checked out. Whatever branch name the library accepts, checking it out
  and then asking for the head, with nothing going wrong in between, gives that name.\<close>

theorem head_roundtrip:
  assumes "validate_name b = Inr ()" "ws_set_head ws b f = (Inr (), f1)" "fs_quiet f"
  shows "fst (ws_head ws f1) = Inr b"
proof -
  have b: "b \<noteq> []" "list_all name_char b" using assms(1) by (simp_all add: validate_name_iff)
  obtain r f2 where c: "fs_create_dir_all f (ws_root ws) = (r, f2)" by fastforce
  with assms(2) obtain u where r: "r = Inr u" by (cases r) (simp_all add: ws_set_head_def)
  have wr: "fs_write f2 (head_path ws) (bytes_of (b @ [CHR 0x0A])) = (Inr (), f1)"
    using assms(2) c r by (auto simp: ws_set_head_def split: prod.splits)
  have look: "fs_lookup f1 (head_path ws) = Some (FileNode (bytes_of (b @ [CHR 0x0A])))" and fl: "fs_faults f1 = fs_faults f2"
    using fs_write_effect [OF wr] by simp_all
  have quiet: "fs_quiet f1"
    using create_dir_all_grows [OF c] fl assms(3) by (simp add: fs_grows_def fs_quiet_def)
  have "list_all (\<lambda>c. (of_char c :: nat) < 128) (b @ [CHR 0x0A])"
    using b(2) name_char_ascii by (simp add: list_all_iff)
  then have "utf8_valid (bytes_of (b @ [CHR 0x0A]))" by (rule utf8_valid_ascii)
  with look quiet show ?thesis
    by (simp add: ws_head_def ws_exists_def is_file_def read_to_string_def fs_read_def fs_call_quiet trim_line b)
qed

subsection \<open>Which branches there are\<close>

lemma fs_read_dir_effect:
  assumes "fs_read_dir f p = (r, f')"
  shows "fs_tree f' = fs_tree f \<and> fs_faults f' = fs_faults f \<and>
    (case r of Inr entries \<Rightarrow> is_dir f p \<and> entries = dir_entries f p
     | Inl e \<Rightarrow> e = IoNotFound \<longrightarrow> fs_lookup f p = None)"
  using assms
  by (auto simp: fs_read_dir_def fs_call_def fs_call_in_parts_def is_dir_def dir_entries_def Let_def
      split: option.splits node.splits if_splits)

lemma set_add_names: "set (add_names entries names) = set names \<union> (branch_of_entry \<circ> last) ` set entries"
  by (induction entries names rule: add_names.induct) (auto simp: Let_def)

definition entries_of :: "fs \<Rightarrow> path \<Rightarrow> path set" where
  "entries_of f dir = (if is_dir f dir then set (dir_entries f dir) else {})"

lemma list_dirs_Inr:
  "list_dirs dirs names f = (Inr ns, f') \<Longrightarrow>
     set ns = set names \<union> (\<Union>d \<in> set dirs. (branch_of_entry \<circ> last) ` entries_of f d) \<and>
     (\<forall>q. fs_lookup f' q = fs_lookup f q)"
proof (induction dirs names f arbitrary: ns f' rule: list_dirs.induct)
  case (1 names f)
  then show ?case by simp
next
  case (2 dir dirs names f)
  obtain r f1 where rd: "fs_read_dir f dir = (r, f1)" by fastforce
  note eff = fs_read_dir_effect [OF rd]
  have same: "fs_tree f1 = fs_tree f" using eff by simp
  have ent: "entries_of f1 d = entries_of f d" for d
    using same by (simp add: entries_of_def is_dir_def fs_lookup_def dir_entries_def)
  have look: "\<forall>q. fs_lookup f1 q = fs_lookup f q" using same by (simp add: fs_lookup_def)
  show ?case
  proof (cases r)
    case (Inr entries)
    then have "set entries = entries_of f dir" using eff by (simp add: entries_of_def)
    with 2(2) [OF rd [symmetric] Inr, of ns f'] 2(3) rd Inr look show ?thesis
      by (auto simp: set_add_names ent)
  next
    case (Inl e)
    show ?thesis
    proof (cases e)
      case IoNotFound
      then have "entries_of f dir = {}" using eff Inl by (simp add: entries_of_def is_dir_def)
      with 2(1) [OF rd [symmetric] Inl IoNotFound, of ns f'] 2(3) rd Inl IoNotFound look show ?thesis
        by (auto simp: ent)
    qed (use 2(3) rd Inl in simp_all)
  qed
qed

definition known_branches :: "workspace \<Rightarrow> fs \<Rightarrow> string set" where
  "known_branches ws f = (branch_of_entry \<circ> last) ` (entries_of f (dbs_dir ws) \<union> entries_of f (asleep_dir ws))"

lemma ws_branches_Inr:
  "ws_branches ws f = (Inr ns, f') \<Longrightarrow> set ns = known_branches ws f \<and> (\<forall>q. fs_lookup f' q = fs_lookup f q)"
  using list_dirs_Inr [of "[dbs_dir ws, asleep_dir ws]" "[]" f]
  by (auto simp: ws_branches_def known_branches_def image_Un simp del: list_dirs.simps below_root
      split: prod.splits sum.splits)

text \<open>Asking leaves the tree and the faults to come as they are.\<close>

definition only_asked :: "fs \<Rightarrow> fs \<Rightarrow> bool" where
  "only_asked f f' \<longleftrightarrow> fs_tree f' = fs_tree f \<and> fs_faults f' = fs_faults f"

lemma only_asked_refl [simp, intro]: "only_asked f f"
  by (simp add: only_asked_def)

lemma only_asked_trans [trans]: "only_asked f g \<Longrightarrow> only_asked g h \<Longrightarrow> only_asked f h"
  by (simp add: only_asked_def)

lemma ws_head_frame: "ws_head ws f = (r, f') \<Longrightarrow> only_asked f f'"
  by (auto simp: ws_head_def read_to_string_def fs_read_def fs_call_def fs_call_in_parts_def Let_def only_asked_def
      split: if_splits option.splits sum.splits prod.splits node.splits)

lemma list_dirs_frame: "list_dirs dirs names f = (r, f') \<Longrightarrow> only_asked f f'"
proof (induction dirs names f rule: list_dirs.induct)
  case (1 names f)
  then show ?case by simp
next
  case (2 dir dirs names f)
  obtain r f1 where rd: "fs_read_dir f dir = (r, f1)" by fastforce
  have "only_asked f f1" using fs_read_dir_effect [OF rd] by (simp add: only_asked_def)
  with 2 rd show ?case
    by (cases r; cases "projl r") (auto split: io_error.splits intro: only_asked_trans)
qed

lemma ws_branches_frame: "ws_branches ws f = (r, f') \<Longrightarrow> only_asked f f'"
  by (auto simp: ws_branches_def simp del: list_dirs.simps below_root split: prod.splits sum.splits
      dest: list_dirs_frame)

lemma only_asked_same:
  assumes "only_asked f f'"
  shows "fs_lookup f' p = fs_lookup f p" "is_file f' p = is_file f p" "is_dir f' p = is_dir f p"
    "known_branches ws f' = known_branches ws f" "is_asleep ws b f' = is_asleep ws b f" "ws_exists ws f' = ws_exists ws f"
    "fs_quiet f' = fs_quiet f"
  using assms
  by (simp_all add: only_asked_def fs_lookup_def is_file_def is_dir_def known_branches_def entries_of_def dir_entries_def
      is_asleep_def ws_exists_def fs_quiet_def)

lemma ws_resolve_frame: "ws_resolve ws explicit f = (r, f') \<Longrightarrow> only_asked f f'"
proof -
  assume run: "ws_resolve ws explicit f = (r, f')"
  obtain n f1 where h: "(case explicit of Some n \<Rightarrow> (Inr n, f) | None \<Rightarrow> ws_head ws f) = (n, f1)" by fastforce
  obtain b f2 where br: "ws_branches ws f1 = (b, f2)" by fastforce
  have t1: "only_asked f f1" using h ws_head_frame by (cases explicit) auto
  have t2: "only_asked f f2" by (rule only_asked_trans [OF t1 ws_branches_frame [OF br]])
  have "f' \<in> {f1, f2}" using run h br by (auto simp: ws_resolve_def split: sum.splits if_splits)
  with t1 t2 show ?thesis by auto
qed

text \<open>A branch that is resolved is in the pool and awake, and it is the one asked for.\<close>

lemma ws_resolve_Inr:
  assumes "ws_resolve ws explicit f = (Inr name, f')"
  shows "ws_exists ws f \<and> name \<in> known_branches ws f \<and> \<not> is_asleep ws name f \<and>
    (case explicit of Some n \<Rightarrow> name = n | None \<Rightarrow> \<exists>f1. ws_head ws f = (Inr name, f1))"
proof -
  obtain n f1 where h: "(case explicit of Some n \<Rightarrow> (Inr n, f) | None \<Rightarrow> ws_head ws f) = (n, f1)" by fastforce
  obtain b f2 where br: "ws_branches ws f1 = (b, f2)" by fastforce
  have t1: "only_asked f f1" using h ws_head_frame by (cases explicit) auto
  note t2 = ws_branches_frame [OF br]
  have n: "n = Inr name" using assms h br by (auto simp: ws_resolve_def split: sum.splits if_splits)
  obtain ns where b: "b = Inr ns" using assms h br n by (cases b) (auto simp: ws_resolve_def split: if_splits)
  have "ws_exists ws f1" "name \<in> set ns" "\<not> is_asleep ws name f2"
    using assms h br n b by (auto simp: ws_resolve_def split: if_splits)
  moreover have "set ns = known_branches ws f1" using ws_branches_Inr br b by blast
  moreover have "case explicit of Some n \<Rightarrow> name = n | None \<Rightarrow> \<exists>f1. ws_head ws f = (Inr name, f1)"
    using h n by (auto split: option.splits)
  ultimately show ?thesis
    unfolding only_asked_same(5) [OF t2] only_asked_same(4-6) [OF t1] by simp
qed

subsection \<open>An instance\<close>

definition demo_ws :: workspace where
  "demo_ws = \<lparr>ws_text = ''pool''\<rparr>"

lemma demo_ws_root [simp]: "ws_root demo_ws = [''pool'']"
  by code_simp

lemma head_roundtrip_witness:
  "fst (ws_head demo_ws (snd (ws_set_head demo_ws ''a'' demo_pool))) = Inr ''a''"
proof -
  have "validate_name ''a'' = Inr ()" by code_simp
  moreover have "fst (ws_set_head demo_ws ''a'' demo_pool) = Inr ()" by code_simp
  then have "ws_set_head demo_ws ''a'' demo_pool = (Inr (), snd (ws_set_head demo_ws ''a'' demo_pool))"
    by (metis prod.collapse)
  moreover have "fs_quiet demo_pool" by (simp add: fs_quiet_def demo_pool_def)
  ultimately show ?thesis by (rule head_roundtrip)
qed

end
