(* ===== verification/Cli_Demo.thy ===== *)
theory Cli_Demo
  imports Core_Files Cli_Workspace
begin

section \<open>A pool for the command line\<close>

text \<open>
  For the concrete instances of the commands: a pool with an awake branch \<open>a\<close> at manifest 1 and a
  branch \<open>b\<close> that sleeps, and what opening, checkpointing and forking do over any quiet file system
  with nothing in DuckDB's scratch directory.
\<close>

declare store_page_store.simps [simp del]

definition demo_cli :: fs where
  "demo_cli = \<lparr>fs_tree = [([''pool''], DirNode), ([''pool'', ''HEAD''], FileNode (bytes_of [CHR ''a'', CHR 0x0A])),
     ([''pool'', ''dbs''], DirNode), ([''pool'', ''dbs'', ''a''], DirNode), ([''pool'', ''asleep''], DirNode),
     ([''pool'', ''asleep'', ''b.json''], FileNode (bytes_of ''asleep''))], fs_faults = (\<lambda>_. None), fs_calls = 0,
     fs_done = (\<lambda>_. None), fs_gone = (\<lambda>_ _. False)\<rparr>"

definition demo_closed :: demo_world where
  "demo_closed = \<lparr>dw_open = [], dw_recorded = [([''pool'', ''dbs'', ''a''], ManifestId [1])], dw_pages = [], dw_manifests = []\<rparr>"

definition demo_scratch :: path where
  "demo_scratch = [''tmp'', ''flock.duckdb'']"

definition demo_kernel :: "unit kernel" where
  "demo_kernel = \<lparr>k_conn = (), k_path = demo_scratch, k_scratch = [''tmp'']\<rparr>"

text \<open>A file system DuckDB can be opened over.\<close>

definition demo_ready :: "fs \<Rightarrow> bool" where
  "demo_ready f \<longleftrightarrow> fs_quiet f \<and> fs_lookup f demo_scratch \<noteq> Some DirNode \<and>
     fs_lookup f [''tmp'', ''flock.duckdb.wal''] = None"

text \<open>What hydrating leaves.\<close>

definition demo_hydrated :: "fs \<Rightarrow> fs" where
  "demo_hydrated f = snd (fs_write (fs_put f [''tmp''] DirNode) demo_scratch [1, 2, 3, 4, 5])"

lemma demo_hydrated_writes:
  assumes "demo_ready f"
  shows "fs_write (fs_put f [''tmp''] DirNode) demo_scratch [1, 2, 3, 4, 5] = (Inr (), demo_hydrated f)"
    "demo_ready (demo_hydrated f)" "fs_lookup (demo_hydrated f) demo_scratch = Some (FileNode [1, 2, 3, 4, 5])"
proof -
  let ?f = "fs_put f [''tmp''] DirNode"
  have quiet: "fs_quiet ?f" using assms by (simp add: fs_quiet_def demo_ready_def)
  show wr: "fs_write ?f demo_scratch [1, 2, 3, 4, 5] = (Inr (), demo_hydrated f)"
    using assms
    by (simp add: demo_hydrated_def fs_write_def fs_call_quiet [OF quiet] is_dir_def fs_simps demo_ready_def demo_scratch_def)
  show "demo_ready (demo_hydrated f)" "fs_lookup (demo_hydrated f) demo_scratch = Some (FileNode [1, 2, 3, 4, 5])"
    using fs_write_effect [OF wr] assms by (simp_all add: demo_ready_def fs_quiet_def fs_simps demo_scratch_def)
qed

lemma demo_kernel_opens:
  assumes "demo_head (store_pager st) w = ManifestId [1]" "demo_ready f"
  shows "kernel_open demo_duck (store_page_store demo_subst st) w opts_default f = (Inr demo_kernel, w, demo_hydrated f)"
proof -
  let ?P = "store_page_store demo_subst st" and ?f = "fs_put f [''tmp''] DirNode"
  have res: "fst (pst_resolve demo_pst (ManifestId [1]) (ManifestId [1])) = Inr [(0, PageId [0]), (1, PageId [1])]"
    "fst (pst_read demo_pst (ManifestId [1]) (ManifestId [1]) 0) = Inr [1, 2, 3, 4]"
    "fst (pst_read demo_pst (ManifestId [1]) (ManifestId [1]) 1) = Inr [5]"
    by (simp_all add: demo_pst_def demo_view_def)
  have hyd: "hydrate ?P w (ManifestId [1]) demo_scratch ?f = (Inr (), w, demo_hydrated f)"
    using res demo_hydrated_writes(1) [OF assms(2)] by (simp add: hydrate_def Let_def)
  have "pst_head ?P w = ManifestId [1]" using assms(1) by simp
  with hyd show ?thesis
    by (simp add: kernel_open_def demo_duck_def Let_def opts_default_def demo_open_at demo_kernel_def demo_scratch_def)
qed

text \<open>An empty database.\<close>

definition demo_cleared :: "fs \<Rightarrow> fs" where
  "demo_cleared f = snd (fs_remove_file (fs_put f [''tmp''] DirNode) demo_scratch)"

lemma demo_kernel_opens_empty:
  assumes "demo_head (store_pager st) w = ManifestId []" "fs_quiet f" "fs_lookup f demo_scratch = None"
  shows "kernel_open demo_duck (store_page_store demo_subst st) w opts_default f = (Inr demo_kernel, w, demo_cleared f)"
proof -
  let ?P = "store_page_store demo_subst st" and ?f = "fs_put f [''tmp''] DirNode"
  have res: "fst (pst_resolve demo_pst (ManifestId []) (ManifestId [])) = Inr []" by (simp add: demo_pst_def)
  have quiet: "fs_quiet ?f" using assms(2) by (simp add: fs_quiet_def)
  have "fs_remove_file ?f demo_scratch = (Inl IoNotFound, demo_cleared f)"
    using assms(3) by (simp add: demo_cleared_def fs_remove_file_def fs_call_quiet [OF quiet] fs_simps demo_scratch_def)
  then have hyd: "hydrate ?P w (ManifestId []) demo_scratch ?f = (Inr (), w, demo_cleared f)"
    using res by (simp add: hydrate_def Let_def)
  have "pst_head ?P w = ManifestId []" using assms(1) by simp
  with hyd show ?thesis
    by (simp add: kernel_open_def demo_duck_def Let_def opts_default_def demo_open_at demo_kernel_def demo_scratch_def)
qed

lemma demo_snapshots:
  assumes "db_store db = Local h" "db_kernel db = demo_kernel" "demo_head h w = ManifestId [1]" "demo_ready f"
    and "fs_lookup f demo_scratch = Some (FileNode [1, 2, 3, 4, 5])"
  shows "db_snapshot demo_duck demo_subst db w f = (Ok (ManifestId [1]), db, w, f\<lparr>fs_calls := fs_calls f + 2\<rparr>)"
proof -
  have res: "fst (pst_resolve demo_pst (ManifestId [1]) (ManifestId [1])) = Inr [(0, PageId [0]), (1, PageId [1])]"
    "fst (pst_read demo_pst (ManifestId [1]) (ManifestId [1]) 0) = Inr [1, 2, 3, 4]"
    "fst (pst_read demo_pst (ManifestId [1]) (ManifestId [1]) 1) = Inr [5]"
    by (simp_all add: demo_pst_def demo_view_def)
  let ?f1 = "f\<lparr>fs_calls := Suc (fs_calls f)\<rparr>"
  have quiet: "fs_quiet f" "fs_quiet ?f1" using assms(4) by (simp_all add: demo_ready_def fs_quiet_def)
  have "wal_path demo_scratch = [''tmp'', ''flock.duckdb.wal'']"
    by (simp add: demo_scratch_def wal_path_def with_extension_def file_name_def file_stem_def)
  then have wal: "fold_wal demo_duck (db_kernel db) f = (Inr (), db_kernel db, ?f1)"
    using assms(4) unfolding assms(2)
    by (simp add: fold_wal_def kernel_batch_def demo_duck_def demo_kernel_def fs_metadata_len_def follow.simps
        fs_call_quiet [OF quiet(1)] Let_def demo_ready_def)
  have parts: "store_pager (db_store db) = h" "k_path (db_kernel db) = demo_scratch" by (simp_all add: assms(1,2) demo_kernel_def)
  have "stage_file (store_page_store demo_subst (db_store db)) 4 (ManifestId [1]) [1, 2, 3, 4, 5] w = (Inr [], w)"
    using res by (simp add: stage_file_def chunks.simps assms(1) word_le_nat_alt)
  moreover have "pst_commit (store_page_store demo_subst (db_store db)) w [] = (Inr (ManifestId [1]), w)"
    using assms(3) by (simp add: assms(1) delegate_to_pager_def durable_commit_def store_page_store.simps)
  moreover have "fs_read ?f1 demo_scratch = (Inr [1, 2, 3, 4, 5], f\<lparr>fs_calls := fs_calls f + 2\<rparr>)"
    using assms(5) by (simp add: fs_read_def fs_call_quiet [OF quiet(2)])
  ultimately have "persist (store_page_store demo_subst (db_store db)) w demo_scratch ?f1 =
      (Ok (ManifestId [1]), w, f\<lparr>fs_calls := fs_calls f + 2\<rparr>)"
    using assms(3) by (simp add: persist_def Let_def assms(1))
  with wal show ?thesis by (simp add: db_snapshot_def kernel_checkpoint_def parts(2))
qed

lemma demo_opens_branch:
  assumes "validate_name b = Inr ()" "fst (link_db_to_shared_cas root b f) = Inr d"
    "demo_ready (snd (link_db_to_shared_cas root b f))" "demo_recorded w d = ManifestId [1]"
  shows "flock_open demo_duck demo_subst root b w f =
      (Inr \<lparr>db_name = b, db_root = root, db_store = Local (length (dw_open w), Some d), db_kernel = demo_kernel,
         db_opts = opts_default\<rparr>, w\<lparr>dw_open := dw_open w @ [(Some d, ManifestId [1])]\<rparr>,
       demo_hydrated (snd (link_db_to_shared_cas root b f)))"
proof -
  let ?h = "(length (dw_open w), Some d) :: demo_handle" and ?f1 = "snd (link_db_to_shared_cas root b f)"
  let ?w1 = "w\<lparr>dw_open := dw_open w @ [(Some d, ManifestId [])]\<rparr>" and ?w2 = "w\<lparr>dw_open := dw_open w @ [(Some d, ManifestId [1])]\<rparr>"
  have link: "link_db_to_shared_cas root b f = (Inr d, ?f1)" using assms(2) by (metis prod.collapse)
  have op: "sb_open demo_subst d w = (Inr ?h, ?w1)" by (simp add: demo_open_at_def)
  have "demo_recorded ?w1 d = ManifestId [1]" using assms(4) by (simp add: demo_recorded_def)
  then have rec: "sb_recover demo_subst ?h ?w1 = (Inr (), ?w2)" by (simp add: demo_set_def)
  have "demo_head (store_pager (Local ?h)) ?w2 = ManifestId [1]" by (simp add: demo_head_def)
  note ko = demo_kernel_opens [OF this assms(3)]
  show ?thesis
    unfolding flock_open_def flock_open_with_def
    by (subst link) (simp only: assms(1) op rec ko Let_def prod.case sum.case)
qed

lemma demo_forks_branch:
  assumes "db_store db = Local h" "db_kernel db = demo_kernel" "db_opts db = opts_default" "demo_head h w = ManifestId [1]"
    "demo_ready f" "fs_lookup f demo_scratch = Some (FileNode [1, 2, 3, 4, 5])"
    and "validate_name name = Inr ()" "\<not> path_exists f (db_dir (db_root db) name)"
    and "link_db_to_shared_cas (db_root db) name (f\<lparr>fs_calls := fs_calls f + 2\<rparr>) = (Inr d, f1)" "demo_ready f1"
    and "demo_recorded w d = ManifestId []"
  shows "db_fork demo_duck demo_subst db name w f =
      (Ok \<lparr>db_name = name, db_root = db_root db, db_store = Local (length (dw_open w), Some d), db_kernel = demo_kernel,
         db_opts = opts_default\<rparr>, db, w\<lparr>dw_open := dw_open w @ [(Some d, ManifestId [1])],
         dw_recorded := (d, ManifestId [1]) # dw_recorded w\<rparr>, demo_hydrated f1)"
proof -
  let ?h = "(length (dw_open w), Some d) :: demo_handle"
  let ?w1 = "w\<lparr>dw_open := dw_open w @ [(Some d, ManifestId [])]\<rparr>" and ?w2 = "w\<lparr>dw_open := dw_open w @ [(Some d, ManifestId [1])]\<rparr>"
  define w5 where "w5 = ?w2\<lparr>dw_recorded := (d, ManifestId [1]) # dw_recorded w\<rparr>"
  note snap = demo_snapshots [OF assms(1,2,4,5,6)]
  have op: "sb_open demo_subst d w = (Inr ?h, ?w1)" by (simp add: demo_open_at_def)
  have "demo_recorded ?w1 d = ManifestId []" using assms(11) by (simp add: demo_recorded_def)
  then have rec: "sb_recover demo_subst ?h ?w1 = (Inr (), ?w1)" by (simp add: demo_set_def)
  have pos: "pg_set_head_to demo_subst ?h (ManifestId [1]) ?w1 = (Inr (), ?w2)" by (simp add: demo_set_def)
  have head: "demo_head ?h ?w2 = ManifestId [1]" "demo_head ?h w5 = ManifestId [1]" by (simp_all add: demo_head_def w5_def)
  have cp: "sb_checkpoint demo_subst ?h ?w2 = (Inr (), w5)" using head by (simp add: w5_def)
  have "demo_head (store_pager (Local ?h)) w5 = ManifestId [1]" using head(2) by simp
  note ko = demo_kernel_opens [OF this assms(10)]
  have "db_fork demo_duck demo_subst db name w f =
      (Ok \<lparr>db_name = name, db_root = db_root db, db_store = Local ?h, db_kernel = demo_kernel, db_opts = opts_default\<rparr>,
       db, w5, demo_hydrated f1)"
    unfolding db_fork_def
    by (simp only: assms(3,7,8,9) snap op rec pos cp ko Let_def prod.case sum.case outcome.case if_False)
  then show ?thesis by (simp add: w5_def)
qed

end
