(* ===== verification/Cli_Commands.thy ===== *)
theory Cli_Commands
  imports Cli_Demo
begin

section \<open>The commands that only read and fork\<close>

text \<open>
  \<open>crates/flock-cli/src/cmd/branch.rs\<close>, \<open>cmd/sql.rs\<close> and \<open>render.rs\<close>. A command returns its outcome, the
  world and the file system it leaves, and the lines it printed, on every path; its databases are
  closed as it returns, the last one opened first, also when it panics. Arrow is third-party code and
  a parameter (\<open>cli_env\<close>), as are the tier's backend, the runtime, and the files substrate keeps on
  disk: \<open>ce_flush\<close> shows in the file system what substrate has written, \<open>ce_reload\<close> shows substrate what
  the command has written or removed.
\<close>

record ('w, 'a, 'b, 'col, 'o) cli_env =
  ce_json :: json_ops
  ce_fields :: "'a \<Rightarrow> string list"
  ce_columns :: "'b \<Rightarrow> 'col list"
  ce_int64 :: "'col \<Rightarrow> int list option"
  ce_pretty :: "'a \<Rightarrow> 'b list \<Rightarrow> string + string"
  ce_backend :: "path \<Rightarrow> string + 'o"
  ce_runtime :: "io_error + unit"
  ce_flush :: "'w \<Rightarrow> fs \<Rightarrow> fs"
  ce_reload :: "fs \<Rightarrow> 'w \<Rightarrow> 'w"
  ce_order :: "page_id list \<Rightarrow> page_id list"

datatype cli_line =
    SayForked string string
  | SayStillOn string string
  | SaySwitched string
  | SayBranch bool string bool
  | SayIsAsleep string
  | SayRows string
  | SayImported int string string
  | SayWentToSleep string path
  | SayRecordAt path
  | SayPagesKept
  | SayWakeWith string
  | SayAwake string nat path

type_synonym 'w cli_result = "(cli_error, unit) outcome \<times> 'w \<times> fs \<times> cli_line list"

definition close_db :: "('h, 'c) db \<Rightarrow> fs \<Rightarrow> fs" where
  "close_db db f = kernel_drop (db_kernel db) f"

subsection \<open>Branches\<close>

definition cli_fork :: "('c, 'a, 'b) duck_ops \<Rightarrow> ('w, 'h, 't, 'm, 'o) subst \<Rightarrow> workspace \<Rightarrow> string option \<Rightarrow>
    string \<Rightarrow> bool \<Rightarrow> 'w \<Rightarrow> fs \<Rightarrow> 'w cli_result" where
  "cli_fork D B ws from_branch name no_checkout w f =
     (case ws_resolve ws from_branch f of
        (Inl e, f1) \<Rightarrow> (Err e, w, f1, [])
      | (Inr parent, f1) \<Rightarrow>
     (case flock_open D B (ws_root ws) parent w f1 of
        (Inl e, w1, f2) \<Rightarrow> (Err (CFlock e), w1, f2, [])
      | (Inr db, w1, f2) \<Rightarrow>
     (case db_fork D B db name w1 f2 of
        (Err e, db', w2, f3) \<Rightarrow> (Err (CFlock e), w2, close_db db' f3, [])
      | (Panic, db', w2, f3) \<Rightarrow> (Panic, w2, close_db db' f3, [])
      | (Ok forked, db', w2, f3) \<Rightarrow>
          (let out = [SayForked parent name]
           in if no_checkout then
                (Ok (), w2, close_db db' (close_db forked f3), out @ [SayStillOn parent name])
              else
                (case ws_set_head ws name f3 of
                   (Inl e, f4) \<Rightarrow> (Err e, w2, close_db db' (close_db forked f4), out)
                 | (Inr _, f4) \<Rightarrow> (Ok (), w2, close_db db' (close_db forked f4), out @ [SaySwitched name]))))))"

definition cli_list :: "workspace \<Rightarrow> 'w \<Rightarrow> fs \<Rightarrow> 'w cli_result" where
  "cli_list ws w f =
     (if \<not> ws_exists ws f then (Err (NoPool (ws_root ws)), w, f, [])
      else
        (case ws_head ws f of
           (Inl e, f1) \<Rightarrow> (Err e, w, f1, [])
         | (Inr head, f1) \<Rightarrow>
             (case ws_branches ws f1 of
                (Inl e, f2) \<Rightarrow> (Err e, w, f2, [])
              | (Inr names, f2) \<Rightarrow>
                  (Ok (), w, f2, map (\<lambda>name. SayBranch (name = head) name (is_asleep ws name f2)) names))))"

definition cli_checkout :: "workspace \<Rightarrow> string \<Rightarrow> 'w \<Rightarrow> fs \<Rightarrow> 'w cli_result" where
  "cli_checkout ws name w f =
     (if \<not> ws_exists ws f then (Err (NoPool (ws_root ws)), w, f, [])
      else
        (case ws_branches ws f of
           (Inl e, f1) \<Rightarrow> (Err e, w, f1, [])
         | (Inr known, f1) \<Rightarrow>
             if name \<notin> set known then (Err (UnknownBranch name known), w, f1, [])
             else
               (case ws_set_head ws name f1 of
                  (Inl e, f2) \<Rightarrow> (Err e, w, f2, [])
                | (Inr _, f2) \<Rightarrow>
                    (Ok (), w, f2, SaySwitched name # (if is_asleep ws name f2 then [SayIsAsleep name] else [])))))"

subsection \<open>SQL\<close>

definition render_table :: "('w, 'a, 'b, 'col, 'o) cli_env \<Rightarrow> ('a, 'b) arrow_stream \<Rightarrow> cli_error + string" where
  "render_table C rows =
     (if ce_fields C (as_schema rows) = [] then Inr ''OK''
      else map_err CRender (ce_pretty C (as_schema rows) (as_batches rows)))"

text \<open>The first cell of a result; each step may find nothing.\<close>

fun first_of :: "'z list \<Rightarrow> 'z option" where
  "first_of [] = None"
| "first_of (x # xs) = Some x"

definition first_i64 :: "('w, 'a, 'b, 'col, 'o) cli_env \<Rightarrow> ('a, 'b) arrow_stream \<Rightarrow> int option" where
  "first_i64 C rows =
     Option.bind (first_of (as_batches rows)) (\<lambda>batch.
     Option.bind (first_of (ce_columns C batch)) (\<lambda>column.
     Option.bind (ce_int64 C column) first_of))"

definition cli_sql :: "('c, 'a, 'b) duck_ops \<Rightarrow> ('w, 'h, 't, 'm, 'o) subst \<Rightarrow> ('w, 'a, 'b, 'col, 'o) cli_env \<Rightarrow>
    workspace \<Rightarrow> string option \<Rightarrow> string \<Rightarrow> 'w \<Rightarrow> fs \<Rightarrow> 'w cli_result" where
  "cli_sql D B C ws branch query w f =
     (case ws_resolve ws branch f of
        (Inl e, f1) \<Rightarrow> (Err e, w, f1, [])
      | (Inr name, f1) \<Rightarrow>
     (case flock_open D B (ws_root ws) name w f1 of
        (Inl e, w1, f2) \<Rightarrow> (Err (CFlock e), w1, f2, [])
      | (Inr db, w1, f2) \<Rightarrow>
     (case db_query D db query f2 of
        (Inl e, db1, f3) \<Rightarrow> (Err (CFlock e), w1, close_db db1 f3, [])
      | (Inr rows, db1, f3) \<Rightarrow>
     (case db_snapshot D B db1 w1 f3 of
        (Err e, db2, w2, f4) \<Rightarrow> (Err (CFlock e), w2, close_db db2 f4, [])
      | (Panic, db2, w2, f4) \<Rightarrow> (Panic, w2, close_db db2 f4, [])
      | (Ok _, db2, w2, f4) \<Rightarrow>
          (case render_table C rows of
             Inl e \<Rightarrow> (Err e, w2, close_db db2 f4, [])
           | Inr text \<Rightarrow> (Ok (), w2, close_db db2 f4, [SayRows text]))))))"

subsection \<open>What a fork leaves\<close>

declare store_page_store.simps [simp del]

lemma ws_set_head_keeps:
  assumes "ws_set_head ws b f = (r, f')" "fs_lookup f q = Some n" "q \<noteq> head_path ws"
  shows "fs_lookup f' q = Some n"
proof -
  obtain c f1 where c: "fs_create_dir_all f (ws_root ws) = (c, f1)" by fastforce
  obtain e f2 where e: "fs_write f1 (head_path ws) (bytes_of (b @ [CHR 0x0A])) = (e, f2)" by fastforce
  have "fs_lookup f1 q = Some n" using create_dir_all_grows [OF c] assms(2) by (simp add: fs_grows_def)
  moreover have "fs_lookup f2 q = fs_lookup f1 q" using fs_write_effect [OF e] assms(3) by simp
  moreover have "f' \<in> {f1, f2}" using assms(1) c e by (auto simp: ws_set_head_def split: sum.splits)
  ultimately show ?thesis by auto
qed

lemma ws_set_head_writes:
  "ws_set_head ws b f = (Inr (), f') \<Longrightarrow> fs_lookup f' (head_path ws) = Some (FileNode (bytes_of (b @ [CHR 0x0A])))"
  using fs_write_effect [of _ "ws_root ws @ [''HEAD'']" "bytes_of (b @ [CHR 0x0A])"]
  by (fastforce simp: ws_set_head_def head_path_def map_err_def split: prod.splits sum.splits)

lemma close_db_holds: "db_away root db \<Longrightarrow> holds root f g \<Longrightarrow> holds root f (close_db db g)"
  using kernel_drop_holds holds_trans unfolding close_db_def by blast

definition holds_but_head :: "workspace \<Rightarrow> fs \<Rightarrow> fs \<Rightarrow> bool" where
  "holds_but_head ws f f' \<longleftrightarrow>
     (\<forall>q n. prefix (ws_root ws) q \<longrightarrow> q \<noteq> head_path ws \<longrightarrow> fs_lookup f q = Some n \<longrightarrow> fs_lookup f' q = Some n)"

lemma holds_but_headI: "holds (ws_root ws) f f' \<Longrightarrow> holds_but_head ws f f'"
  by (simp add: holds_def holds_but_head_def)

lemma holds_but_head_trans: "holds_but_head ws f g \<Longrightarrow> holds_but_head ws g h \<Longrightarrow> holds_but_head ws f h"
  by (simp add: holds_but_head_def)

lemma ws_set_head_holds: "ws_set_head ws b f = (r, f') \<Longrightarrow> holds_but_head ws f f'"
  unfolding holds_but_head_def by (blast intro: ws_set_head_keeps)

lemma db_fork_steps:
  assumes "db_fork D B db name w f = (Ok child, db', w', f')"
  obtains f1 f2 x1 x2 k where "validate_name name = Inr ()"
    "link_db_to_shared_cas (db_root db) name f1 = (Inr (db_dir (db_root db) name), f2)"
    "kernel_open D (store_page_store B x1) x2 (db_opts db) f2 = (Inr k, w', f')"
proof -
  from assms obtain m w1 f1 dir f2 h w5 k where v: "validate_name name = Inr ()"
    and link: "link_db_to_shared_cas (db_root db) name f1 = (Inr dir, f2)"
    and ko: "kernel_open D (store_page_store B (Local h)) w5 (db_opts db) f2 = (Inr k, w', f')"
    by (auto simp: db_fork_def Let_def split: sum.splits prod.splits outcome.splits if_splits)
  from that [OF v link [unfolded link_returns_dir [OF link]] ko] show thesis .
qed

lemma flock_open_root: "flock_open_with D B root name opts w f = (Inr db, w', f') \<Longrightarrow> db_root db = root"
  by (auto simp: flock_open_with_def Let_def split: sum.splits prod.splits)

lemma cli_fork_Ok:
  assumes law: "duck_law D (ws_root ws)" and run: "cli_fork D B ws from_branch name nc w f = (Ok (), w', f', out)"
  shows "holds_but_head ws f f' \<and> validate_name name = Inr () \<and> path_exists f' (db_dir (ws_root ws) name) \<and>
    ws_exists ws f'"
proof -
  let ?root = "ws_root ws"
  obtain parent f1 where res: "ws_resolve ws from_branch f = (Inr parent, f1)"
    using run by (auto simp: cli_fork_def split: sum.splits prod.splits)
  obtain db w1 f2 where op: "flock_open D B ?root parent w f1 = (Inr db, w1, f2)"
    using run res by (auto simp: cli_fork_def split: sum.splits prod.splits)
  obtain child db' f3 where fk: "db_fork D B db name w1 f2 = (Ok child, db', w', f3)"
    and last: "f' = close_db db' (close_db child f3) \<or>
      (\<exists>f4. ws_set_head ws name f3 = (Inr (), f4) \<and> f' = close_db db' (close_db child f4))"
    using run res op by (auto simp: cli_fork_def Let_def split: sum.splits prod.splits outcome.splits if_splits)
  have h1: "holds ?root f f1" using only_asked_same(1) [OF ws_resolve_frame [OF res]] by (simp add: holds_lookups)
  note o2 = flock_open_holds [OF law op [unfolded flock_open_def]]
  note k3 = db_fork_holds [OF law fk]
  have away: "db_away ?root db'" "db_away ?root child" using o2 k3 by simp_all
  have root: "db_root db = ?root" using flock_open_root [OF op [unfolded flock_open_def]] .
  have h3: "holds ?root f f3" using h1 o2 k3 holds_trans by blast
  have close: "holds ?root g (close_db db' (close_db child g))" for g
    using close_db_holds [OF away(1) close_db_holds [OF away(2) holds_refl]] .
  obtain ff1 ff2 x1 x2 k where v: "validate_name name = Inr ()"
    and lk: "link_db_to_shared_cas ?root name ff1 = (Inr (db_dir ?root name), ff2)"
    and ko: "kernel_open D (store_page_store B x1) x2 (db_opts db) ff2 = (Inr k, w', f3)"
    using db_fork_steps [OF fk, unfolded root] by blast
  have pre: "prefix ?root (db_dir ?root name)" "db_dir ?root name \<noteq> head_path ws"
    using db_dir_valid [OF v] by (auto simp del: append_assoc)
  have dir: "path_exists f3 (db_dir ?root name)"
    using link_makes_dir [OF lk] kernel_open_holds [OF law ko] pre(1) by (auto simp: path_exists_def holds_def)
  obtain f4 where f4: "holds_but_head ws f3 f4" "f' = close_db db' (close_db child f4)"
    using last ws_set_head_holds holds_but_headI [OF holds_refl] by blast
  have "holds_but_head ws f3 f'" using holds_but_head_trans [OF f4(1) holds_but_headI [OF close]] f4(2) by simp
  with dir pre have "path_exists f' (db_dir ?root name)" by (auto simp: path_exists_def holds_but_head_def)
  moreover have "ws_exists ws f3"
    using holds_file [OF h3] ws_resolve_Inr [OF res] by (simp add: ws_exists_def)
  then have "ws_exists ws f4 \<or> f4 = f3" if "f4 = f3 \<or> ws_set_head ws name f3 = (Inr (), f4)" for f4
    using that ws_set_head_writes by (fastforce simp: ws_exists_def is_file_def)
  then have "ws_exists ws f'" using last \<open>ws_exists ws f3\<close> holds_file [OF close] ws_set_head_writes
    by (fastforce simp: ws_exists_def is_file_def)
  ultimately show ?thesis
    using v \<open>holds_but_head ws f3 f'\<close> holds_but_headI [OF h3] holds_but_head_trans by blast
qed

lemma sleep_record_valid:
  assumes "validate_name name = Inr ()"
  shows "sleep_record_path ws name = ws_root ws @ [''asleep'', name @ ''.json'']"
proof -
  have "CHR ''/'' \<notin> set (name @ ''.json'')"
    using assms name_char_plain by (auto simp: validate_name_iff list_all_iff)
  then show ?thesis using assms by (cases name) (simp_all add: sleep_record_path_def join_plain validate_name_iff)
qed

text \<open>A name the listing shows whose record is there is refused as asleep, wherever a branch is resolved.\<close>

lemma asleep_known: "is_dir f (asleep_dir ws) \<Longrightarrow> is_asleep ws name f \<Longrightarrow> validate_name name = Inr () \<Longrightarrow>
    name \<in> known_branches ws f"
proof -
  assume dir: "is_dir f (asleep_dir ws)" and rec: "is_asleep ws name f" and v: "validate_name name = Inr ()"
  let ?p = "asleep_dir ws @ [name @ ''.json'']"
  have "fs_lookup f ?p \<noteq> None" using rec sleep_record_valid [OF v, of ws]
    by (auto simp: is_asleep_def is_file_def split: option.splits)
  then have "?p \<in> fst ` set (fs_tree f)" by (simp add: fs_lookup_def map_of_eq_None_iff)
  then have "?p \<in> set (dir_entries f (asleep_dir ws))" by (simp add: dir_entries_def butlast_append)
  with dir have "?p \<in> entries_of f (asleep_dir ws)" by (simp add: entries_of_def)
  moreover have "branch_of_entry (last ?p) = name" by (simp add: branch_of_entry_def strip_suffix_def)
  ultimately show ?thesis unfolding known_branches_def by (metis UnI2 comp_apply image_eqI)
qed

lemma resolve_asleep:
  assumes "ws_exists ws f" "name \<in> known_branches ws f" "is_asleep ws name f" "ws_branches ws f = (Inr known, f2)"
  shows "name \<in> set known" "is_asleep ws name f2" "ws_resolve ws (Some name) f = (Inl (BranchAsleep name), f2)"
proof -
  show k: "name \<in> set known" using ws_branches_Inr [OF assms(4)] assms(2) by blast
  show a: "is_asleep ws name f2" using only_asked_same(5) [OF ws_branches_frame [OF assms(4)]] assms(3) by simp
  show "ws_resolve ws (Some name) f = (Inl (BranchAsleep name), f2)"
    using assms(1,4) k a by (simp add: ws_resolve_def)
qed

text \<open>C27: a branch can be forked onto the name of one that sleeps. The name is checked against the
  directories of the awake branches only, so such a fork goes through; when it has reported success the
  sleep record is still there beside the new branch's directory. From then on what resolves the branch
  refuses it as asleep, \<open>flock sql\<close> and a further \<open>flock branch\<close> from it among them, though it was never
  put to sleep; \<open>flock checkout\<close> accepts it and calls it asleep. (Provided only that the pool's
  directories can be listed.)\<close>

theorem sleeping_name_forked:
  assumes "duck_law D (ws_root ws)" "cli_fork D B ws from_branch name nc w f = (Ok (), w', f', out)"
    and "is_asleep ws name f" "is_dir f (asleep_dir ws)" "ws_branches ws f' = (Inr known, f2)"
  shows "is_asleep ws name f' \<and> path_exists f' (db_dir (ws_root ws) name) \<and>
    ws_resolve ws (Some name) f' = (Inl (BranchAsleep name), f2) \<and>
    cli_sql D B C ws (Some name) query w2 f' = (Err (BranchAsleep name), w2, f2, []) \<and>
    cli_fork D B ws (Some name) name2 nc2 w2 f' = (Err (BranchAsleep name), w2, f2, []) \<and>
    (\<forall>f3. ws_set_head ws name f2 = (Inr (), f3) \<longrightarrow>
       cli_checkout ws name w2 f' = (Ok (), w2, f3, [SaySwitched name, SayIsAsleep name]))"
proof -
  note k = cli_fork_Ok [OF assms(1,2)]
  then have v: "validate_name name = Inr ()" by blast
  note path = sleep_record_valid [OF v, of ws]
  have a: "is_asleep ws name f'" and d: "is_dir f' (asleep_dir ws)"
    using k assms(3,4) path
    by (auto simp: is_asleep_def is_file_def is_dir_def holds_but_head_def split: option.splits node.splits)
  have e: "ws_exists ws f'" using k by blast
  note res = resolve_asleep [OF e asleep_known [OF d a v] a assms(5)]
  have "is_asleep ws name f3" if "ws_set_head ws name f2 = (Inr (), f3)" for f3
    using res(2) ws_set_head_keeps [OF that] path
    by (auto simp: is_asleep_def is_file_def split: option.splits node.splits)
  with a k e res assms(5) show ?thesis by (auto simp: cli_sql_def cli_fork_def cli_checkout_def)
qed

text \<open>C28: a branch whose name ends in \<open>.json\<close> is lost as it is made. The library accepts the name and
  the fork succeeds, but the listing cuts the suffix off directories as well as off sleep records: the
  branch is shown under another name, and what resolves it refuses it, as unknown when the listing
  succeeds.\<close>

theorem json_branch_lost:
  assumes "duck_law D (ws_root ws)" "cli_fork D B ws from_branch (n @ ''.json'') nc w f = (Ok (), w', f', out)"
    and "fs_lookup f' (dbs_dir ws @ [n @ ''.json.json'']) = None"
    and "fs_lookup f' (asleep_dir ws @ [n @ ''.json.json'']) = None"
  shows "path_exists f' (db_dir (ws_root ws) (n @ ''.json'')) \<and> n @ ''.json'' \<notin> known_branches ws f' \<and>
    (\<exists>e f2. ws_resolve ws (Some (n @ ''.json'')) f' = (Inl e, f2)) \<and>
    (\<forall>known f2. ws_branches ws f' = (Inr known, f2) \<longrightarrow>
       ws_resolve ws (Some (n @ ''.json'')) f' = (Inl (UnknownBranch (n @ ''.json'') known), f2))"
proof -
  let ?name = "n @ ''.json''"
  note k = cli_fork_Ok [OF assms(1,2)]
  have unseen: "?name \<notin> known_branches ws f'"
  proof
    assume "?name \<in> known_branches ws f'"
    then obtain e d where e: "e \<in> entries_of f' d" "branch_of_entry (last e) = ?name" "d \<in> {dbs_dir ws, asleep_dir ws}"
      by (auto simp: known_branches_def)
    then have p: "e \<noteq> []" "butlast e = d" "e \<in> fst ` set (fs_tree f')"
      by (auto simp: entries_of_def dir_entries_def split: if_splits)
    from e(2) have "last e = ?name @ ''.json'' \<or> (last e = ?name \<and> strip_suffix ''.json'' ?name = None)"
      by (auto simp: branch_of_entry_def strip_suffix_Some split: option.splits)
    then have "last e = n @ ''.json.json''" by auto
    with p have "e = d @ [n @ ''.json.json'']" by (metis append_butlast_last_id)
    with e(3) assms(3,4) have "fs_lookup f' e = None" by auto
    with p(1,3) show False by (simp add: fs_lookup_def map_of_eq_None_iff)
  qed
  have "ws_resolve ws (Some ?name) f' = (Inl (UnknownBranch ?name known), f2)"
    if "ws_branches ws f' = (Inr known, f2)" for known f2
    using that ws_branches_Inr [OF that] unseen k by (simp add: ws_resolve_def)
  moreover obtain r f2 where res: "ws_resolve ws (Some ?name) f' = (r, f2)" by fastforce
  with unseen ws_resolve_Inr [of ws "Some ?name" f'] have "\<exists>e. r = Inl e" by (cases r) auto
  ultimately show ?thesis using unseen k res by blast
qed

subsection \<open>What a query commits\<close>

lemma db_query_frame: "db_query D db sql f = (r, db', f') \<Longrightarrow> \<exists>k. db' = db\<lparr>db_kernel := k\<rparr>"
  by (auto simp: db_query_def split: prod.splits)

lemma opened_snapshot_records:
  assumes law: "substrate_law B V" and inv: "sv_inv V w"
    and op: "flock_open D B root name w f1 = (Inr db, w1, f2)" and db1: "db1 = db\<lparr>db_kernel := k\<rparr>"
    and sn: "db_snapshot D B db1 w1 f3 = (Ok m, db2, w2, f4)"
  shows "\<exists>c f5. duck_batch D (k_conn k) ''CHECKPOINT'' f3 = (Inr (), c, f5) \<and>
    sv_recorded V w2 (db_dir root name) = m \<and>
    (\<forall>bs. fs_lookup f5 (k_path k) = Some (FileNode bs) \<longrightarrow> length bs \<le> isize_max \<longrightarrow>
       sv_pages V m = layout (sb_default_page_size B) bs) \<and>
    (\<forall>d. d \<noteq> db_dir root name \<longrightarrow> sv_recorded V w2 d = sv_recorded V w d)"
proof -
  let ?d = "db_dir root name"
  note o = flock_open_Inr [OF law inv op [unfolded flock_open_def]]
  have ok1: "db_ok B V db1 w1" "db_synced B V db1 w1" "db_home db1 = Some ?d" using o db1 by simp_all
  have rec: "sv_recorded V w1 = sv_recorded V w" using o by (auto simp: still_def)
  note mv = db_snapshot_moves [OF law ok1(1) sn]
  have size: "pg_page_size B (db_handle db1) w1 = sb_default_page_size B" using ok1 by (simp add: db_synced_def)
  from db_snapshot_Ok [OF law ok1(1,2) sn, unfolded size] obtain c f5 where
    head: "db_head B db2 w2 = m" "db_synced B V db2 w2" and
    ck: "duck_batch D (k_conn k) ''CHECKPOINT'' f3 = (Inr (), c, f5)" and
    pages: "\<forall>bs. fs_lookup f5 (k_path k) = Some (FileNode bs) \<longrightarrow> length bs \<le> isize_max \<longrightarrow>
      sv_pages V m = layout (sb_default_page_size B) bs" using db1 by auto
  have "db_home db2 = Some ?d" using mv ok1(3) by auto
  then have "sv_recorded V w2 ?d = m" using head by (simp add: db_synced_def)
  moreover have "sv_dir V (db_handle db1) = Some ?d" using ok1 by (simp add: db_ok_def)
  then have "\<forall>d. d \<noteq> ?d \<longrightarrow> sv_recorded V w2 d = sv_recorded V w d"
    using mv rec by (auto simp: only_moves_def)
  ultimately show ?thesis using ck pages by blast
qed

lemma open_records_nothing:
  assumes "substrate_law B V" "sv_inv V w" "flock_open D B root name w f1 = (Inr db, w1, f2)"
  shows "sv_recorded V w1 = sv_recorded V w"
  using flock_open_Inr [OF assms(1,2) assms(3) [unfolded flock_open_def]] by (auto simp: still_def)

text \<open>C8: what \<open>flock sql\<close> prints is committed. It succeeds exactly when it prints; it prints the rows of
  the query on the branch it resolved, and by then the log of that branch records a manifest whose pages
  are the file DuckDB checkpointed after the query. No other branch is touched, and a query that failed
  has committed nothing at all.\<close>

theorem sql_commits:
  assumes "substrate_law B V" "sv_inv V w" "cli_sql D B C ws branch query w f = (r, w', f', out)"
  shows "(r = Ok () \<longleftrightarrow> out \<noteq> []) \<and>
    (out = [] \<or>
      (\<exists>name f1 db w1 f2 rows db1 f3 text c f4 m.
         ws_resolve ws branch f = (Inr name, f1) \<and> flock_open D B (ws_root ws) name w f1 = (Inr db, w1, f2) \<and>
         db_query D db query f2 = (Inr rows, db1, f3) \<and> render_table C rows = Inr text \<and> out = [SayRows text] \<and>
         duck_batch D (k_conn (db_kernel db1)) ''CHECKPOINT'' f3 = (Inr (), c, f4) \<and>
         sv_recorded V w' (db_dir (ws_root ws) name) = m \<and>
         (\<forall>bs. fs_lookup f4 (k_path (db_kernel db1)) = Some (FileNode bs) \<longrightarrow> length bs \<le> isize_max \<longrightarrow>
            sv_pages V m = layout (sb_default_page_size B) bs) \<and>
         (\<forall>d. d \<noteq> db_dir (ws_root ws) name \<longrightarrow> sv_recorded V w' d = sv_recorded V w d))) \<and>
    (\<forall>name f1 db w1 f2 e db1 f3. ws_resolve ws branch f = (Inr name, f1) \<longrightarrow>
       flock_open D B (ws_root ws) name w f1 = (Inr db, w1, f2) \<longrightarrow> db_query D db query f2 = (Inl e, db1, f3) \<longrightarrow>
       r = Err (CFlock e) \<and> sv_recorded V w' = sv_recorded V w)"
    (is "?said \<and> (out = [] \<or> ?kept) \<and> ?refused")
proof (intro conjI)
  show ?said using assms(3) by (auto simp: cli_sql_def split: prod.splits sum.splits outcome.splits)
  show ?refused
    using assms(3) open_records_nothing [OF assms(1,2)]
    by (auto simp: cli_sql_def)
  show "out = [] \<or> ?kept"
  proof (cases "out = []")
    case False
    with assms(3) obtain name f1 db w1 f2 rows db1 f3 m db2 f4 table where
      steps: "ws_resolve ws branch f = (Inr name, f1)" "flock_open D B (ws_root ws) name w f1 = (Inr db, w1, f2)"
        "db_query D db query f2 = (Inr rows, db1, f3)" "render_table C rows = Inr table" "out = [SayRows table]"
      and sn: "db_snapshot D B db1 w1 f3 = (Ok m, db2, w', f4)"
      by (auto simp: cli_sql_def split: prod.splits sum.splits outcome.splits)
    obtain k where k: "db1 = db\<lparr>db_kernel := k\<rparr>" using db_query_frame [OF steps(3)] by blast
    from opened_snapshot_records [OF assms(1,2) steps(2) k sn] steps k show ?thesis by fastforce
  qed simp
qed

subsection \<open>Instances\<close>

definition demo_opened :: fs where
  "demo_opened = demo_hydrated (snd (link_db_to_shared_cas [''pool''] ''a'' (snd (ws_resolve demo_ws (Some ''a'') demo_cli))))"

definition demo_linked :: "string \<Rightarrow> (flock_error + path) \<times> fs" where
  "demo_linked name = link_db_to_shared_cas [''pool''] name (demo_opened\<lparr>fs_calls := fs_calls demo_opened + 2\<rparr>)"

definition demo_db_a :: "(demo_handle, unit) db" where
  "demo_db_a = \<lparr>db_name = ''a'', db_root = [''pool''], db_store = Local (0, Some [''pool'', ''dbs'', ''a'']),
     db_kernel = demo_kernel, db_opts = opts_default\<rparr>"

definition demo_opened_w :: demo_world where
  "demo_opened_w = demo_closed\<lparr>dw_open := [(Some [''pool'', ''dbs'', ''a''], ManifestId [1])]\<rparr>"

lemma demo_opens_cli:
  "\<exists>f1. ws_resolve demo_ws (Some ''a'') demo_cli = (Inr ''a'', f1) \<and>
     flock_open demo_duck demo_subst [''pool''] ''a'' demo_closed f1 = (Inr demo_db_a, demo_opened_w, demo_opened)"
  "demo_ready demo_opened" "fs_lookup demo_opened demo_scratch = Some (FileNode [1, 2, 3, 4, 5])"
proof -
  let ?f1 = "snd (ws_resolve demo_ws (Some ''a'') demo_cli)" and ?l = "link_db_to_shared_cas [''pool''] ''a''"
  have "fst (ws_resolve demo_ws (Some ''a'') demo_cli) = Inr ''a''" by code_simp
  then have res: "ws_resolve demo_ws (Some ''a'') demo_cli = (Inr ''a'', ?f1)" by (metis prod.collapse)
  have "fs_quiet demo_cli" by (simp add: fs_quiet_def demo_cli_def)
  then have q1: "fs_quiet ?f1" using only_asked_same(7) [OF ws_resolve_frame [OF res]] by simp
  have l: "fst (?l ?f1) = Inr [''pool'', ''dbs'', ''a'']" by code_simp
  then have "?l ?f1 = (Inr [''pool'', ''dbs'', ''a''], snd (?l ?f1))" by (metis prod.collapse)
  from link_db_grows [OF this] q1 have "fs_quiet (snd (?l ?f1))" by (simp add: fs_grows_def fs_quiet_def)
  moreover have "fs_lookup (snd (?l ?f1)) demo_scratch = None" "fs_lookup (snd (?l ?f1)) [''tmp'', ''flock.duckdb.wal''] = None"
    by code_simp+
  ultimately have ready: "demo_ready (snd (?l ?f1))" by (simp add: demo_ready_def)
  have v: "validate_name ''a'' = Inr ()" by code_simp
  have "demo_recorded demo_closed [''pool'', ''dbs'', ''a''] = ManifestId [1]" by (simp add: demo_recorded_def demo_closed_def)
  from demo_opens_branch [OF v l ready this] res
  show "\<exists>f1. ws_resolve demo_ws (Some ''a'') demo_cli = (Inr ''a'', f1) \<and>
     flock_open demo_duck demo_subst [''pool''] ''a'' demo_closed f1 = (Inr demo_db_a, demo_opened_w, demo_opened)"
    unfolding demo_opened_def [symmetric]
    by (intro exI [of _ ?f1]) (simp add: demo_db_a_def demo_opened_w_def, simp add: demo_closed_def)
  show "demo_ready demo_opened" "fs_lookup demo_opened demo_scratch = Some (FileNode [1, 2, 3, 4, 5])"
    using demo_hydrated_writes [OF ready] by (simp_all add: demo_opened_def)
qed

lemma demo_cli_forks:
  assumes v: "validate_name name = Inr ()" and link: "fst (demo_linked name) = Inr [''pool'', ''dbs'', name]"
    and none: "fs_lookup (snd (demo_linked name)) [''tmp'', ''flock.duckdb.wal''] = None"
      "fs_lookup (snd (demo_linked name)) demo_scratch \<noteq> Some DirNode"
    and free: "\<not> path_exists demo_opened [''pool'', ''dbs'', name]" "name \<noteq> ''a''"
  shows "\<exists>w' out. cli_fork demo_duck demo_subst demo_ws (Some ''a'') name True demo_closed demo_cli =
    (Ok (), w', close_db demo_db_a (close_db demo_db_a (demo_hydrated (snd (demo_linked name)))), out)"
proof -
  obtain f1 where res: "ws_resolve demo_ws (Some ''a'') demo_cli = (Inr ''a'', f1)"
    and op: "flock_open demo_duck demo_subst [''pool''] ''a'' demo_closed f1 = (Inr demo_db_a, demo_opened_w, demo_opened)"
    using demo_opens_cli(1) by blast
  have lk: "link_db_to_shared_cas [''pool''] name (demo_opened\<lparr>fs_calls := fs_calls demo_opened + 2\<rparr>) =
      (Inr [''pool'', ''dbs'', name], snd (demo_linked name))"
    using link by (metis demo_linked_def prod.collapse)
  have ready: "demo_ready (snd (demo_linked name))"
    using link_db_grows [OF lk] demo_opens_cli(2) none by (simp add: demo_ready_def fs_grows_def fs_quiet_def)
  have parts: "db_store demo_db_a = Local (0, Some [''pool'', ''dbs'', ''a''])" "db_kernel demo_db_a = demo_kernel"
    "db_opts demo_db_a = opts_default" "db_root demo_db_a = [''pool'']" by (simp_all add: demo_db_a_def)
  have head: "demo_head (0, Some [''pool'', ''dbs'', ''a'']) demo_opened_w = ManifestId [1]"
    by (simp add: demo_head_def demo_opened_w_def)
  have rec: "demo_recorded demo_opened_w [''pool'', ''dbs'', name] = ManifestId []"
    using free(2) by (simp add: demo_recorded_def demo_opened_w_def demo_closed_def)
  have dir: "\<not> path_exists demo_opened (db_dir (db_root demo_db_a) name)"
    using free(1) db_dir_valid [OF v] by (simp add: parts)
  note fork = demo_forks_branch [OF parts(1,2,3) head demo_opens_cli(2,3) v dir lk [folded parts(4)] ready rec]
  have same: "close_db \<lparr>db_name = name, db_root = r, db_store = s, db_kernel = demo_kernel, db_opts = p\<rparr> g = close_db demo_db_a g"
    for r p g and s :: "demo_handle store"
    by (simp add: close_db_def parts(2))
  show ?thesis unfolding cli_fork_def demo_ws_root res prod.case sum.case op fork outcome.case Let_def same by simp
qed

lemma sleeping_name_forked_witness:
  "\<exists>w' f' out. cli_fork demo_duck demo_subst demo_ws (Some ''a'') ''b'' True demo_closed demo_cli = (Ok (), w', f', out) \<and>
     is_asleep demo_ws ''b'' f' \<and> fst (ws_resolve demo_ws (Some ''b'') f') = Inl (BranchAsleep ''b'')"
proof -
  let ?f = "close_db demo_db_a (close_db demo_db_a (demo_hydrated (snd (demo_linked ''b''))))"
  have "\<exists>w' out. cli_fork demo_duck demo_subst demo_ws (Some ''a'') ''b'' True demo_closed demo_cli =
    (Ok (), w', ?f, out)"
    by (rule demo_cli_forks) code_simp+
  then obtain w' out where run: "cli_fork demo_duck demo_subst demo_ws (Some ''a'') ''b'' True demo_closed demo_cli =
    (Ok (), w', ?f, out)" by blast
  have law: "duck_law demo_duck (ws_root demo_ws)" using demo_duck_law by simp
  have "fst (ws_branches demo_ws ?f) = Inr [''a'', ''b'']" by code_simp
  then have br: "ws_branches demo_ws ?f = (Inr [''a'', ''b''], snd (ws_branches demo_ws ?f))" by (metis prod.collapse)
  have as: "is_asleep demo_ws ''b'' demo_cli" and dir: "is_dir demo_cli (asleep_dir demo_ws)" by code_simp+
  note forked = sleeping_name_forked [OF law run as dir br]
  have "is_asleep demo_ws ''b'' ?f" using forked by blast
  moreover have "ws_resolve demo_ws (Some ''b'') ?f = (Inl (BranchAsleep ''b''), snd (ws_branches demo_ws ?f))"
    using forked by blast
  then have "fst (ws_resolve demo_ws (Some ''b'') ?f) = Inl (BranchAsleep ''b'')" by (simp only: fst_conv)
  ultimately show ?thesis using run by blast
qed

lemma json_branch_lost_witness:
  "\<exists>w' f' out. cli_fork demo_duck demo_subst demo_ws (Some ''a'') ''v2.json'' True demo_closed demo_cli = (Ok (), w', f', out) \<and>
     ''v2.json'' \<notin> known_branches demo_ws f' \<and> (\<exists>e f2. ws_resolve demo_ws (Some ''v2.json'') f' = (Inl e, f2))"
proof -
  let ?f = "close_db demo_db_a (close_db demo_db_a (demo_hydrated (snd (demo_linked ''v2.json''))))"
  have "\<exists>w' out. cli_fork demo_duck demo_subst demo_ws (Some ''a'') ''v2.json'' True demo_closed demo_cli = (Ok (), w', ?f, out)"
    by (rule demo_cli_forks) code_simp+
  then obtain w' out where run: "cli_fork demo_duck demo_subst demo_ws (Some ''a'') (''v2'' @ ''.json'') True demo_closed demo_cli =
    (Ok (), w', ?f, out)" by auto
  have law: "duck_law demo_duck (ws_root demo_ws)" using demo_duck_law by simp
  have "fs_lookup ?f (dbs_dir demo_ws @ [''v2'' @ ''.json.json'']) = None"
    "fs_lookup ?f (asleep_dir demo_ws @ [''v2'' @ ''.json.json'']) = None" by code_simp+
  from json_branch_lost [OF law run this] run show ?thesis by auto
qed

definition demo_cli_env :: "(demo_world, unit, unit, unit, unit) cli_env" where
  "demo_cli_env = \<lparr>ce_json = \<lparr>js_of_record = (\<lambda>r. Inr (sr_pool r)),
        js_to_record = (\<lambda>s. Inr \<lparr>sr_tier = [''tier''], sr_pool = s, sr_token = ''1''\<rparr>),
        js_of_token = (\<lambda>t. Inr ''1''), js_to_token = (\<lambda>s. Inr \<lparr>wt_pool = [], wt_manifest = ManifestId [1], wt_page_size = 4\<rparr>)\<rparr>,
     ce_fields = (\<lambda>_. [''n'']), ce_columns = (\<lambda>_. []), ce_int64 = (\<lambda>_. None), ce_pretty = (\<lambda>_ _. Inr ''| n |''),
     ce_backend = (\<lambda>_. Inr ()), ce_runtime = Inr (), ce_flush = (\<lambda>_ f. f), ce_reload = (\<lambda>_ w. w), ce_order = rev\<rparr>"

lemma sql_commits_witness:
  "\<exists>w' f'. cli_sql demo_duck demo_subst demo_cli_env demo_ws (Some ''a'') ''SELECT n FROM t'' demo_closed demo_cli =
     (Ok (), w', f', [SayRows ''| n |'']) \<and> demo_recorded w' [''pool'', ''dbs'', ''a''] = ManifestId [1] \<and>
     demo_view (demo_recorded w' [''pool'', ''dbs'', ''a'']) = layout 4 [1, 2, 3, 4, 5]"
proof -
  obtain f1 where res: "ws_resolve demo_ws (Some ''a'') demo_cli = (Inr ''a'', f1)"
    and op: "flock_open demo_duck demo_subst [''pool''] ''a'' demo_closed f1 = (Inr demo_db_a, demo_opened_w, demo_opened)"
    using demo_opens_cli(1) by blast
  have qu: "db_query demo_duck demo_db_a ''SELECT n FROM t'' demo_opened = (Inr (stream_new () []), demo_db_a, demo_opened)"
    by (simp add: db_query_def kernel_query_def demo_duck_def demo_db_a_def)
  have parts: "db_store demo_db_a = Local (0, Some [''pool'', ''dbs'', ''a''])" "db_kernel demo_db_a = demo_kernel"
    by (simp_all add: demo_db_a_def)
  have head: "demo_head (0, Some [''pool'', ''dbs'', ''a'']) demo_opened_w = ManifestId [1]"
    by (simp add: demo_head_def demo_opened_w_def)
  note sn = demo_snapshots [OF parts head demo_opens_cli(2,3)]
  have shown: "render_table demo_cli_env (stream_new () []) = Inr ''| n |''"
    by (simp add: render_table_def demo_cli_env_def map_err_def)
  obtain f' where run: "cli_sql demo_duck demo_subst demo_cli_env demo_ws (Some ''a'') ''SELECT n FROM t'' demo_closed demo_cli =
     (Ok (), demo_opened_w, f', [SayRows ''| n |''])"
    unfolding cli_sql_def demo_ws_root res prod.case sum.case op qu sn outcome.case shown by simp
  have rec: "sv_recorded demo_obs demo_opened_w (db_dir (ws_root demo_ws) ''a'') = ManifestId [1]"
    by (simp add: demo_recorded_def demo_opened_w_def demo_closed_def db_dir_def join_plain)
  have disk: "fs_lookup demo_opened (k_path (db_kernel demo_db_a)) = Some (FileNode [1, 2, 3, 4, 5])"
    using demo_opens_cli(3) by (simp add: parts demo_kernel_def)
  have ck: "duck_batch demo_duck c ''CHECKPOINT'' f = (Inr (), (), f)" for c f by (simp add: demo_duck_def)
  have "length [1, 2, 3, 4, 5 :: u8] \<le> isize_max" by (simp add: isize_max_def)
  moreover have "sb_default_page_size demo_subst = 4" by simp
  moreover have "sv_inv demo_obs demo_closed" by simp
  note sql_commits [OF demo_law this run]
  ultimately have "demo_view (ManifestId [1]) = layout 4 [1, 2, 3, 4, 5]"
    using res op qu disk ck rec by fastforce
  with run rec show ?thesis by (simp add: db_dir_def join_plain)
qed

end
