(* ===== verification/Cli_Import.thy ===== *)
theory Cli_Import
  imports Cli_Commands
begin

section \<open>Importing a file\<close>

text \<open>
  \<open>crates/flock-cli/src/cmd/import.rs\<close>: which reader a file gets, the table name derived from its name,
  the check of that name, and the command, whose statements are built by concatenation. A name is
  taken character by character: of a character beyond ASCII only the first byte counts, its
  continuation bytes are dropped. The file is the text it was given as, which is also how it is shown.
\<close>

definition DEFAULT_BRANCH :: string where
  "DEFAULT_BRANCH = ''main''"

definition to_ascii_lowercase :: "string \<Rightarrow> string" where
  "to_ascii_lowercase s = map (\<lambda>c. if CHR ''A'' \<le> c \<and> c \<le> CHR ''Z'' then char_of (of_char c + 32 :: nat) else c) s"

definition ends_with :: "string \<Rightarrow> string \<Rightarrow> bool" where
  "ends_with p s \<longleftrightarrow> strip_suffix p s \<noteq> None"

text \<open>\<open>rsplit_once\<close>, the part after the last separator.\<close>

definition after_last :: "char \<Rightarrow> string \<Rightarrow> string option" where
  "after_last c s = (if c \<in> set s then Some (last (split_on c s)) else None)"

definition reader_for :: "string \<Rightarrow> cli_error + string" where
  "reader_for file_text =
     (let name = to_ascii_lowercase (case file_name (components file_text) of Some n \<Rightarrow> n | None \<Rightarrow> [])
      in if ends_with ''.csv'' name \<or> ends_with ''.tsv'' name \<or> ends_with ''.csv.gz'' name \<or> ends_with ''.tsv.gz'' name
         then Inr ''read_csv_auto''
         else if ends_with ''.parquet'' name then Inr ''read_parquet''
         else Inl (UnknownFormat file_text
           (case after_last (CHR ''.'') name of Some e \<Rightarrow> CHR ''.'' # e | None \<Rightarrow> ''(none)'')))"

definition ascii_alphabetic :: "char \<Rightarrow> bool" where
  "ascii_alphabetic c \<longleftrightarrow> (CHR ''a'' \<le> c \<and> c \<le> CHR ''z'') \<or> (CHR ''A'' \<le> c \<and> c \<le> CHR ''Z'')"

definition ascii_digit :: "char \<Rightarrow> bool" where
  "ascii_digit c \<longleftrightarrow> CHR ''0'' \<le> c \<and> c \<le> CHR ''9''"

definition check_identifier :: "string \<Rightarrow> cli_error + unit" where
  "check_identifier name =
     (if name \<noteq> [] \<and> (ascii_alphabetic (hd name) \<or> hd name = CHR ''_'') \<and>
        list_all (\<lambda>c. ascii_alphanumeric c \<or> c = CHR ''_'') name
      then Inr () else Inl (BadTableName name))"

text \<open>The characters of UTF-8 text, each by its first byte.\<close>

definition lead_bytes :: "string \<Rightarrow> string" where
  "lead_bytes s = filter (\<lambda>c. \<not> utf8_tail (word_of_nat (of_char c))) s"

definition table_name_from :: "string \<Rightarrow> cli_error + string" where
  "table_name_from file_text =
     (let stem = hd (split_on CHR ''.'' (case file_name (components file_text) of Some n \<Rightarrow> n | None \<Rightarrow> []));
          cleaned = map (\<lambda>c. if ascii_alphanumeric c then c else CHR ''_'') (lead_bytes stem);
          cleaned = (if cleaned \<noteq> [] \<and> ascii_digit (hd cleaned) then ''t_'' @ cleaned else cleaned)
      in case check_identifier cleaned of Inl e \<Rightarrow> Inl e | Inr _ \<Rightarrow> Inr cleaned)"

definition table_exists_sql :: "string \<Rightarrow> string" where
  "table_exists_sql table =
     ''SELECT count(*) FROM duckdb_tables() WHERE table_name = '' @ [CHR 0x27] @
       replace_char (CHR 0x27) [CHR 0x27, CHR 0x27] table @ [CHR 0x27]"

definition table_exists :: "('c, 'a, 'b) duck_ops \<Rightarrow> ('w, 'a, 'b, 'col, 'o) cli_env \<Rightarrow> ('h, 'c) db \<Rightarrow> string \<Rightarrow> fs \<Rightarrow>
    (cli_error + bool) \<times> ('h, 'c) db \<times> fs" where
  "table_exists D C db table f =
     (case db_query D db (table_exists_sql table) f of
        (Inl e, db', f') \<Rightarrow> (Inl (CFlock e), db', f')
      | (Inr rows, db', f') \<Rightarrow>
          (Inr (0 < (case first_i64 C rows of Some n \<Rightarrow> n | None \<Rightarrow> 0)), db', f'))"

definition create_table_sql :: "string \<Rightarrow> string \<Rightarrow> string \<Rightarrow> string" where
  "create_table_sql table reader p =
     (let path = replace_char (CHR 0x27) [CHR 0x27, CHR 0x27] p
      in ''CREATE TABLE '' @ [CHR 0x22] @ table @ [CHR 0x22] @ '' AS SELECT * FROM '' @ reader @ ''('' @
           [CHR 0x27] @ path @ [CHR 0x27] @ '')'')"

definition count_sql :: "string \<Rightarrow> string" where
  "count_sql table = ''SELECT count(*) FROM '' @ [CHR 0x22] @ table @ [CHR 0x22]"

text \<open>The branch to import onto, on a pool that may not exist yet.\<close>

definition import_branch :: "workspace \<Rightarrow> string option \<Rightarrow> fs \<Rightarrow> (cli_error + string) \<times> fs" where
  "import_branch ws branch f =
     (case branch of
        Some b \<Rightarrow> (Inr b, f)
      | None \<Rightarrow> if \<not> ws_exists ws f then (Inr DEFAULT_BRANCH, f) else ws_head ws f)"

text \<open>The checks before anything is opened: the branch, the reader and the table.\<close>

definition import_plan :: "workspace \<Rightarrow> string option \<Rightarrow> string \<Rightarrow> string option \<Rightarrow> fs \<Rightarrow>
    (cli_error + string \<times> string \<times> string) \<times> fs" where
  "import_plan ws branch file_text table f =
     (case import_branch ws branch f of
        (Inl e, f1) \<Rightarrow> (Inl e, f1)
      | (Inr b, f1) \<Rightarrow>
          (if is_asleep ws b f1 then Inl (BranchAsleep b)
           else if \<not> is_file f1 (components file_text) then Inl (NoSuchFile file_text)
           else
             (case reader_for file_text of
                Inl e \<Rightarrow> Inl e
              | Inr reader \<Rightarrow>
                  (case (case table of Some t \<Rightarrow> Inr t | None \<Rightarrow> table_name_from file_text) of
                     Inl e \<Rightarrow> Inl e
                   | Inr t \<Rightarrow> (case check_identifier t of Inl e \<Rightarrow> Inl e | Inr _ \<Rightarrow> Inr (b, reader, t)))), f1))"

definition cli_import :: "('c, 'a, 'b) duck_ops \<Rightarrow> ('w, 'h, 't, 'm, 'o) subst \<Rightarrow> ('w, 'a, 'b, 'col, 'o) cli_env \<Rightarrow>
    workspace \<Rightarrow> string option \<Rightarrow> string \<Rightarrow> string option \<Rightarrow> 'w \<Rightarrow> fs \<Rightarrow> 'w cli_result" where
  "cli_import D B C ws branch file_text table w f =
     (let fresh_pool = \<not> ws_exists ws f
      in case import_plan ws branch file_text table f of
           (Inl e, f1) \<Rightarrow> (Err e, w, f1, [])
         | (Inr (b, reader, t), f1) \<Rightarrow>
     (case flock_open D B (ws_root ws) b w f1 of
        (Inl e, w1, f2) \<Rightarrow> (Err (CFlock e), w1, f2, [])
      | (Inr db, w1, f2) \<Rightarrow>
     (case table_exists D C db t f2 of
        (Inl e, db1, f3) \<Rightarrow> (Err e, w1, close_db db1 f3, [])
      | (Inr True, db1, f3) \<Rightarrow> (Err (TableExists t b), w1, close_db db1 f3, [])
      | (Inr False, db1, f3) \<Rightarrow>
     (case db_execute D db1 (create_table_sql t reader file_text) f3 of
        (Inl e, db2, f4) \<Rightarrow> (Err (CFlock e), w1, close_db db2 f4, [])
      | (Inr _, db2, f4) \<Rightarrow>
     (case db_query D db2 (count_sql t) f4 of
        (Inl e, db3, f5) \<Rightarrow> (Err (CFlock e), w1, close_db db3 f5, [])
      | (Inr rows, db3, f5) \<Rightarrow>
          (let n = (case first_i64 C rows of Some n \<Rightarrow> n | None \<Rightarrow> 0)
           in case db_snapshot D B db3 w1 f5 of
                (Err e, db4, w2, f6) \<Rightarrow> (Err (CFlock e), w2, close_db db4 f6, [])
              | (Panic, db4, w2, f6) \<Rightarrow> (Panic, w2, close_db db4 f6, [])
              | (Ok _, db4, w2, f6) \<Rightarrow>
                  (if fresh_pool then
                     (case ws_set_head ws b f6 of
                        (Inl e, f7) \<Rightarrow> (Err e, w2, close_db db4 f7, [])
                      | (Inr _, f7) \<Rightarrow> (Ok (), w2, close_db db4 f7, [SayImported n t b]))
                   else (Ok (), w2, close_db db4 f6, [SayImported n t b]))))))))"

subsection \<open>What an import runs\<close>

lemma check_identifier_Inr: "check_identifier t = Inr u \<Longrightarrow> t \<noteq> [] \<and> CHR 0x22 \<notin> set t \<and> CHR 0x27 \<notin> set t"
  by (auto simp: check_identifier_def list_all_iff ascii_alphanumeric_def less_eq_char_def split: if_splits)

lemma replace_char_none: "c \<notin> set s \<Longrightarrow> replace_char c r s = s"
  by (induction s) (auto simp: replace_char_def)

text \<open>A reader of the statement, as SQL reads it: the quoted table, the name of the function, its quoted argument.\<close>

definition word_char :: "char \<Rightarrow> bool" where
  "word_char c \<longleftrightarrow> ascii_alphanumeric c \<or> c = CHR ''_''"

definition read_create_table :: "string \<Rightarrow> (string \<times> string \<times> string) option" where
  "read_create_table s =
     Option.bind (strip_prefix (''CREATE TABLE '' @ [CHR 0x22]) s) (\<lambda>s1.
     Option.bind (lex_quoted (CHR 0x22) s1) (\<lambda>(table, s2).
     Option.bind (strip_prefix '' AS SELECT * FROM '' s2) (\<lambda>s3.
     let reader = takeWhile word_char s3
     in Option.bind (strip_prefix (reader @ ''('' @ [CHR 0x27]) s3) (\<lambda>s4.
        Option.bind (lex_quoted (CHR 0x27) s4) (\<lambda>(p, s5).
        if s5 = '')'' then Some (table, reader, p) else None)))))"

definition read_quoted_end :: "string \<Rightarrow> char \<Rightarrow> string \<Rightarrow> string option" where
  "read_quoted_end start q s =
     Option.bind (strip_prefix (start @ [q]) s) (\<lambda>s1.
     Option.bind (lex_quoted q s1) (\<lambda>(v, rest). if rest = [] then Some v else None))"

lemma strip_prefix_append [simp]: "strip_prefix p (p @ s) = Some s"
  by (simp add: strip_prefix_Some)

lemma read_create_table_sql:
  assumes "CHR 0x22 \<notin> set t" "reader \<noteq> []" "list_all word_char reader"
  shows "read_create_table (create_table_sql t reader p) = Some (t, reader, p)"
proof -
  let ?s4 = "replace_char (CHR 0x27) [CHR 0x27, CHR 0x27] p @ [CHR 0x27] @ '')''"
  let ?s3 = "(reader @ ''('' @ [CHR 0x27]) @ ?s4"
  have sql: "create_table_sql t reader p = (''CREATE TABLE '' @ [CHR 0x22]) @ t @ CHR 0x22 # ('' AS SELECT * FROM '' @ ?s3)"
    by (simp add: create_table_sql_def Let_def)
  have t: "lex_quoted (CHR 0x22) (t @ CHR 0x22 # ('' AS SELECT * FROM '' @ ?s3)) = Some (t, '' AS SELECT * FROM '' @ ?s3)"
    using lex_quoted_replace [of "'' AS SELECT * FROM '' @ ?s3" "CHR 0x22" t] replace_char_none [OF assms(1)] by simp
  have "\<not> word_char (CHR ''('')" by code_simp
  then have r: "takeWhile word_char ?s3 = reader"
    using assms(3) by (simp add: takeWhile_append2 list_all_iff)
  have l: "lex_quoted (CHR 0x27) ?s4 = Some (p, '')'')"
    using lex_quoted_replace [of "'')''" "CHR 0x27" p] by simp
  show ?thesis
    unfolding read_create_table_def sql strip_prefix_append Option.bind.bind_lunit t prod.case r Let_def l by simp
qed

text \<open>C23: an import runs the statement it means to. Whatever the file is called and whatever name the
  table was asked for or derived from the file, the statement reads back, quotes and all, as creating
  exactly the planned table from exactly that file with one of the two readers; so does the question
  whether the table exists, and the file is there and the branch awake.\<close>

theorem import_statement_safe:
  assumes "import_plan ws branch file_text table f = (Inr (b, reader, t), f1)"
  shows "read_create_table (create_table_sql t reader file_text) = Some (t, reader, file_text) \<and>
    reader \<in> {''read_csv_auto'', ''read_parquet''} \<and>
    read_quoted_end ''SELECT count(*) FROM '' (CHR 0x22) (count_sql t) = Some t \<and>
    read_quoted_end ''SELECT count(*) FROM duckdb_tables() WHERE table_name = '' (CHR 0x27) (table_exists_sql t) = Some t \<and>
    is_file f1 (components file_text) \<and> \<not> is_asleep ws b f1"
proof -
  have plan: "reader_for file_text = Inr reader" "check_identifier t = Inr ()" "is_file f1 (components file_text)"
    "\<not> is_asleep ws b f1"
    using assms by (auto simp: import_plan_def split: sum.splits prod.splits if_splits option.splits)
  have t: "CHR 0x22 \<notin> set t" "CHR 0x27 \<notin> set t" using check_identifier_Inr [OF plan(2)] by simp_all
  have r: "reader \<in> {''read_csv_auto'', ''read_parquet''}"
    using plan(1) by (auto simp: reader_for_def Let_def split: if_splits)
  have "list_all (list_all word_char) [''read_csv_auto'', ''read_parquet'']" by code_simp
  with r have "reader \<noteq> []" "list_all word_char reader" by auto
  note read = read_create_table_sql [OF t(1) this]
  have "lex_quoted q (replace_char q [q, q] s @ [q]) = Some (s, [])" for q s
    using lex_quoted_replace [of "[]" q s] by simp
  then have "read_quoted_end start q ((start @ [q]) @ replace_char q [q, q] s @ [q]) = Some s" for start q s
    unfolding read_quoted_end_def strip_prefix_append by simp
  then have "read_quoted_end ''SELECT count(*) FROM '' (CHR 0x22) (count_sql t) = Some t"
    "read_quoted_end ''SELECT count(*) FROM duckdb_tables() WHERE table_name = '' (CHR 0x27) (table_exists_sql t) = Some t"
    using replace_char_none [OF t(1)] unfolding count_sql_def table_exists_sql_def by (metis append_assoc)+
  with read r plan show ?thesis by blast
qed

definition demo_csv :: string where
  "demo_csv = ''it'' @ [CHR 0x27] @ ''s.csv''"

lemma import_statement_safe_witness:
  "read_create_table (create_table_sql ''it_s'' ''read_csv_auto'' demo_csv) = Some (''it_s'', ''read_csv_auto'', demo_csv)"
proof -
  let ?f = "fs_put demo_cli [demo_csv] (FileNode [])"
  have "fst (import_plan demo_ws (Some ''a'') demo_csv None ?f) = Inr (''a'', ''read_csv_auto'', ''it_s'')" by code_simp
  then have "import_plan demo_ws (Some ''a'') demo_csv None ?f =
      (Inr (''a'', ''read_csv_auto'', ''it_s''), snd (import_plan demo_ws (Some ''a'') demo_csv None ?f))"
    by (metis prod.collapse)
  from import_statement_safe [OF this] show ?thesis by blast
qed

subsection \<open>What an import commits\<close>

lemma cli_import_Ok:
  assumes "cli_import D B C ws branch file_text table w f = (Ok (), w', f', out)"
  obtains b reader t f1 db w1 f2 db1 f3 u db2 f4 rows db3 f5 m db4 f6 f7 where
    "import_plan ws branch file_text table f = (Inr (b, reader, t), f1)"
    "flock_open D B (ws_root ws) b w f1 = (Inr db, w1, f2)"
    "table_exists D C db t f2 = (Inr False, db1, f3)"
    "db_execute D db1 (create_table_sql t reader file_text) f3 = (Inr u, db2, f4)"
    "db_query D db2 (count_sql t) f4 = (Inr rows, db3, f5)"
    "db_snapshot D B db3 w1 f5 = (Ok m, db4, w', f6)"
    "out = [SayImported (case first_i64 C rows of Some n \<Rightarrow> n | None \<Rightarrow> 0) t b]"
    "f' = close_db db4 f7" "ws_exists ws f \<longrightarrow> f7 = f6" "\<not> ws_exists ws f \<longrightarrow> ws_set_head ws b f6 = (Inr (), f7)"
  using assms
  by (auto simp: cli_import_def Let_def split: prod.splits sum.splits outcome.splits bool.splits if_splits)

lemma cli_import_out:
  "cli_import D B C ws branch file_text table w f = (r, w', f', out) \<Longrightarrow> r = Ok () \<longleftrightarrow> out \<noteq> []"
  by (auto simp: cli_import_def Let_def split: prod.splits sum.splits outcome.splits bool.splits if_splits)

lemma cli_import_refused:
  assumes "cli_import D B C ws branch file_text table w f = (r, w', f', out)"
    and "import_plan ws branch file_text table f = (Inr (b, reader, t), f1)"
    and "flock_open D B (ws_root ws) b w f1 = (Inr db, w1, f2)" "table_exists D C db t f2 = (x, db1, f3)"
  shows "(x = Inr True \<longrightarrow> r = Err (TableExists t b) \<and> w' = w1) \<and>
    (\<forall>e db2 f4. x = Inr False \<longrightarrow> db_execute D db1 (create_table_sql t reader file_text) f3 = (Inl e, db2, f4) \<longrightarrow>
       r = Err (CFlock e) \<and> w' = w1)"
  using assms by (auto simp: cli_import_def Let_def)

lemma db_query_frames: "db_query D db sql f = (r, db', f') \<Longrightarrow>
    \<exists>c. db' = db\<lparr>db_kernel := db_kernel db\<lparr>k_conn := c\<rparr>\<rparr>"
  by (auto simp: db_query_def kernel_query_def split: prod.splits sum.splits
      intro: exI [of _ "k_conn (db_kernel db)"])

lemma db_execute_frame: "db_execute D db sql f = (r, db', f') \<Longrightarrow>
    \<exists>c. db' = db\<lparr>db_kernel := db_kernel db\<lparr>k_conn := c\<rparr>\<rparr>"
  by (auto simp: db_execute_def kernel_execute_def split: prod.splits)

lemma table_exists_frame: "table_exists D C db t f = (r, db', f') \<Longrightarrow>
    \<exists>c. db' = db\<lparr>db_kernel := db_kernel db\<lparr>k_conn := c\<rparr>\<rparr>"
  by (auto simp: table_exists_def split: prod.splits sum.splits dest!: db_query_frames)

text \<open>C9: an import that reports success has committed the table. It reports exactly when it succeeds; by
  then DuckDB had no table of that name, ran the \<open>CREATE TABLE\<close> of the plan and the count reported, and
  the log of the branch records a manifest whose pages are the file DuckDB checkpointed after them; no
  other branch is touched; a pool that was new has the branch as its \<open>HEAD\<close>. A table that exists is
  refused under its name, and neither that nor a failed \<open>CREATE TABLE\<close> commits anything.\<close>

theorem import_commits:
  assumes "substrate_law B V" "sv_inv V w" "duck_law D (ws_root ws)"
    and "cli_import D B C ws branch file_text table w f = (r, w', f', out)"
  shows "(r = Ok () \<longleftrightarrow> out \<noteq> []) \<and>
    (out = [] \<or>
      (\<exists>b reader t f1 db w1 f2 db1 f3 n db2 f4 rows db3 f5 c f6 m.
         import_plan ws branch file_text table f = (Inr (b, reader, t), f1) \<and>
         flock_open D B (ws_root ws) b w f1 = (Inr db, w1, f2) \<and> table_exists D C db t f2 = (Inr False, db1, f3) \<and>
         db_execute D db1 (create_table_sql t reader file_text) f3 = (Inr n, db2, f4) \<and>
         db_query D db2 (count_sql t) f4 = (Inr rows, db3, f5) \<and>
         out = [SayImported (case first_i64 C rows of Some n \<Rightarrow> n | None \<Rightarrow> 0) t b] \<and>
         duck_batch D (k_conn (db_kernel db3)) ''CHECKPOINT'' f5 = (Inr (), c, f6) \<and>
         sv_recorded V w' (db_dir (ws_root ws) b) = m \<and>
         (\<forall>bs. fs_lookup f6 (k_path (db_kernel db3)) = Some (FileNode bs) \<longrightarrow> length bs \<le> isize_max \<longrightarrow>
            sv_pages V m = layout (sb_default_page_size B) bs) \<and>
         (\<forall>d. d \<noteq> db_dir (ws_root ws) b \<longrightarrow> sv_recorded V w' d = sv_recorded V w d) \<and>
         (\<not> ws_exists ws f \<longrightarrow> fs_lookup f' (head_path ws) = Some (FileNode (bytes_of (b @ [CHR 0x0A])))))) \<and>
    (\<forall>b reader t f1 db w1 f2 x db1 f3. import_plan ws branch file_text table f = (Inr (b, reader, t), f1) \<longrightarrow>
       flock_open D B (ws_root ws) b w f1 = (Inr db, w1, f2) \<longrightarrow> table_exists D C db t f2 = (x, db1, f3) \<longrightarrow>
       (x = Inr True \<longrightarrow> r = Err (TableExists t b) \<and> sv_recorded V w' = sv_recorded V w) \<and>
       (\<forall>e db2 f4. x = Inr False \<longrightarrow> db_execute D db1 (create_table_sql t reader file_text) f3 = (Inl e, db2, f4) \<longrightarrow>
          r = Err (CFlock e) \<and> sv_recorded V w' = sv_recorded V w))"
    (is "?said \<and> (out = [] \<or> ?kept) \<and> ?refused")
proof (intro conjI)
  show said: ?said by (rule cli_import_out [OF assms(4)])
  show ?refused
    by (intro allI impI conjI)
      (use cli_import_refused [OF assms(4)] open_records_nothing [OF assms(1,2)] in \<open>metis\<close>)+
  show "out = [] \<or> ?kept"
  proof (cases "out = []")
    case False
    with said assms(4) have "cli_import D B C ws branch file_text table w f = (Ok (), w', f', out)" by simp
    then obtain b reader t f1 db w1 f2 db1 f3 n db2 f4 rows db3 f5 m db4 f6 f7 where
      plan: "import_plan ws branch file_text table f = (Inr (b, reader, t), f1)" and
      op: "flock_open D B (ws_root ws) b w f1 = (Inr db, w1, f2)" and
      steps: "table_exists D C db t f2 = (Inr False, db1, f3)"
        "db_execute D db1 (create_table_sql t reader file_text) f3 = (Inr n, db2, f4)"
        "db_query D db2 (count_sql t) f4 = (Inr rows, db3, f5)" and
      sn: "db_snapshot D B db3 w1 f5 = (Ok m, db4, w', f6)" and
      say: "out = [SayImported (case first_i64 C rows of Some n \<Rightarrow> n | None \<Rightarrow> 0) t b]" and
      last: "f' = close_db db4 f7" "\<not> ws_exists ws f \<longrightarrow> ws_set_head ws b f6 = (Inr (), f7)"
      by (rule cli_import_Ok) blast
    obtain c where k: "db3 = db\<lparr>db_kernel := db_kernel db\<lparr>k_conn := c\<rparr>\<rparr>"
      using table_exists_frame [OF steps(1)] db_execute_frame [OF steps(2)] db_query_frames [OF steps(3)] by auto
    have "db_away (ws_root ws) db4"
      using flock_open_holds [OF assms(3) op [unfolded flock_open_def]] db_snapshot_holds [OF assms(3) sn] k
      by (simp add: db_away_def)
    then have "holds (ws_root ws) f7 f'" using close_db_holds [OF _ holds_refl] last(1) by simp
    then have "\<not> ws_exists ws f \<longrightarrow> fs_lookup f' (head_path ws) = Some (FileNode (bytes_of (b @ [CHR 0x0A])))"
      using last(2) ws_set_head_writes by (auto simp: holds_def head_path_def)
    with opened_snapshot_records [OF assms(1,2) op k sn] plan op steps say k show ?thesis by fastforce
  qed simp
qed

text \<open>A pool the library made, with a branch and no \<open>HEAD\<close>, and a file to import.\<close>

definition demo_no_head :: fs where
  "demo_no_head = \<lparr>fs_tree = [([''pool''], DirNode), ([''pool'', ''dbs''], DirNode), ([''pool'', ''dbs'', ''a''], DirNode),
     ([demo_csv], FileNode [])], fs_faults = (\<lambda>_. None), fs_calls = 0,
     fs_done = (\<lambda>_. None), fs_gone = (\<lambda>_ _. False)\<rparr>"

definition demo_import_linked :: fs where
  "demo_import_linked = snd (link_db_to_shared_cas [''pool''] ''a'' demo_no_head)"

lemma demo_import_opens:
  "flock_open demo_duck demo_subst [''pool''] ''a'' demo_closed demo_no_head =
     (Inr demo_db_a, demo_opened_w, demo_hydrated demo_import_linked)"
  "demo_ready demo_import_linked"
proof -
  have v: "validate_name ''a'' = Inr ()" by code_simp
  have l: "fst (link_db_to_shared_cas [''pool''] ''a'' demo_no_head) = Inr [''pool'', ''dbs'', ''a'']" by code_simp
  then have "link_db_to_shared_cas [''pool''] ''a'' demo_no_head = (Inr [''pool'', ''dbs'', ''a''], demo_import_linked)"
    unfolding demo_import_linked_def by (metis prod.collapse)
  from link_db_grows [OF this] have "fs_quiet demo_import_linked"
    by (simp add: fs_grows_def fs_quiet_def demo_no_head_def)
  moreover have "fs_lookup demo_import_linked demo_scratch = None" "fs_lookup demo_import_linked [''tmp'', ''flock.duckdb.wal''] = None"
    by code_simp+
  ultimately show ready: "demo_ready demo_import_linked" by (simp add: demo_ready_def)
  have rec: "demo_recorded demo_closed [''pool'', ''dbs'', ''a''] = ManifestId [1]"
    by (simp add: demo_recorded_def demo_closed_def)
  show "flock_open demo_duck demo_subst [''pool''] ''a'' demo_closed demo_no_head =
     (Inr demo_db_a, demo_opened_w, demo_hydrated demo_import_linked)"
    using demo_opens_branch [OF v l ready [unfolded demo_import_linked_def] rec]
    by (simp add: demo_db_a_def demo_opened_w_def demo_import_linked_def) (simp add: demo_closed_def)
qed

lemma import_commits_witness:
  "\<exists>w' f'. cli_import demo_duck demo_subst demo_cli_env demo_ws (Some ''a'') demo_csv None demo_closed demo_no_head =
     (Ok (), w', f', [SayImported 0 ''it_s'' ''a'']) \<and>
     demo_view (demo_recorded w' [''pool'', ''dbs'', ''a'']) = layout 4 [1, 2, 3, 4, 5] \<and>
     fs_lookup f' [''pool'', ''HEAD''] = Some (FileNode (bytes_of [CHR ''a'', CHR 0x0A]))"
proof -
  let ?g = "demo_hydrated demo_import_linked"
  let ?h = "?g\<lparr>fs_calls := fs_calls ?g + 2\<rparr>"
  have "import_plan demo_ws (Some ''a'') demo_csv None demo_no_head = (Inr (''a'', ''read_csv_auto'', ''it_s''), demo_no_head)"
    (is "?p = (?x, ?f)")
  proof -
    have "fst ?p = ?x" by code_simp
    moreover have "snd ?p = ?f" by (simp add: import_plan_def import_branch_def)
    ultimately show ?thesis by (metis prod.collapse)
  qed
  note plan = this
  note op = demo_import_opens(1)
  have none: "first_i64 demo_cli_env (stream_new () []) = None" by (simp add: first_i64_def stream_new_def)
  have te: "table_exists demo_duck demo_cli_env demo_db_a ''it_s'' ?g = (Inr False, demo_db_a, ?g)"
    by (simp add: table_exists_def db_query_def kernel_query_def demo_duck_def demo_db_a_def none)
  have ex: "db_execute demo_duck demo_db_a s ?g = (Inr 0, demo_db_a, ?g)" for s
    by (simp add: db_execute_def kernel_execute_def demo_duck_def demo_db_a_def)
  have qu: "db_query demo_duck demo_db_a s ?g = (Inr (stream_new () []), demo_db_a, ?g)" for s
    by (simp add: db_query_def kernel_query_def demo_duck_def demo_db_a_def)
  have parts: "db_store demo_db_a = Local (0, Some [''pool'', ''dbs'', ''a''])" "db_kernel demo_db_a = demo_kernel"
    by (simp_all add: demo_db_a_def)
  have head: "demo_head (0, Some [''pool'', ''dbs'', ''a'']) demo_opened_w = ManifestId [1]"
    by (simp add: demo_head_def demo_opened_w_def)
  note hy = demo_hydrated_writes [OF demo_import_opens(2)]
  note sn = demo_snapshots [OF parts head hy(2,3)]
  have fresh: "\<not> ws_exists demo_ws demo_no_head" by code_simp
  have "fst (ws_set_head demo_ws ''a'' ?h) = Inr ()" by code_simp
  then obtain f7 where set: "ws_set_head demo_ws ''a'' ?h = (Inr (), f7)" by (metis prod.collapse)
  have run: "cli_import demo_duck demo_subst demo_cli_env demo_ws (Some ''a'') demo_csv None demo_closed demo_no_head =
     (Ok (), demo_opened_w, close_db demo_db_a f7, [SayImported 0 ''it_s'' ''a''])"
    unfolding cli_import_def demo_ws_root plan Let_def prod.case sum.case op te bool.case ex qu sn outcome.case set none option.case
    by (simp add: fresh)
  have law: "duck_law demo_duck (ws_root demo_ws)" using demo_duck_law by simp
  have inv: "sv_inv demo_obs demo_closed" by simp
  have ck: "duck_batch demo_duck c ''CHECKPOINT'' f = (Inr (), (), f)" for c f by (simp add: demo_duck_def)
  have disk: "fs_lookup ?g (k_path (db_kernel demo_db_a)) = Some (FileNode [1, 2, 3, 4, 5])"
    using hy(3) by (simp add: parts demo_kernel_def)
  have len: "length [1, 2, 3, 4, 5 :: u8] \<le> isize_max" by (simp add: isize_max_def)
  have dir: "db_dir (ws_root demo_ws) ''a'' = [''pool'', ''dbs'', ''a'']" by (simp add: db_dir_def join_plain)
  have k: "db_kernel demo_db_a = demo_kernel" "k_path demo_kernel = demo_scratch" by (simp_all add: parts demo_kernel_def)
  have "demo_view (demo_recorded demo_opened_w [''pool'', ''dbs'', ''a'']) = layout 4 [1, 2, 3, 4, 5] \<and>
    fs_lookup (close_db demo_db_a f7) (head_path demo_ws) = Some (FileNode (bytes_of (''a'' @ [CHR 0x0A])))"
    by (rule import_commits [OF demo_law inv law run, THEN conjunct2, THEN conjunct1, THEN disjE])
      (simp, clarsimp simp only: plan op te ex qu fresh ck disk len dir k hy(3) demo_ws_root demo_obs_simps demo_subst_simps
        prod.inject sum.inject not_False_eq_True simp_thms, simp add: hy(3) isize_max_def dir [unfolded demo_ws_root])
  with run show ?thesis by (simp add: head_path_def)
qed

end
