(* ===== verification/Cli_Copy.thy ===== *)
theory Cli_Copy
  imports Cli_Import
begin

section \<open>Adopting fetched pages\<close>

text \<open>
  \<open>copy_tree\<close> of \<open>crates/flock-cli/src/cmd/tier.rs\<close>, which a wake uses to take the pages and manifests
  it fetched into the pool's store. It recurses over a tree it reads as it goes, and would not end if
  its destination lay inside its source: a partial function over the entries of one directory, \<open>None\<close>
  being not returning. Entries are read when their directory is entered.
\<close>

text \<open>Creating the destination and reading the source, as \<open>copy_tree\<close> starts.\<close>

definition enter_dir :: "path \<Rightarrow> path \<Rightarrow> fs \<Rightarrow> (cli_error + path list) \<times> fs" where
  "enter_dir src dst f =
     (case fs_create_dir_all f dst of
        (Inl e, f1) \<Rightarrow> (Inl (CIo ''create the pool's store'' dst e), f1)
      | (Inr _, f1) \<Rightarrow>
          (case fs_read_dir f1 src of (r, f2) \<Rightarrow> (map_err (CIo ''read the page cache'' src) r, f2)))"

partial_function (option) copy_entries :: "path list \<Rightarrow> path \<Rightarrow> nat \<Rightarrow> fs \<Rightarrow> ((cli_error + nat) \<times> fs) option" where
  "copy_entries entries dst copied f =
     (case entries of
        [] \<Rightarrow> Some (Inr copied, f)
      | source # rest \<Rightarrow>
          (let to = join dst (last source)
           in if is_dir f source then
                (case enter_dir source to f of
                   (Inl e, f1) \<Rightarrow> Some (Inl e, f1)
                 | (Inr inner, f1) \<Rightarrow>
                     Option.bind (copy_entries inner to 0 f1) (\<lambda>(r, f2).
                       case r of
                         Inl e \<Rightarrow> Some (Inl e, f2)
                       | Inr n \<Rightarrow> copy_entries rest dst (copied + n) f2))
              else if \<not> path_exists f to then
                (case fs_copy f source to of
                   (Inl e, f1) \<Rightarrow> Some (Inl (CIo ''adopt a page into the pool'' to e), f1)
                 | (Inr _, f1) \<Rightarrow> copy_entries rest dst (copied + 1) f1)
              else copy_entries rest dst copied f))"

declare copy_entries.simps [code]

definition copy_tree :: "path \<Rightarrow> path \<Rightarrow> fs \<Rightarrow> ((cli_error + nat) \<times> fs) option" where
  "copy_tree src dst f =
     (if \<not> is_dir f src then Some (Inr 0, f)
      else
        (case enter_dir src dst f of
           (Inl e, f1) \<Rightarrow> Some (Inl e, f1)
         | (Inr entries, f1) \<Rightarrow> copy_entries entries dst 0 f1))"

subsection \<open>What copying does\<close>

text \<open>A tree: whatever is below the source is in a directory, under a plain name.\<close>

definition source_tree :: "path \<Rightarrow> fs \<Rightarrow> bool" where
  "source_tree S f \<longleftrightarrow>
     (\<forall>p x n. fs_lookup f (S @ p @ [x]) = Some n \<longrightarrow> fs_lookup f (S @ p) = Some DirNode \<and> plain x)"

text \<open>Only directories and copies are new, and the source is as it was.\<close>

definition adopts :: "path \<Rightarrow> path \<Rightarrow> fs \<Rightarrow> fs \<Rightarrow> bool" where
  "adopts S T f f' \<longleftrightarrow> fs_grows f f' \<and> (\<forall>q. prefix S q \<longrightarrow> fs_lookup f' q = fs_lookup f q) \<and>
     (\<forall>q n. fs_lookup f' q = Some n \<longrightarrow> fs_lookup f q = None \<longrightarrow>
        n = DirNode \<or> (\<exists>p b. q = T @ p \<and> n = FileNode b \<and> fs_lookup f (S @ p) = Some (FileNode b)))"

lemma adopts_refl [simp, intro]: "adopts S T f f"
  by (simp add: adopts_def)

lemma adopts_source: "adopts S T f f' \<Longrightarrow> prefix S q \<Longrightarrow> fs_lookup f' q = fs_lookup f q"
  by (simp add: adopts_def)

lemma adopts_exists: "adopts S T f f' \<Longrightarrow> path_exists f p \<Longrightarrow> path_exists f' p"
  by (auto simp: adopts_def fs_grows_def path_exists_def)

lemma adopts_tree: "adopts S T f f' \<Longrightarrow> source_tree S f' = source_tree S f"
  by (simp add: source_tree_def adopts_source)

lemma adopts_trans [trans]:
  assumes "adopts S T f g" "adopts S T g h"
  shows "adopts S T f h"
  unfolding adopts_def
proof (intro conjI allI impI)
  show "fs_grows f h" using assms fs_grows_trans unfolding adopts_def by blast
  show "fs_lookup h q = fs_lookup f q" if "prefix S q" for q using that assms by (simp add: adopts_source)
  fix q n assume n: "fs_lookup h q = Some n" "fs_lookup f q = None"
  show "n = DirNode \<or> (\<exists>p b. q = T @ p \<and> n = FileNode b \<and> fs_lookup f (S @ p) = Some (FileNode b))"
  proof (cases "fs_lookup g q")
    case None
    with n(1) assms(2) have "n = DirNode \<or> (\<exists>p b. q = T @ p \<and> n = FileNode b \<and> fs_lookup g (S @ p) = Some (FileNode b))"
      unfolding adopts_def by blast
    then show ?thesis using adopts_source [OF assms(1)] by (metis prefixI)
  next
    case (Some m)
    then have "m = n" using n(1) assms(2) by (auto simp: adopts_def fs_grows_def)
    with Some n(2) assms(1) show ?thesis unfolding adopts_def by blast
  qed
qed

lemma source_above:
  assumes "source_tree S f" "fs_lookup f (S @ p @ q) \<noteq> None"
  shows "fs_lookup f (S @ p) \<noteq> None"
  using assms(2)
proof (induction q rule: rev_induct)
  case (snoc x q)
  then obtain n where "fs_lookup f (S @ (p @ q) @ [x]) = Some n" by auto
  with assms(1) have "fs_lookup f (S @ p @ q) = Some DirNode" unfolding source_tree_def by (metis append_assoc)
  with snoc.IH show ?case by simp
qed simp

text \<open>A file below an entry is the entry itself, or below one of its own entries.\<close>

lemma source_below:
  assumes "source_tree S f" "fs_lookup f (S @ p @ y # q) \<noteq> None"
  shows "fs_lookup f (S @ p) = Some DirNode \<and> fs_lookup f (S @ p @ [y]) \<noteq> None"
proof -
  have "fs_lookup f (S @ p @ [y]) \<noteq> None" using source_above [OF assms(1), of "p @ [y]" q] assms(2) by simp
  with assms(1) show ?thesis unfolding source_tree_def by blast
qed

lemma mk_dirs_new:
  "mk_dirs f d cs = (r, f') \<Longrightarrow> fs_lookup f' q \<noteq> fs_lookup f q \<Longrightarrow> fs_lookup f' q = Some DirNode \<and> prefix q (d @ cs)"
proof (induction f d cs arbitrary: r f' rule: mk_dirs.induct)
  case (1 f d)
  then show ?case by simp
next
  case (2 f d c cs)
  show ?case
  proof (cases "fs_lookup f (d @ [c])")
    case None
    then have run: "mk_dirs (fs_put f (d @ [c]) DirNode) (d @ [c]) cs = (r, f')" using "2.prems"(1) by (simp add: Let_def)
    note grow = mk_dirs_grows [OF this]
    show ?thesis
    proof (cases "q = d @ [c]")
      case True
      then have "fs_lookup f' q = Some DirNode" using grow by (simp add: fs_grows_def fs_simps)
      with True show ?thesis by simp
    next
      case False
      with "2.IH"(1) [OF refl None run] "2.prems"(2) show ?thesis by (simp add: fs_simps)
    qed
  next
    case (Some n)
    show ?thesis
    proof (cases "n = DirNode")
      case True
      then have "mk_dirs f (d @ [c]) cs = (r, f')" using "2.prems"(1) Some by (simp add: Let_def)
      from "2.IH"(2) [OF refl Some True this "2.prems"(2)] show ?thesis by simp
    next
      case False
      then have "f' = f" using "2.prems"(1) Some by (cases n) (simp_all add: Let_def)
      with "2.prems"(2) show ?thesis by simp
    qed
  qed
qed

lemma create_dir_all_new:
  "fs_create_dir_all f p = (r, f') \<Longrightarrow> fs_lookup f' q \<noteq> fs_lookup f q \<Longrightarrow> fs_lookup f' q = Some DirNode \<and> prefix q p"
proof -
  assume run: "fs_create_dir_all f p = (r, f')" and new: "fs_lookup f' q \<noteq> fs_lookup f q"
  let ?f = "f\<lparr>fs_calls := Suc (fs_calls f)\<rparr>"
  have made: "fs_lookup g q = Some DirNode \<and> prefix q p"
    if "mk_dirs ?f [] cs = (r', g)" "prefix cs p" "fs_lookup g q \<noteq> fs_lookup f q" for r' g cs
    using mk_dirs_new [OF that(1), of q] that(2,3) prefix_order.trans by auto
  have parts: "fs_lookup g q = Some DirNode \<and> prefix q p"
    if "g = snd (mk_dirs ?f [] (take k p))" "fs_lookup g q \<noteq> fs_lookup f q" for g k
    using made [of "take k p" _ g] that take_is_prefix [of k p] by (cases "mk_dirs ?f [] (take k p)") auto
  show ?thesis
  proof (cases "fs_faults f (fs_calls f)")
    case None
    with run have "mk_dirs ?f [] p = (r, f')" by (simp add: fs_create_dir_all_def fs_call_in_parts_def Let_def)
    from made [OF this _ new] show ?thesis by simp
  next
    case (Some e)
    with run new have "\<exists>k. f' = snd (mk_dirs ?f [] (take k p))"
      by (auto simp: fs_create_dir_all_def fs_call_in_parts_def Let_def split: option.splits)
    with parts new show ?thesis by blast
  qed
qed

lemma create_adopts:
  assumes "\<not> prefix S T" "\<not> prefix T S" "fs_create_dir_all f (T @ p) = (r, f')"
  shows "adopts S T f f'"
  unfolding adopts_def
proof (intro conjI allI impI)
  show "fs_grows f f'" by (rule create_dir_all_grows [OF assms(3)])
  show "fs_lookup f' q = fs_lookup f q" if "prefix S q" for q
  proof (rule ccontr)
    assume "fs_lookup f' q \<noteq> fs_lookup f q"
    then have "prefix q (T @ p)" using create_dir_all_new [OF assms(3)] by blast
    with that have "prefix S (T @ p)" by (rule prefix_order.trans)
    with assms(1,2) show False by (metis prefixI prefix_same_cases)
  qed
  show "n = DirNode \<or> (\<exists>p b. q = T @ p \<and> n = FileNode b \<and> fs_lookup f (S @ p) = Some (FileNode b))"
    if "fs_lookup f' q = Some n" "fs_lookup f q = None" for q n
    using create_dir_all_new [OF assms(3), of q] that by simp
qed

lemma lookup_in_tree: "q \<noteq> [] \<Longrightarrow> fs_lookup f q \<noteq> None \<longleftrightarrow> q \<in> fst ` set (fs_tree f)"
  using map_of_eq_None_iff [of "fs_tree f" q] by (simp add: fs_lookup_def)

text \<open>What a directory holds.\<close>

definition children_of :: "path \<Rightarrow> fs \<Rightarrow> path set" where
  "children_of d f = {d @ [x] |x. fs_lookup f (d @ [x]) \<noteq> None}"

lemma enter_dir_adopts:
  assumes "\<not> prefix S T" "\<not> prefix T S" "enter_dir src (T @ p) f = (r, f')"
  shows "adopts S T f f' \<and> (\<forall>inner. r = Inr inner \<longrightarrow> set inner = children_of src f')"
proof -
  obtain c f1 where c: "fs_create_dir_all f (T @ p) = (c, f1)" by fastforce
  note a1 = create_adopts [OF assms(1,2) c]
  obtain d f2 where d: "fs_read_dir f1 src = (d, f2)" by fastforce
  note rd = fs_read_dir_effect [OF d]
  then have look: "\<forall>q. fs_lookup f2 q = fs_lookup f1 q" by (simp add: fs_lookup_def)
  then have a2: "adopts S T f f2" using a1 rd by (simp add: adopts_def fs_grows_def)
  have "e \<in> set (dir_entries f1 src) \<longleftrightarrow> e \<in> children_of src f2" for e
  proof -
    have "e \<in> set (dir_entries f1 src) \<longleftrightarrow> e \<noteq> [] \<and> butlast e = src \<and> e \<in> fst ` set (fs_tree f1)"
      by (auto simp only: dir_entries_def set_filter set_map mem_Collect_eq)
    also have "\<dots> \<longleftrightarrow> e \<noteq> [] \<and> butlast e = src \<and> fs_lookup f2 e \<noteq> None" using lookup_in_tree [of e f1] look by metis
    also have "\<dots> \<longleftrightarrow> (\<exists>x. e = src @ [x] \<and> fs_lookup f2 e \<noteq> None)" by (metis append_butlast_last_id butlast_snoc snoc_eq_iff_butlast)
    finally show ?thesis by (auto simp: children_of_def)
  qed
  then have "set (dir_entries f1 src) = children_of src f2" by blast
  with assms(3) c d a1 a2 rd show ?thesis by (auto simp: enter_dir_def map_err_def split: sum.splits)
qed

text \<open>
  A copy that stops half way adopts as well, except that the file it stopped at may be there cut short.
\<close>

definition stopped :: "path \<Rightarrow> path \<Rightarrow> fs \<Rightarrow> fs \<Rightarrow> bool" where
  "stopped S T f f' \<longleftrightarrow> adopts S T f f' \<or>
     (\<exists>g p b k. adopts S T f g \<and> fs_lookup f (S @ p) = Some (FileNode b) \<and> fs_lookup g (T @ p) = None \<and>
        fs_faults f' = fs_faults g \<and>
        (\<forall>q. fs_lookup f' q = (if q = T @ p then Some (FileNode (take k b)) else fs_lookup g q)))"

lemma stopped_trans: "adopts S T f g \<Longrightarrow> stopped S T g h \<Longrightarrow> stopped S T f h"
proof -
  assume a: "adopts S T f g" and st: "stopped S T g h"
  have src: "fs_lookup g (S @ p) = fs_lookup f (S @ p)" for p using adopts_source [OF a] by simp
  show ?thesis using st unfolding stopped_def [of S T g h]
  proof (elim disjE exE conjE)
    assume "adopts S T g h"
    with adopts_trans [OF a] show ?thesis unfolding stopped_def by blast
  next
    fix x p b k
    assume "adopts S T g x" "fs_lookup g (S @ p) = Some (FileNode b)" "fs_lookup x (T @ p) = None"
      "fs_faults h = fs_faults x" "\<forall>q. fs_lookup h q = (if q = T @ p then Some (FileNode (take k b)) else fs_lookup x q)"
    with adopts_trans [OF a] src show ?thesis unfolding stopped_def by (intro disjI2 exI [of _ x] exI [of _ p]) auto
  qed
qed

lemma stopped_effect:
  assumes "stopped S T f f'" "\<not> prefix S T" "\<not> prefix T S"
  shows "fs_grows f f' \<and> (\<forall>q. prefix S q \<longrightarrow> fs_lookup f' q = fs_lookup f q) \<and>
    (\<exists>t. \<forall>q n. fs_lookup f' q = Some n \<longrightarrow> fs_lookup f q = None \<longrightarrow>
       n = DirNode \<or> (\<exists>p b. q = T @ p \<and> fs_lookup f (S @ p) = Some (FileNode b) \<and>
         (n = FileNode b \<or> p = t \<and> (\<exists>k. n = FileNode (take k b)))))"
  using assms(1) unfolding stopped_def
proof (elim disjE exE conjE)
  assume a: "adopts S T f f'"
  then have "fs_grows f f'" by (simp add: adopts_def)
  moreover have "\<exists>t. \<forall>q n. fs_lookup f' q = Some n \<longrightarrow> fs_lookup f q = None \<longrightarrow>
       n = DirNode \<or> (\<exists>p b. q = T @ p \<and> fs_lookup f (S @ p) = Some (FileNode b) \<and>
         (n = FileNode b \<or> p = t \<and> (\<exists>k. n = FileNode (take k b))))"
    using a unfolding adopts_def by blast
  ultimately show ?thesis using adopts_source [OF a] by blast
next
  fix g p b k
  assume g: "adopts S T f g" and b: "fs_lookup f (S @ p) = Some (FileNode b)" "fs_lookup g (T @ p) = None"
    and f': "fs_faults f' = fs_faults g" "\<forall>q. fs_lookup f' q = (if q = T @ p then Some (FileNode (take k b)) else fs_lookup g q)"
  have apart: "\<not> prefix S (T @ p)" using assms(2,3) by (metis prefixI prefix_same_cases)
  have "fs_grows g f'" using b f' by (simp add: fs_grows_def)
  then have "fs_grows f f'" using g fs_grows_trans unfolding adopts_def by blast
  moreover have "fs_lookup f' q = fs_lookup f q" if "prefix S q" for q
    using that apart f' adopts_source [OF g that] by auto
  moreover have "n = DirNode \<or> (\<exists>p2 b. q = T @ p2 \<and> fs_lookup f (S @ p2) = Some (FileNode b) \<and>
      (n = FileNode b \<or> p2 = p \<and> (\<exists>k. n = FileNode (take k b))))"
    if "fs_lookup f' q = Some n" "fs_lookup f q = None" for q n
  proof (cases "q = T @ p")
    case True
    with that f' b show ?thesis by auto
  next
    case False
    with that f' have "fs_lookup g q = Some n" by simp
    with that(2) g show ?thesis unfolding adopts_def by blast
  qed
  ultimately show ?thesis by blast
qed

lemma fs_copy_effect:
  assumes "fs_copy f src dst = (r, f')" "dst \<noteq> []" "\<not> path_exists f dst"
  shows "fs_faults f' = fs_faults f \<and>
    ((\<forall>q. fs_lookup f' q = fs_lookup f q) \<and> isl r \<or>
     (\<exists>b c. fs_lookup f src = Some (FileNode b) \<and>
        (\<forall>q. fs_lookup f' q = (if q = dst then Some (FileNode c) else fs_lookup f q)) \<and>
        (isl r \<and> (\<exists>k. c = take k b) \<or> \<not> isl r \<and> c = b)))"
proof (cases "fs_faults f (fs_calls f)")
  case None
  with assms(1,2) show ?thesis
    by (auto simp: fs_copy_def fs_call_in_parts_def Let_def fs_simps split: option.splits node.splits if_splits)
next
  case (Some e)
  let ?f = "f\<lparr>fs_calls := Suc (fs_calls f)\<rparr>"
  have l: "isl r" using assms(1) Some by (auto simp: fs_copy_def fs_call_in_parts_def Let_def)
  consider "f' = ?f" | (part) b where "fs_lookup f src = Some (FileNode b)" "f' = put_part dst b (fs_calls f) ?f"
    using assms(1) Some
    by (cases "fs_lookup f src") (auto simp: fs_copy_def fs_call_in_parts_def Let_def split: node.splits)
  then show ?thesis
  proof cases
    case part
    have "left_by_write ?f dst b (fs_lookup f' dst)" "\<forall>q. q \<noteq> dst \<longrightarrow> fs_lookup f' q = fs_lookup f q"
      "fs_faults f' = fs_faults f"
      using put_part_effect [OF assms(2), of b "fs_calls f" ?f] part(2) by simp_all
    moreover from this(1) have "fs_lookup f' dst = fs_lookup f dst \<or> (\<exists>k. fs_lookup f' dst = Some (FileNode (take k b)))"
      by (auto simp: left_by_write_def)
    ultimately show ?thesis using part(1) l by (metis)
  qed (use l in simp)
qed

lemma copy_adopts:
  assumes "\<not> prefix S T" "\<not> prefix T S" "fs_copy f (S @ p) (T @ p) = (r, f')" "\<not> path_exists f (T @ p)"
  shows "case r of Inl _ \<Rightarrow> stopped S T f f' | Inr _ \<Rightarrow> adopts S T f f' \<and> path_exists f' (T @ p)"
proof -
  have root: "T @ p \<noteq> []" using assms(2) by auto
  have apart: "\<not> prefix S (T @ p)" using assms(1,2) by (metis prefixI prefix_same_cases)
  consider (same) "\<forall>q. fs_lookup f' q = fs_lookup f q" "fs_faults f' = fs_faults f" "isl r"
    | (put) b c where "fs_lookup f (S @ p) = Some (FileNode b)" "fs_faults f' = fs_faults f"
        "\<forall>q. fs_lookup f' q = (if q = T @ p then Some (FileNode c) else fs_lookup f q)"
        "isl r \<and> (\<exists>k. c = take k b) \<or> \<not> isl r \<and> c = b"
    using fs_copy_effect [OF assms(3) root assms(4)] by blast
  then show ?thesis
  proof cases
    case same
    then have "adopts S T f f'" by (simp add: adopts_def fs_grows_def)
    with same(3) show ?thesis by (cases r) (simp_all add: stopped_def)
  next
    case put
    have none: "fs_lookup f (T @ p) = None" using assms(4) by (simp add: path_exists_def)
    show ?thesis
    proof (cases r)
      case (Inl e)
      with put obtain k where "c = take k b" by auto
      with put none have "stopped S T f f'" unfolding stopped_def by (intro disjI2 exI [of _ f]) auto
      with Inl show ?thesis by simp
    next
      case (Inr u)
      with put apart none show ?thesis by (auto simp: adopts_def fs_grows_def path_exists_def)
    qed
  qed
qed

text \<open>Entry by entry, the levels below by induction on how deep the source still goes.\<close>

definition adopted :: "path \<Rightarrow> path \<Rightarrow> path \<Rightarrow> fs \<Rightarrow> fs \<Rightarrow> bool" where
  "adopted S T e f f' \<longleftrightarrow>
     (\<forall>p b. prefix e (S @ p) \<longrightarrow> fs_lookup f (S @ p) = Some (FileNode b) \<longrightarrow> path_exists f' (T @ p))"

definition copied :: "path \<Rightarrow> path \<Rightarrow> path list \<Rightarrow> path \<Rightarrow> nat \<Rightarrow> fs \<Rightarrow> bool" where
  "copied S T es dst c f \<longleftrightarrow> (\<exists>r f'. copy_entries es dst c f = Some (r, f') \<and>
     (case r of Inl _ \<Rightarrow> stopped S T f f' | Inr _ \<Rightarrow> adopts S T f f' \<and> (\<forall>e \<in> set es. adopted S T e f f')))"

definition within :: "path \<Rightarrow> path \<Rightarrow> nat \<Rightarrow> fs \<Rightarrow> bool" where
  "within S rel k f \<longleftrightarrow> source_tree S f \<and>
     (\<forall>q. prefix S q \<longrightarrow> fs_lookup f q \<noteq> None \<longrightarrow> length q \<le> length S + length rel + k)"

lemma adopts_within: "adopts S T f g \<Longrightarrow> within S rel k g = within S rel k f"
  by (auto simp: within_def adopts_tree adopts_source)

lemma adopts_children: "adopts S T f g \<Longrightarrow> prefix S d \<Longrightarrow> children_of d g = children_of d f"
  by (auto simp: children_of_def adopts_source)

lemma adopted_from: "adopts S T f g \<Longrightarrow> adopted S T e g f' = adopted S T e f f'"
  by (simp add: adopted_def adopts_source)

lemma within_deeper: "within S rel (Suc k) f = within S (rel @ [x]) k f"
  by (simp add: within_def)

lemma within_none: "within S rel 0 f \<Longrightarrow> children_of (S @ rel) f = {}"
  unfolding within_def children_of_def by (fastforce simp: prefix_def)

lemma within_max: "source_tree S f \<Longrightarrow> within S [] (Max (length ` (insert S (fst ` set (fs_tree f))))) f"
  unfolding within_def
proof (intro conjI allI impI)
  fix q assume "fs_lookup f q \<noteq> None"
  then have "q = [] \<or> q \<in> fst ` set (fs_tree f)" using lookup_in_tree by blast
  then have "length q \<le> Max (length ` (insert S (fst ` set (fs_tree f))))"
    by (elim disjE) (simp, intro Max_ge, auto)
  then show "length q \<le> length S + length [] + Max (length ` (insert S (fst ` set (fs_tree f))))" by simp
qed

lemma adopted_file:
  assumes "source_tree S f" "\<not> is_dir f (S @ p)" "path_exists g (T @ p)" "adopts S T g f'"
  shows "adopted S T (S @ p) f f'"
  unfolding adopted_def
proof (intro allI impI)
  fix p' b assume p': "prefix (S @ p) (S @ p')" "fs_lookup f (S @ p') = Some (FileNode b)"
  then obtain ys where ys: "p' = p @ ys" by (auto simp: prefix_def)
  have "ys = []"
  proof (cases ys)
    case (Cons y zs)
    with p'(2) ys source_below [OF assms(1), of p y zs] assms(2) show ?thesis by (simp add: is_dir_def)
  qed simp
  with ys assms(3,4) adopts_exists show "path_exists f' (T @ p')" by simp
qed

lemma adopted_dir:
  assumes "source_tree S f" "is_dir f (S @ p)" "\<forall>d \<in> children_of (S @ p) f. adopted S T d f g" "adopts S T g f'"
  shows "adopted S T (S @ p) f f'"
  unfolding adopted_def
proof (intro allI impI)
  fix p' b assume p': "prefix (S @ p) (S @ p')" "fs_lookup f (S @ p') = Some (FileNode b)"
  then obtain ys where ys: "p' = p @ ys" by (auto simp: prefix_def)
  with p'(2) assms(2) obtain y zs where yz: "ys = y # zs" by (cases ys) (auto simp: is_dir_def)
  with p'(2) ys source_below [OF assms(1), of p y zs] have "(S @ p) @ [y] \<in> children_of (S @ p) f"
    by (simp add: children_of_def)
  with assms(3) have "adopted S T ((S @ p) @ [y]) f g" by blast
  moreover have "prefix ((S @ p) @ [y]) (S @ p')" using ys yz by simp
  ultimately have "path_exists g (T @ p')" using p'(2) unfolding adopted_def by blast
  with assms(4) show "path_exists f' (T @ p')" by (rule adopts_exists)
qed

lemma copied_rest:
  assumes "adopts S T f g" "\<And>f'. adopts S T g f' \<Longrightarrow> adopted S T e f f'" "copied S T es dst c g"
    and "copy_entries (e # es) dst c' f = copy_entries es dst c g"
  shows "copied S T (e # es) dst c' f"
proof -
  obtain r f' where run: "copy_entries es dst c g = Some (r, f')"
    "case r of Inl _ \<Rightarrow> stopped S T g f' | Inr _ \<Rightarrow> adopts S T g f' \<and> (\<forall>e \<in> set es. adopted S T e g f')"
    using assms(3) unfolding copied_def by blast
  with assms(2,4) adopts_trans [OF assms(1)] stopped_trans [OF assms(1)] adopted_from [OF assms(1)] show ?thesis
    unfolding copied_def by (cases r) simp_all
qed

lemma copied_fails:
  "copy_entries es dst c f = Some (Inl e, f') \<Longrightarrow> stopped S T f f' \<Longrightarrow> copied S T es dst c f"
  by (simp add: copied_def)

lemma copied_file:
  assumes apart: "\<not> prefix S T" "\<not> prefix T S" and tree: "source_tree S f" and x: "plain x"
    and leaf: "\<not> is_dir f (S @ rel @ [x])" and rest: "\<And>c g. adopts S T f g \<Longrightarrow> copied S T es (T @ rel) c g"
  shows "copied S T ((S @ rel @ [x]) # es) (T @ rel) c f"
proof -
  let ?e = "S @ rel @ [x]" and ?to = "T @ rel @ [x]"
  have to: "join (T @ rel) (last ?e) = ?to" using x by (simp add: join_of_plain)
  note run = copy_entries.simps [of "?e # es" "T @ rel" c f]
  note cover = adopted_file [OF tree, of "rel @ [x]"]
  show ?thesis
  proof (cases "path_exists f ?to")
    case True
    show ?thesis by (rule copied_rest [OF adopts_refl cover [OF leaf True] rest [OF adopts_refl, of c]])
      (use run leaf True to in \<open>simp_all add: Let_def\<close>)
  next
    case new: False
    obtain y f1 where y: "fs_copy f ?e ?to = (y, f1)" by fastforce
    note cp = copy_adopts [OF apart y new]
    show ?thesis
    proof (cases y)
      case (Inl er)
      with cp run leaf new y to show ?thesis by (intro copied_fails [where f' = f1]) (simp_all add: Let_def)
    next
      case (Inr u)
      with cp have a1: "adopts S T f f1" and there: "path_exists f1 ?to" by simp_all
      show ?thesis by (rule copied_rest [OF a1 cover [OF leaf there] rest [OF a1, of "c + 1"]])
        (use run leaf new y Inr to in \<open>simp_all add: Let_def\<close>)
    qed
  qed
qed

lemma copied_dir:
  assumes apart: "\<not> prefix S T" "\<not> prefix T S" and tree: "source_tree S f" and x: "plain x"
    and dir: "is_dir f (S @ rel @ [x])" and rest: "\<And>c g. adopts S T f g \<Longrightarrow> copied S T es (T @ rel) c g"
    and inner: "\<And>inner g. adopts S T f g \<Longrightarrow> set inner = children_of (S @ rel @ [x]) g \<Longrightarrow>
      copied S T inner (T @ rel @ [x]) 0 g"
  shows "copied S T ((S @ rel @ [x]) # es) (T @ rel) c f"
proof -
  let ?e = "S @ rel @ [x]" and ?to = "T @ rel @ [x]"
  have to: "join (T @ rel) (last ?e) = ?to" using x by (simp add: join_of_plain)
  note run = copy_entries.simps [of "?e # es" "T @ rel" c f]
  obtain i f1 where i: "enter_dir ?e ?to f = (i, f1)" by fastforce
  note en = enter_dir_adopts [OF apart i]
  show ?thesis
  proof (cases i)
    case (Inl er)
    with en run dir i to show ?thesis by (intro copied_fails [where f' = f1]) (simp_all add: Let_def stopped_def)
  next
    case (Inr ds)
    with en have ds: "set ds = children_of ?e f1" by simp
    from inner [OF conjunct1 [OF en] ds] obtain r2 f2 where sub: "copy_entries ds ?to 0 f1 = Some (r2, f2)"
      "case r2 of Inl _ \<Rightarrow> stopped S T f1 f2 | Inr _ \<Rightarrow> adopts S T f1 f2 \<and> (\<forall>d \<in> set ds. adopted S T d f1 f2)"
      unfolding copied_def by blast
    show ?thesis
    proof (cases r2)
      case e: (Inl er)
      with sub(2) have "stopped S T f f2" using stopped_trans [OF conjunct1 [OF en]] by simp
      with e run dir i to Inr sub(1) show ?thesis by (intro copied_fails [where f' = f2]) (simp_all add: Let_def)
    next
      case n: (Inr n)
      with sub(2) have "adopts S T f1 f2" by simp
      note a2 = adopts_trans [OF conjunct1 [OF en] this]
      have "\<forall>d \<in> children_of ?e f. adopted S T d f f2"
        using sub(2) n ds adopts_children [OF conjunct1 [OF en], of ?e] adopted_from [OF conjunct1 [OF en]] by simp
      note cover = adopted_dir [OF tree dir this]
      show ?thesis by (rule copied_rest [OF a2 cover rest [OF a2, of "c + n"]])
        (use run dir i Inr to sub(1) n in \<open>simp_all add: Let_def\<close>)
    qed
  qed
qed

lemma copy_entries_adopts:
  assumes apart: "\<not> prefix S T" "\<not> prefix T S"
  shows "within S rel k f \<Longrightarrow> set es \<subseteq> children_of (S @ rel) f \<Longrightarrow> copied S T es (T @ rel) c f"
proof (induction k arbitrary: es rel c f)
  case 0
  then have "es = []" using within_none by fastforce
  then show ?case by (simp add: copied_def copy_entries.simps)
next
  case (Suc k)
  note deeper = Suc.IH
  show ?case
    using Suc.prems
  proof (induction es arbitrary: c f)
    case Nil
    then show ?case by (simp add: copied_def copy_entries.simps)
  next
    case (Cons e es)
    obtain x where e: "e = S @ rel @ [x]" "fs_lookup f e \<noteq> None" using Cons.prems(2) by (auto simp: children_of_def)
    have tree: "source_tree S f" using Cons.prems(1) by (simp add: within_def)
    with e have x: "plain x" unfolding source_tree_def by (metis append_assoc not_None_eq)
    have rest: "copied S T es (T @ rel) c' g" if g: "adopts S T f g" for c' g
      using Cons.IH Cons.prems adopts_within [OF g] adopts_children [OF g] by simp
    have inner: "copied S T ds (T @ rel @ [x]) 0 g" if g: "adopts S T f g" and ds: "set ds = children_of e g" for ds g
      using deeper [of "rel @ [x]" g ds 0] Cons.prems(1) adopts_within [OF g] ds e(1) by (simp add: within_deeper [of S rel k _ x])
    show ?case unfolding e(1)
      using copied_dir [OF apart tree x _ rest inner [unfolded e(1)]] copied_file [OF apart tree x _ rest] by blast
  qed
qed

lemma copy_tree_runs:
  assumes "\<not> prefix S T" "\<not> prefix T S" "source_tree S f"
  shows "\<exists>r f'. copy_tree S T f = Some (r, f') \<and>
    (case r of Inl _ \<Rightarrow> stopped S T f f'
     | Inr _ \<Rightarrow> adopts S T f f' \<and>
        (\<forall>p b. p \<noteq> [] \<longrightarrow> fs_lookup f (S @ p) = Some (FileNode b) \<longrightarrow> path_exists f' (T @ p)))"
proof (cases "is_dir f S")
  case False
  have "fs_lookup f (S @ p) = None" if p: "p \<noteq> []" for p
  proof -
    obtain y q where "p = y # q" using p by (cases p) auto
    with source_below [OF assms(3), of "[]" y q] False show ?thesis
      by (cases "fs_lookup f (S @ p)") (simp_all add: is_dir_def)
  qed
  with False show ?thesis by (simp add: copy_tree_def)
next
  case True
  obtain i f1 where i: "enter_dir S T f = (i, f1)" by fastforce
  note en = enter_dir_adopts [OF assms(1,2), of S "[]" f i f1, simplified, OF i]
  show ?thesis
  proof (cases i)
    case (Inl e)
    with True i en show ?thesis by (simp add: copy_tree_def stopped_def)
  next
    case (Inr es)
    note a1 = conjunct1 [OF en]
    have "within S [] (Max (length ` (insert S (fst ` set (fs_tree f1))))) f1"
      using within_max adopts_tree [OF a1] assms(3) by simp
    moreover have es: "set es = children_of S f1" using en Inr by simp
    ultimately have "copied S T es T 0 f1" using copy_entries_adopts [OF assms(1,2), of "[]"] by simp
    then obtain r f2 where run: "copy_entries es T 0 f1 = Some (r, f2)"
        "case r of Inl _ \<Rightarrow> stopped S T f1 f2 | Inr _ \<Rightarrow> adopts S T f1 f2 \<and> (\<forall>d \<in> set es. adopted S T d f1 f2)"
      unfolding copied_def by blast
    have "path_exists f2 (T @ p)" if p: "r = Inr n" "p \<noteq> []" "fs_lookup f (S @ p) = Some (FileNode b)" for n p b
    proof -
      have "adopted S T S f1 f2"
        using adopted_dir [of S f1 "[]" T f2 f2] adopts_tree [OF a1] assms(3) True adopts_source [OF a1, of S] run(2) p(1) es
        by (simp add: is_dir_def)
      with p(3) adopts_source [OF a1, of "S @ p"] show ?thesis unfolding adopted_def by simp
    qed
    moreover have "copy_tree S T f = Some (r, f2)" using True i Inr run(1) by (simp add: copy_tree_def)
    ultimately show ?thesis using run(2) adopts_trans [OF a1] stopped_trans [OF a1] by (cases r) auto
  qed
qed

text \<open>C14: what adopting a tree of pages does, on success and when it fails on the way. Into a store outside
  the source it always comes back, and it never changes or replaces anything that was there. When it
  reports success, what is new is a directory or the copy of a file of the source in the same place,
  and every file of the source is in the store. When it fails, the same is new, save that one file, the
  one it failed at, may have been left cut short.\<close>

theorem copy_tree_adopts:
  assumes "\<not> prefix S T" "\<not> prefix T S" "source_tree S f"
  shows "\<exists>r f'. copy_tree S T f = Some (r, f') \<and> fs_grows f f' \<and> (\<forall>q. prefix S q \<longrightarrow> fs_lookup f' q = fs_lookup f q) \<and>
    (case r of
       Inr _ \<Rightarrow> adopts S T f f' \<and>
         (\<forall>p b. p \<noteq> [] \<longrightarrow> fs_lookup f (S @ p) = Some (FileNode b) \<longrightarrow> path_exists f' (T @ p))
     | Inl _ \<Rightarrow> \<exists>t. \<forall>q n. fs_lookup f' q = Some n \<longrightarrow> fs_lookup f q = None \<longrightarrow>
         n = DirNode \<or> (\<exists>p b. q = T @ p \<and> fs_lookup f (S @ p) = Some (FileNode b) \<and>
           (n = FileNode b \<or> p = t \<and> (\<exists>k. n = FileNode (take k b)))))"
proof -
  obtain r f' where run: "copy_tree S T f = Some (r, f')"
    "case r of Inl _ \<Rightarrow> stopped S T f f'
     | Inr _ \<Rightarrow> adopts S T f f' \<and>
        (\<forall>p b. p \<noteq> [] \<longrightarrow> fs_lookup f (S @ p) = Some (FileNode b) \<longrightarrow> path_exists f' (T @ p))"
    using copy_tree_runs [OF assms] by blast
  then have "stopped S T f f'" by (cases r) (simp_all add: stopped_def)
  from stopped_effect [OF this assms(1,2)] run show ?thesis by (cases r) auto
qed


definition demo_fetched :: fs where
  "demo_fetched = \<lparr>fs_tree = [([''cache''], DirNode), ([''cache'', ''aa''], DirNode), ([''cache'', ''aa'', ''1''], FileNode [1]),
     ([''cache'', ''aa'', ''2''], FileNode [2]), ([''cas''], DirNode), ([''cas'', ''aa''], DirNode),
     ([''cas'', ''aa'', ''2''], FileNode [2])], fs_faults = (\<lambda>_. None), fs_calls = 0,
     fs_done = (\<lambda>_. None), fs_gone = (\<lambda>_ _. False)\<rparr>"

lemma copy_tree_adopts_witness:
  "\<exists>f'. copy_tree [''cache''] [''cas''] demo_fetched = Some (Inr 1, f') \<and>
     path_exists f' [''cas'', ''aa'', ''1''] \<and> adopts [''cache''] [''cas''] demo_fetched f'"
proof -
  have tree: "source_tree [''cache''] demo_fetched"
    by (auto simp: source_tree_def fs_lookup_def demo_fetched_def plain_def append_eq_Cons_conv Cons_eq_append_conv
        split: if_splits)
  have run: "map_option fst (copy_tree [''cache''] [''cas''] demo_fetched) = Some (Inr 1)" by code_simp
  have "fs_lookup demo_fetched ([''cache''] @ [''aa'', ''1'']) = Some (FileNode [1])"
    by (simp add: fs_lookup_def demo_fetched_def)
  moreover obtain f' where f': "copy_tree [''cache''] [''cas''] demo_fetched = Some (Inr 1, f')"
    using run by (cases "copy_tree [''cache''] [''cas''] demo_fetched") auto
  with copy_tree_adopts [OF _ _ tree, of "[''cas'']"] have "adopts [''cache''] [''cas''] demo_fetched f'"
    "\<forall>p b. p \<noteq> [] \<longrightarrow> fs_lookup demo_fetched ([''cache''] @ p) = Some (FileNode b) \<longrightarrow> path_exists f' ([''cas''] @ p)"
    by auto
  ultimately show ?thesis using f' by fastforce
qed




end
