(* ===== verification/Cli_Tier.thy ===== *)
theory Cli_Tier
  imports Cli_Copy
begin

section \<open>Sleep and wake\<close>

text \<open>
  \<open>crates/flock-cli/src/cmd/tier.rs\<close>. The tier is given as text, because a URL is refused by its text.
  A sleep whose walk of the manifests, or a wake whose copy of a tree, does not return is \<open>None\<close>.
\<close>

subsection \<open>The tier\<close>

definition cli_remote_tier :: "('w, 'a, 'b, 'col, 'o) cli_env \<Rightarrow> path \<Rightarrow> string \<Rightarrow> cli_error + 'o remote_tier" where
  "cli_remote_tier C dir pool =
     (case ce_backend C dir of
        Inl e \<Rightarrow> Inl (CTier dir e)
      | Inr backend \<Rightarrow> Inr \<lparr>rt_backend = backend, rt_pool = pool\<rparr>)"

fun contains :: "string \<Rightarrow> string \<Rightarrow> bool" where
  "contains p [] \<longleftrightarrow> p = []"
| "contains p (c # cs) \<longleftrightarrow> take (length p) (c # cs) = p \<or> contains p cs"

definition prepare_tier_dir :: "string \<Rightarrow> fs \<Rightarrow> (cli_error + path) \<times> fs" where
  "prepare_tier_dir text f =
     (if contains ''://'' text then (Inl (TierNotSupported text), f)
      else
        (let dir = components text
         in case fs_create_dir_all f dir of
              (Inl e, f1) \<Rightarrow> (Inl (CIo ''create the tier directory'' dir e), f1)
            | (Inr _, f1) \<Rightarrow>
                (case fs_canonicalize f1 dir of
                   (r, f2) \<Rightarrow> (map_err (CIo ''resolve the tier directory'' dir) r, f2))))"

text \<open>\<open>PathBuf::join\<close> as text.\<close>

definition join_text :: "string \<Rightarrow> string \<Rightarrow> string" where
  "join_text r s = (if r = [] \<or> last r = CHR ''/'' then r @ s else r @ CHR ''/'' # s)"

definition pool_name :: "workspace \<Rightarrow> fs \<Rightarrow> string \<times> fs" where
  "pool_name ws f =
     (case fs_canonicalize f (ws_root ws) of
        (r, f') \<Rightarrow>
          (let name = filter (\<lambda>c. ascii_alphanumeric c \<or> c = CHR ''-'' \<or> c = CHR ''_'')
             (case r of Inl _ \<Rightarrow> [] | Inr p \<Rightarrow> (case file_name p of Some n \<Rightarrow> n | None \<Rightarrow> []))
           in (if name = [] then ''flock'' else name, f')))"

definition cli_runtime :: "('w, 'a, 'b, 'col, 'o) cli_env \<Rightarrow> cli_error + unit" where
  "cli_runtime C = map_err (CIo ''start the async runtime'' [''.'']) (ce_runtime C)"

subsection \<open>Sleep\<close>

text \<open>After the database has slept: the record, and only then the branch's directory.\<close>

definition finish_sleep :: "('w, 'a, 'b, 'col, 'o) cli_env \<Rightarrow> workspace \<Rightarrow> string \<Rightarrow> path \<Rightarrow> string \<Rightarrow> wake_token \<Rightarrow>
    'w \<Rightarrow> fs \<Rightarrow> 'w cli_result" where
  "finish_sleep C ws branch tier pool token w f =
     (case js_of_token (ce_json C) token of
        Inl e \<Rightarrow> (Err (CStore ''encode the WakeToken'' e), w, f, [])
      | Inr text \<Rightarrow>
          (case write_sleep_record (ce_json C) ws branch \<lparr>sr_tier = tier, sr_pool = pool, sr_token = text\<rparr> f of
             (Inl e, f1) \<Rightarrow> (Err e, w, f1, [])
           | (Inr _, f1) \<Rightarrow>
               (case remove_branch_dir ws branch f1 of
                  (Inl e, f2) \<Rightarrow> (Err e, ce_reload C f2 w, f2, [])
                | (Inr _, f2) \<Rightarrow>
                    (Ok (), ce_reload C f2 w, f2,
                     [SayWentToSleep branch tier, SayRecordAt (sleep_record_path ws branch), SayPagesKept,
                      SayWakeWith branch]))))"

definition cli_sleep :: "('c, 'a, 'b) duck_ops \<Rightarrow> ('w, 'h, 't, 'm, 'o) subst \<Rightarrow> ('w, 'a, 'b, 'col, 'o) cli_env \<Rightarrow>
    workspace \<Rightarrow> string option \<Rightarrow> string option \<Rightarrow> 'w \<Rightarrow> fs \<Rightarrow> 'w cli_result option" where
  "cli_sleep D B C ws branch tier w f =
     (case ws_resolve ws branch f of
        (Inl e, f1) \<Rightarrow> Some (Err e, w, f1, [])
      | (Inr name, f1) \<Rightarrow>
     (case prepare_tier_dir (case tier of Some t \<Rightarrow> t | None \<Rightarrow> join_text (ws_text ws) ''cold'') f1 of
        (Inl e, f2) \<Rightarrow> Some (Err e, w, f2, [])
      | (Inr dir, f2) \<Rightarrow>
          (let (pool, f3) = pool_name ws f2
           in case cli_remote_tier C dir pool of
                Inl e \<Rightarrow> Some (Err e, w, f3, [])
              | Inr remote \<Rightarrow>
     (case flock_open D B (ws_root ws) name w f3 of
        (Inl e, w1, f4) \<Rightarrow> Some (Err (CFlock e), w1, f4, [])
      | (Inr db, w1, f4) \<Rightarrow>
     (case cli_runtime C of
        Inl e \<Rightarrow> Some (Err e, w1, close_db db f4, [])
      | Inr _ \<Rightarrow>
     (case db_sleep D B (ce_order C) db remote w1 f4 of
        None \<Rightarrow> None
      | Some (Err e, w2, f5) \<Rightarrow> Some (Err (CFlock e), w2, f5, [])
      | Some (Panic, w2, f5) \<Rightarrow> Some (Panic, w2, f5, [])
      | Some (Ok token, w2, f5) \<Rightarrow> Some (finish_sleep C ws name dir pool token w2 f5)))))))"

subsection \<open>Wake\<close>

text \<open>Adopting the fetched pages, then the branch again at the token's manifest.\<close>

definition adopt :: "('c, 'a, 'b) duck_ops \<Rightarrow> ('w, 'h, 't, 'm, 'o) subst \<Rightarrow> ('w, 'a, 'b, 'col, 'o) cli_env \<Rightarrow>
    workspace \<Rightarrow> string \<Rightarrow> sleep_record \<Rightarrow> path \<Rightarrow> manifest_id \<Rightarrow> 'w \<Rightarrow> fs \<Rightarrow> 'w cli_result option" where
  "adopt D B C ws branch rec cache manifest w f =
     (let cas = ws_cas_dir ws
      in case copy_tree (join cache ''pages'') (join cas ''pages'') f of
           None \<Rightarrow> None
         | Some (Inl e, f1) \<Rightarrow> Some (Err e, ce_reload C f1 w, f1, [])
         | Some (Inr pages, f1) \<Rightarrow>
     (case copy_tree (join cache ''manifests'') (join cas ''manifests'') f1 of
        None \<Rightarrow> None
      | Some (Inl e, f2) \<Rightarrow> Some (Err e, ce_reload C f2 w, f2, [])
      | Some (Inr _, f2) \<Rightarrow>
          Some (case flock_open D B (ws_root ws) branch (ce_reload C f2 w) f2 of
                  (Inl e, w1, f3) \<Rightarrow> (Err (CFlock e), w1, f3, [])
                | (Inr db, w1, f3) \<Rightarrow>
                    (case db_restore D B db manifest w1 f3 of
                       (Inl e, db', w2, f4) \<Rightarrow> (Err (CFlock e), w2, close_db db' f4, [])
                     | (Inr _, db', w2, f4) \<Rightarrow>
                         (case remove_sleep_record ws branch f4 of
                            (Inl e, f5) \<Rightarrow> (Err e, w2, close_db db' f5, [])
                          | (Inr _, f5) \<Rightarrow> (Ok (), w2, close_db db' f5, [SayAwake branch pages (sr_tier rec)]))))))"

definition with_files :: "(fs \<Rightarrow> fs) \<Rightarrow> 'w cli_result option \<Rightarrow> 'w cli_result option" where
  "with_files g = map_option (\<lambda>(r, w, f, out). (r, w, g f, out))"

definition cli_wake :: "('c, 'a, 'b) duck_ops \<Rightarrow> ('w, 'h, 't, 'm, 'o) subst \<Rightarrow> ('w, 'a, 'b, 'col, 'o) cli_env \<Rightarrow>
    workspace \<Rightarrow> string \<Rightarrow> 'w \<Rightarrow> fs \<Rightarrow> 'w cli_result option" where
  "cli_wake D B C ws branch w f =
     (if \<not> ws_exists ws f then Some (Err (NoPool (ws_root ws)), w, f, [])
      else
     (case ws_branches ws f of
        (Inl e, f1) \<Rightarrow> Some (Err e, w, f1, [])
      | (Inr known, f1) \<Rightarrow>
          if branch \<notin> set known then Some (Err (UnknownBranch branch known), w, f1, [])
          else if \<not> is_asleep ws branch f1 then Some (Err (BranchAwake branch), w, f1, [])
          else
     (case read_sleep_record (ce_json C) ws branch f1 of
        (Inl e, f2) \<Rightarrow> Some (Err e, w, f2, [])
      | (Inr rec, f2) \<Rightarrow>
     (case cli_remote_tier C (sr_tier rec) (sr_pool rec) of
        Inl e \<Rightarrow> Some (Err e, w, f2, [])
      | Inr remote \<Rightarrow>
     (case js_to_token (ce_json C) (sr_token rec) of
        Inl e \<Rightarrow> Some (Err (CStore ''decode the WakeToken'' e), w, f2, [])
      | Inr token \<Rightarrow>
     (case duck_temp_dir D f2 of
        (Inl e, f3) \<Rightarrow> Some (Err (CIo ''create a page cache for the wake'' [''$TMPDIR''] e), w, f3, [])
      | (Inr cache, f3) \<Rightarrow>
          with_files (drop_scratch cache)
            (case cli_runtime C of
               Inl e \<Rightarrow> Some (Err e, w, f3, [])
             | Inr _ \<Rightarrow>
                 (case flock_wake D B cache branch remote token w f3 of
                    (Inl e, w1, f4) \<Rightarrow> Some (Err (CFlock e), w1, ce_flush C w1 f4, [])
                  | (Inr db, w1, f4) \<Rightarrow>
                      adopt D B C ws branch rec cache (db_head B db w1) w1 (ce_flush C w1 (close_db db f4))))))))))"

subsection \<open>What a sleep leaves\<close>

declare store_page_store.simps [simp del]

lemma write_sleep_record_effect:
  assumes "write_sleep_record J ws b rec f = (r, f')" "sleep_record_path ws b \<noteq> []"
  shows "(\<forall>q n. q \<noteq> sleep_record_path ws b \<longrightarrow> fs_lookup f q = Some n \<longrightarrow> fs_lookup f' q = Some n) \<and>
    (case r of
       Inl _ \<Rightarrow> \<forall>n. fs_lookup f (sleep_record_path ws b) = Some n \<longrightarrow> \<not> (\<exists>b. n = FileNode b) \<longrightarrow>
         fs_lookup f' (sleep_record_path ws b) = Some n
     | Inr _ \<Rightarrow> \<exists>json. js_of_record J rec = Inr json \<and> fs_lookup f' (sleep_record_path ws b) = Some (FileNode (bytes_of json)))"
proof -
  obtain c f1 where c: "fs_create_dir_all f (asleep_dir ws) = (c, f1)" by fastforce
  note g1 = create_dir_all_grows [OF c, unfolded fs_grows_def]
  show ?thesis
  proof (cases "\<exists>u json. c = Inr u \<and> js_of_record J rec = Inr json")
    case False
    then have "f' = f1" "isl r" using assms(1) c
      by (auto simp: write_sleep_record_def Let_def simp del: below_root split: sum.splits)
    with g1 show ?thesis by (cases r) auto
  next
    case True
    then obtain u json where u: "c = Inr u" "js_of_record J rec = Inr json" by blast
    obtain e f2 where w: "fs_write f1 (sleep_record_path ws b) (bytes_of json) = (e, f2)" by fastforce
    then have r: "r = map_err (CIo ''write the sleep record'' (sleep_record_path ws b)) e" "f' = f2"
      using assms(1) c u by (simp_all add: write_sleep_record_def Let_def del: below_root)
    note wr = fs_write_effect [OF w assms(2)]
    show ?thesis
    proof (cases e)
      case (Inl x)
      with wr have "left_by_write f1 (sleep_record_path ws b) (bytes_of json) (fs_lookup f2 (sleep_record_path ws b))" by simp
      then have "fs_lookup f2 (sleep_record_path ws b) = Some n"
        if "fs_lookup f (sleep_record_path ws b) = Some n" "\<not> (\<exists>b. n = FileNode b)" for n
        using g1 that by (auto simp: left_by_write_def is_file_def path_exists_def split: node.splits)
      with Inl wr g1 r show ?thesis by (simp add: map_err_def)
    next
      case (Inr x)
      with wr g1 u(2) r show ?thesis by (simp add: map_err_def)
    qed
  qed
qed

lemma remove_branch_dir_outside:
  assumes "remove_branch_dir ws b f = (r, f')" "\<not> prefix (join (dbs_dir ws) b) q"
  shows "fs_lookup f' q = fs_lookup f q"
proof -
  have "f' = drop_scratch (join (dbs_dir ws) b) f"
    using assms(1) by (auto simp: remove_branch_dir_def drop_scratch_def Let_def simp del: below_root
        split: prod.splits sum.splits io_error.splits)
  with drop_scratch_outside [OF assms(2)] show ?thesis by simp
qed

lemma flock_open_name: "flock_open_with D B root name opts w f = (Inr db, w', f') \<Longrightarrow> validate_name name = Inr ()"
  by (auto simp: flock_open_with_def Let_def split: sum.splits prod.splits)

lemma prepare_tier_grows: "prepare_tier_dir t f = (r, f') \<Longrightarrow> fs_grows f f'"
proof -
  assume run: "prepare_tier_dir t f = (r, f')"
  obtain c f1 where c: "fs_create_dir_all f (components t) = (c, f1)" by fastforce
  obtain d f2 where d: "fs_canonicalize f1 (components t) = (d, f2)" by fastforce
  have "fs_grows f1 f2" using d by (auto simp: fs_canonicalize_def fs_call_def fs_call_in_parts_def Let_def fs_grows_def split: option.splits)
  moreover have "f' \<in> {f, f1, f2}" using run c d by (auto simp: prepare_tier_dir_def Let_def split: sum.splits if_splits)
  ultimately show ?thesis using create_dir_all_grows [OF c] fs_grows_trans by blast
qed

lemma pool_name_grows: "pool_name ws f = (n, f') \<Longrightarrow> fs_grows f f'"
  by (auto simp: pool_name_def fs_canonicalize_def fs_call_def fs_call_in_parts_def Let_def fs_grows_def split: option.splits prod.splits)

text \<open>What is on disk once the record of a sleep is written, until and after the branch's directory is
  removed: all of the pool but that directory, and the record, whose token's database is in the tier.\<close>

definition slept :: "('w, 'h, 't, 'm, 'o) subst \<Rightarrow> ('w, 'h, 'm) sleep_view \<Rightarrow> ('w, 'a, 'b, 'col, 'o) cli_env \<Rightarrow> workspace \<Rightarrow>
    string \<Rightarrow> 'w \<Rightarrow> fs \<Rightarrow> fs \<Rightarrow> bool" where
  "slept B S C ws name w f f' \<longleftrightarrow>
     (\<forall>q n. prefix (ws_root ws) q \<longrightarrow> q \<noteq> sleep_record_path ws name \<longrightarrow> \<not> prefix (db_dir (ws_root ws) name) q \<longrightarrow>
        fs_lookup f q = Some n \<longrightarrow> fs_lookup f' q = Some n) \<and>
     (\<exists>rec json token. fs_lookup f' (sleep_record_path ws name) = Some (FileNode (bytes_of json)) \<and>
        js_of_record (ce_json C) rec = Inr json \<and> js_of_token (ce_json C) token = Inr (sr_token rec) \<and>
        uploaded B S (wt_manifest token) w)"

lemma finish_sleep_keeps:
  assumes run: "finish_sleep C ws name tier pool token w f = (r, w', f', out)" and v: "validate_name name = Inr ()"
    and up: "uploaded B S (wt_manifest token) w" and held: "holds (ws_root ws) f0 f" and awake: "\<not> is_asleep ws name f0"
  shows "holds (ws_root ws) f0 f' \<or> (w' = ce_reload C f' w \<and> slept B S C ws name w f0 f')"
proof -
  have path: "sleep_record_path ws name = ws_root ws @ [''asleep'', name @ ''.json'']" by (rule sleep_record_valid [OF v])
  have dir: "join (dbs_dir ws) name = db_dir (ws_root ws) name" by (simp add: db_dir_def dbs_dir_def del: below_root)
  show ?thesis
  proof (cases "js_of_token (ce_json C) token")
    case (Inl e)
    with run held show ?thesis by (auto simp: finish_sleep_def)
  next
    case (Inr t)
    let ?rec = "\<lparr>sr_tier = tier, sr_pool = pool, sr_token = t\<rparr>"
    obtain k f1 where k: "write_sleep_record (ce_json C) ws name ?rec f = (k, f1)" by fastforce
    have "sleep_record_path ws name \<noteq> []" using path by simp
    note eff = write_sleep_record_effect [OF k this]
    show ?thesis
    proof (cases k)
      case (Inl e)
      have "fs_lookup f1 q = Some n" if q: "prefix (ws_root ws) q" "fs_lookup f0 q = Some n" for q n
      proof (cases "q = sleep_record_path ws name")
        case True
        then have "\<not> (\<exists>b. n = FileNode b)" using awake q(2) by (auto simp: is_asleep_def is_file_def)
        with eff Inl True held q show ?thesis by (simp add: holds_def)
      next
        case False
        with eff held q show ?thesis by (simp add: holds_def)
      qed
      moreover have "f' = f1" using run Inr k Inl by (auto simp: finish_sleep_def)
      ultimately show ?thesis by (simp add: holds_def)
    next
      case u: (Inr u)
      obtain d f2 where d: "remove_branch_dir ws name f1 = (d, f2)" by fastforce
      have f': "f' = f2" "w' = ce_reload C f2 w" using run Inr k u d by (auto simp: finish_sleep_def split: sum.splits)
      have outside: "fs_lookup f2 q = fs_lookup f1 q" if "\<not> prefix (db_dir (ws_root ws) name) q" for q
        using remove_branch_dir_outside [OF d, unfolded dir] that by blast
      from eff u obtain json where json: "js_of_record (ce_json C) ?rec = Inr json"
        "fs_lookup f1 (sleep_record_path ws name) = Some (FileNode (bytes_of json))" by auto
      have "\<not> prefix (db_dir (ws_root ws) name) (sleep_record_path ws name)"
        using db_dir_valid [OF v] path by simp
      with json(2) outside have "fs_lookup f2 (sleep_record_path ws name) = Some (FileNode (bytes_of json))" by simp
      moreover have "fs_lookup f2 q = Some n" if "prefix (ws_root ws) q" "q \<noteq> sleep_record_path ws name"
        "\<not> prefix (db_dir (ws_root ws) name) q" "fs_lookup f0 q = Some n" for q n
        using that held eff outside by (simp add: holds_def)
      ultimately have "slept B S C ws name w f0 f2" unfolding slept_def using json(1) Inr up by fastforce
      with f' show ?thesis by simp
    qed
  qed
qed

text \<open>
  What sleeping does before the database itself sleeps: it is refused with every file of the other
  branches kept, or the branch is open in its own directory and the outcome is that of putting it to sleep.
\<close>

lemma cli_sleep_cases:
  assumes "duck_law D (ws_root ws)"
  obtains (refused) r w' f' out where "cli_sleep D B C ws branch tier w f = Some (r, w', f', out)" "holds (ws_root ws) f f'"
  | (opened) name f1 dir pool remote f3 db w1 f4 where "ws_resolve ws branch f = (Inr name, f1)"
      "flock_open D B (ws_root ws) name w f3 = (Inr db, w1, f4)" "db_away (ws_root ws) db" "holds (ws_root ws) f f4"
      "cli_sleep D B C ws branch tier w f =
        (case db_sleep D B (ce_order C) db remote w1 f4 of
           None \<Rightarrow> None
         | Some (Err e, w2, f5) \<Rightarrow> Some (Err (CFlock e), w2, f5, [])
         | Some (Panic, w2, f5) \<Rightarrow> Some (Panic, w2, f5, [])
         | Some (Ok token, w2, f5) \<Rightarrow> Some (finish_sleep C ws name dir pool token w2 f5))"
proof -
  let ?root = "ws_root ws"
  let ?tier = "case tier of Some t \<Rightarrow> t | None \<Rightarrow> join_text (ws_text ws) ''cold''"
  obtain n f1 where res: "ws_resolve ws branch f = (n, f1)" by fastforce
  have h1: "holds ?root f f1" using only_asked_same(1) [OF ws_resolve_frame [OF res]] by (simp add: holds_lookups)
  obtain p f2 where p: "prepare_tier_dir ?tier f1 = (p, f2)" by fastforce
  have h2: "holds ?root f f2" by (rule holds_trans [OF h1 holds_grows [OF prepare_tier_grows [OF p]]])
  obtain pool f3 where pn: "pool_name ws f2 = (pool, f3)" by fastforce
  have h3: "holds ?root f f3" by (rule holds_trans [OF h2 holds_grows [OF pool_name_grows [OF pn]]])
  note run = cli_sleep_def [of D B C ws branch tier w f] res p pn
  show ?thesis
  proof (cases "\<exists>name dir remote. n = Inr name \<and> p = Inr dir \<and> cli_remote_tier C dir pool = Inr remote")
    case False
    note no = False
    show ?thesis
    proof (cases n)
      case (Inl e)
      with refused h1 run show ?thesis by simp
    next
      case name: (Inr name)
      show ?thesis
      proof (cases p)
        case (Inl e)
        with refused h2 run name show ?thesis by simp
      next
        case (Inr dir)
        with no name obtain e where "cli_remote_tier C dir pool = Inl e" by (cases "cli_remote_tier C dir pool") auto
        with refused h3 run name Inr show ?thesis by simp
      qed
    qed
  next
    case True
    then obtain name dir remote where k: "n = Inr name" "p = Inr dir" "cli_remote_tier C dir pool = Inr remote" by blast
    obtain h w1 f4 where op: "flock_open D B ?root name w f3 = (h, w1, f4)"
      by (cases "flock_open D B ?root name w f3") auto
    note oh = flock_open_holds [OF assms op [unfolded flock_open_def]]
    have h4: "holds ?root f f4" using h3 oh holds_trans by blast
    show ?thesis
    proof (cases h)
      case (Inl e)
      with refused h4 run k op show ?thesis by simp
    next
      case (Inr db)
      with oh have away: "db_away ?root db" by simp
      from Inr refused [OF _ close_db_holds [OF away h4]] opened [OF _ op [unfolded Inr] away h4] run k op
      show ?thesis by (cases "cli_runtime C") simp_all
    qed
  qed
qed

text \<open>C4: a sleep never loses the branch. Over any history substrate can hold, and whatever fails, \<open>flock
  sleep\<close> returns; and whatever it returns, either the pool still holds all it held, or all but the
  directory of the branch it resolved is there together with a sleep record of a token whose manifest,
  with everything reachable from it, is in the tier.\<close>

theorem sleep_keeps_branch:
  assumes "duck_law D (ws_root ws)" "substrate_law B V" "sleep_law B V S" "\<And>m. finite (ancestry B S m)"
    and "\<And>ps. set (ce_order C ps) = set ps" "sv_inv V w"
  shows "\<exists>r w' f' out. cli_sleep D B C ws branch tier w f = Some (r, w', f', out) \<and>
    (holds (ws_root ws) f f' \<or>
      (\<exists>name f1 w2. ws_resolve ws branch f = (Inr name, f1) \<and> w' = ce_reload C f' w2 \<and> slept B S C ws name w2 f f'))"
proof (cases rule: cli_sleep_cases [OF assms(1), of B C branch tier w f, case_names refused opened])
  case refused
  then show ?thesis by blast
next
  case (opened name f1 dir pool remote f3 db w1 f4)
  let ?root = "ws_root ws"
  note op = opened(2) [unfolded flock_open_def]
  from db_sleep_runs [OF assms(2-5), where db = db and w = w1 and D = D and remote = remote and f = f4]
    flock_open_Inr [OF assms(2,6) op]
  obtain o2 w2 f5 where sl: "db_sleep D B (ce_order C) db remote w1 f4 = Some (o2, w2, f5)"
    "\<forall>token. o2 = Ok token \<longrightarrow> uploaded B S (wt_manifest token) w2" by blast
  have h5: "holds ?root f f5" using opened(4) db_sleep_holds [OF assms(1) opened(3) sl(1)] holds_trans by blast
  show ?thesis
  proof (cases o2)
    case token: (Ok token)
    obtain r w' f' out where fin: "finish_sleep C ws name dir pool token w2 f5 = (r, w', f', out)"
      by (cases "finish_sleep C ws name dir pool token w2 f5") auto
    have "uploaded B S (wt_manifest token) w2" using sl(2) token by simp
    from finish_sleep_keeps [OF fin flock_open_name [OF op] this h5] ws_resolve_Inr [OF opened(1)] opened(1)
    have "holds ?root f f' \<or> (\<exists>name f1 w2. ws_resolve ws branch f = (Inr name, f1) \<and> w' = ce_reload C f' w2 \<and>
      slept B S C ws name w2 f f')"
      by blast
    then show ?thesis using opened(5) sl(1) token fin by simp
  qed (use opened(5) sl(1) h5 in simp_all)
qed

lemma sleep_keeps_branch_witness:
  "\<exists>r w' f' out. cli_sleep demo_duck demo_subst demo_cli_env demo_ws (Some ''a'') (Some ''tier'') demo_closed demo_cli =
      Some (r, w', f', out) \<and>
    (holds [''pool''] demo_cli f' \<or>
      (\<exists>name f1 w2. ws_resolve demo_ws (Some ''a'') demo_cli = (Inr name, f1) \<and> w' = w2 \<and>
         slept demo_subst demo_sleep demo_cli_env demo_ws name w2 demo_cli f'))"
proof -
  have law: "duck_law demo_duck (ws_root demo_ws)" using demo_duck_law by simp
  have fin: "finite (ancestry demo_subst demo_sleep m)" for m by (rule finite_subset [OF demo_ancestry]) simp
  have order: "set (ce_order demo_cli_env ps) = set ps" for ps by (simp add: demo_cli_env_def)
  have reload: "ce_reload demo_cli_env f w = w" for f w by (simp add: demo_cli_env_def)
  from sleep_keeps_branch [OF law demo_law demo_sleep_law fin order, of demo_closed "Some ''a''" "Some ''tier''" demo_cli]
  show ?thesis by (simp add: reload)
qed

subsection \<open>What a wake restores\<close>

lemma drop_scratch_gone: "q \<noteq> [] \<Longrightarrow> fs_lookup f q = None \<Longrightarrow> fs_lookup (drop_scratch dir f) q = None"
  using drop_scratch_lookup [of q dir f] by auto

lemma drop_scratch_keeps: "q \<noteq> [] \<Longrightarrow> fs_lookup (drop_scratch dir f) q = Some n \<Longrightarrow> fs_lookup f q = Some n"
  using drop_scratch_lookup [of q dir f] by auto

lemma db_restore_Inr:
  assumes law: "substrate_law B V" and ok: "db_ok B V db w" and run: "db_restore D B db m w f = (Inr (), db', w', f')"
  shows "(\<forall>d. db_home db = Some d \<longrightarrow> sv_recorded V w' d = m) \<and>
    (\<forall>d. db_home db \<noteq> Some d \<longrightarrow> sv_recorded V w' d = sv_recorded V w d)"
proof -
  obtain w1 where rw: "db_rewind_to B db m w = (Inr (), w1)"
    using run by (auto simp: db_restore_def split: sum.splits prod.splits)
  note r = db_rewind_Inr [OF law ok rw]
  have ok1: "db_ok B V db w1" using db_ok_moves [OF ok] r by blast
  obtain k f1 where ko: "kernel_open D (store_page_store B (db_store db)) w1 (db_opts db) f = (Inr k, w', f1)"
    using run rw by (auto simp: db_restore_def split: sum.splits prod.splits)
  have "still B V w1 w'"
    using kernel_open_still [OF law _ _ ko] ok1 by (simp add: db_ok_def db_handle_def)
  moreover have "sv_dir V (db_handle db) = db_home db" using ok by (simp add: db_ok_def)
  ultimately show ?thesis using r by (auto simp: still_def only_moves_def)
qed

text \<open>The woken database stands where substrate's wake put it.\<close>

lemma flock_wake_Inr:
  assumes law: "substrate_law B V" and inv: "sv_inv V w"
    and run: "flock_wake D B root name remote token w f = (Inr db, w', f')"
  shows "still B V w w' \<and> (\<exists>h w1. tr_wake B root remote token w = (Inr h, w1) \<and> db_head B db w' = pg_head B h w1)"
proof -
  obtain f1 h w1 k where tw: "tr_wake B root remote token w = (Inr h, w1)"
    and ko: "kernel_open D (store_page_store B (Tiered h)) w1 opts_default f1 = (Inr k, w', f')"
    and db: "db = \<lparr>db_name = name, db_root = root, db_store = Tiered h, db_kernel = k, db_opts = opts_default\<rparr>"
    using run by (auto simp: flock_wake_def flock_wake_with_def Let_def split: sum.splits prod.splits)
  note o = opens_lawD(3) [OF substrate_lawD(1) [OF law inv] tw]
  have l: "sv_inv V w1" "sv_live V w1 h" using o by (simp_all add: still_def opens_as_def)
  have st: "still B V w1 w'" using kernel_open_still [OF law l(1) _ ko] l(2) by simp
  have "db_head B db w' = pg_head B h w1" using st l(2) by (simp add: db db_head_handle db_handle_def still_def)
  moreover have "still B V w w'" by (rule still_trans [OF conjunct1 [OF o] st])
  ultimately show ?thesis using tw by (intro conjI exI) assumption+
qed

lemma adopt_Ok:
  assumes law: "substrate_law B V" and inv: "\<And>f. sv_inv V (ce_reload C f w)"
    and run: "adopt D B C ws branch rec cache m w f = Some (Ok (), w', f', out)"
  shows "\<exists>pages. out = [SayAwake branch pages (sr_tier rec)] \<and> sv_recorded V w' (db_dir (ws_root ws) branch) = m \<and>
    validate_name branch = Inr () \<and> \<not> is_asleep ws branch f'"
proof -
  from run obtain pages f2 db w1 f3 db' f4 f5 where
    op: "flock_open D B (ws_root ws) branch (ce_reload C f2 w) f2 = (Inr db, w1, f3)"
    and rs: "db_restore D B db m w1 f3 = (Inr (), db', w', f4)"
    and rm: "remove_sleep_record ws branch f4 = (Inr (), f5)"
    and out: "f' = close_db db' f5" "out = [SayAwake branch pages (sr_tier rec)]"
    by (auto simp: adopt_def Let_def simp del: below_root split: option.splits sum.splits prod.splits)
  note o = flock_open_Inr [OF law inv op [unfolded flock_open_def]]
  have v: "validate_name branch = Inr ()" by (rule flock_open_name [OF op [unfolded flock_open_def]])
  have home: "db_home db = Some (db_dir (ws_root ws) branch)" and ok: "db_ok B V db w1" using o by simp_all
  have rec: "sv_recorded V w' (db_dir (ws_root ws) branch) = m" using db_restore_Inr [OF law ok rs] home by blast
  have path: "sleep_record_path ws branch \<noteq> []" using sleep_record_valid [OF v] by simp
  obtain e f6 where "fs_remove_file f4 (sleep_record_path ws branch) = (e, f6)" by fastforce
  with rm fs_remove_file_effect [OF this path] have "fs_lookup f5 (sleep_record_path ws branch) = None"
    by (cases e) (auto simp: remove_sleep_record_def map_err_def Let_def)
  then have "fs_lookup f' (sleep_record_path ws branch) = None"
    unfolding out(1) close_db_def kernel_drop_def by (rule drop_scratch_gone [OF path])
  with rec out(2) v show ?thesis by (auto simp: is_asleep_def is_file_def)
qed

text \<open>C11: a branch wakes where it slept. When \<open>flock wake\<close> reports success, the log of the branch
  records the head of the database that was woken from the tier with the token in the branch's sleep
  record, which is the token's manifest when substrate wakes there; and the branch sleeps no more.\<close>

theorem wake_restores_branch:
  assumes "substrate_law B V" "\<And>f w. sv_inv V w \<Longrightarrow> sv_inv V (ce_reload C f w)" "sv_inv V w"
    and "cli_wake D B C ws branch w f = Some (Ok (), w', f', out)"
  shows "\<exists>rec token remote cache db w1 f1 f2 f3 f4 pages.
    read_sleep_record (ce_json C) ws branch f1 = (Inr rec, f2) \<and> fs_lookup f1 = fs_lookup f \<and>
    js_to_token (ce_json C) (sr_token rec) = Inr token \<and> cli_remote_tier C (sr_tier rec) (sr_pool rec) = Inr remote \<and>
    flock_wake D B cache branch remote token w f3 = (Inr db, w1, f4) \<and> out = [SayAwake branch pages (sr_tier rec)] \<and>
    sv_recorded V w' (db_dir (ws_root ws) branch) = db_head B db w1 \<and>
    ((\<forall>h w2. tr_wake B cache remote token w = (Inr h, w2) \<longrightarrow> pg_head B h w2 = wt_manifest token) \<longrightarrow>
       sv_recorded V w' (db_dir (ws_root ws) branch) = wt_manifest token) \<and>
    \<not> is_asleep ws branch f'"
proof -
  from assms(4) obtain known f1 rec f2 remote token cache f3 db w1 f4 f9 where
    br: "ws_branches ws f = (Inr known, f1)" and rd: "read_sleep_record (ce_json C) ws branch f1 = (Inr rec, f2)"
    and rem: "cli_remote_tier C (sr_tier rec) (sr_pool rec) = Inr remote"
    and tok: "js_to_token (ce_json C) (sr_token rec) = Inr token"
    and wk: "flock_wake D B cache branch remote token w f3 = (Inr db, w1, f4)"
    and ad: "adopt D B C ws branch rec cache (db_head B db w1) w1 (ce_flush C w1 (close_db db f4)) = Some (Ok (), w', f9, out)"
    and f': "f' = drop_scratch cache f9"
    by (auto simp: cli_wake_def with_files_def split: option.splits sum.splits prod.splits if_splits)
  have look: "fs_lookup f1 = fs_lookup f" using only_asked_same(1) [OF ws_branches_frame [OF br]] by blast
  note wake = flock_wake_Inr [OF assms(1,3) wk]
  have inv: "sv_inv V (ce_reload C g w1)" for g using assms(2) wake by (simp add: still_def)
  from adopt_Ok [OF assms(1) inv ad] obtain pages where a: "out = [SayAwake branch pages (sr_tier rec)]"
    "sv_recorded V w' (db_dir (ws_root ws) branch) = db_head B db w1" "validate_name branch = Inr ()" "\<not> is_asleep ws branch f9"
    by blast
  have path: "sleep_record_path ws branch = ws_root ws @ [''asleep'', branch @ ''.json'']" by (rule sleep_record_valid [OF a(3)])
  have "\<not> is_asleep ws branch f'"
  proof
    assume as: "is_asleep ws branch f'"
    then obtain b where b: "fs_lookup f' (sleep_record_path ws branch) = Some (FileNode b)"
      by (auto simp: is_asleep_def is_file_def split: option.splits node.splits)
    have "fs_lookup f9 (sleep_record_path ws branch) = Some (FileNode b)"
      using b drop_scratch_keeps [of "sleep_record_path ws branch" cache f9] path unfolding f' by auto
    with a(4) show False by (simp add: is_asleep_def is_file_def)
  qed
  moreover have "(\<forall>h w2. tr_wake B cache remote token w = (Inr h, w2) \<longrightarrow> pg_head B h w2 = wt_manifest token) \<longrightarrow>
      sv_recorded V w' (db_dir (ws_root ws) branch) = wt_manifest token" using wake a(2) by auto
  ultimately show ?thesis by (intro exI conjI) (rule rd look tok rem wk a(1) a(2) | assumption)+
qed

subsection \<open>A wake\<close>

text \<open>The file systems of a wake of the sleeping branch, from reading its record to opening it again.\<close>

definition demo_wake_read :: fs where
  "demo_wake_read = snd (read_sleep_record (ce_json demo_cli_env) demo_ws ''b'' (snd (ws_branches demo_ws demo_cli)))"

definition demo_wake_home :: fs where
  "demo_wake_home = snd (fs_create_dir_all (fs_put demo_wake_read [''tmp''] DirNode) [''tmp''])"

definition demo_wake_closed :: fs where
  "demo_wake_closed = drop_scratch [''tmp''] (demo_hydrated demo_wake_home)"

definition demo_wake_link :: "(flock_error + path) \<times> fs" where
  "demo_wake_link = link_db_to_shared_cas [''pool''] ''b'' demo_wake_closed"

definition demo_wake_end :: fs where
  "demo_wake_end = drop_scratch [''tmp''] (demo_hydrated (demo_cleared (snd demo_wake_link)))"

lemma demo_ready_code:
  "(\<And>n. fs_faults f n = None) \<Longrightarrow> fs_lookup f demo_scratch = None \<Longrightarrow> fs_lookup f [''tmp'', ''flock.duckdb.wal''] = None \<Longrightarrow>
     demo_ready f"
  by (simp add: demo_ready_def fs_quiet_def)

definition demo_wake_rec :: sleep_record where
  "demo_wake_rec = \<lparr>sr_tier = [''tier''], sr_pool = ''asleep'', sr_token = ''1''\<rparr>"

definition demo_wake_token :: wake_token where
  "demo_wake_token = \<lparr>wt_pool = [], wt_manifest = ManifestId [1], wt_page_size = 4\<rparr>"

definition demo_wake_tier :: "unit remote_tier" where
  "demo_wake_tier = \<lparr>rt_backend = (), rt_pool = ''asleep''\<rparr>"

text \<open>The worlds: the woken store open, the pool's own store open, and that one on the woken head.\<close>

definition demo_wake_w1 :: demo_world where
  "demo_wake_w1 = demo_closed\<lparr>dw_open := [(None, ManifestId [1])]\<rparr>"

definition demo_wake_w2 :: demo_world where
  "demo_wake_w2 = demo_wake_w1\<lparr>dw_open := [(None, ManifestId [1]), (Some [''pool'', ''dbs'', ''b''], ManifestId [])]\<rparr>"

definition demo_wake_w3 :: demo_world where
  "demo_wake_w3 = demo_wake_w1\<lparr>dw_open := [(None, ManifestId [1]), (Some [''pool'', ''dbs'', ''b''], ManifestId [1])]\<rparr>"

definition demo_wake_w4 :: demo_world where
  "demo_wake_w4 = demo_wake_w3\<lparr>dw_recorded := ([''pool'', ''dbs'', ''b''], ManifestId [1]) # dw_recorded demo_wake_w3\<rparr>"

text \<open>The databases: the one woken over the tier, and the pool's own.\<close>

definition demo_woken_db :: "(demo_handle, unit) db" where
  "demo_woken_db = \<lparr>db_name = ''b'', db_root = [''tmp''], db_store = Tiered (0, None), db_kernel = demo_kernel,
     db_opts = opts_default\<rparr>"

definition demo_rewoken_db :: "(demo_handle, unit) db" where
  "demo_rewoken_db = \<lparr>db_name = ''b'', db_root = [''pool''], db_store = Local (1, Some [''pool'', ''dbs'', ''b'']),
     db_kernel = demo_kernel, db_opts = opts_default\<rparr>"

lemmas demo_wake_worlds = demo_wake_w1_def demo_wake_w2_def demo_wake_w3_def demo_wake_w4_def

lemma demo_wake_name: "validate_name ''b'' = Inr ()"
  by code_simp

lemma demo_wake_opens:
  "flock_wake demo_duck demo_subst [''tmp''] ''b'' demo_wake_tier demo_wake_token demo_closed
     (fs_put demo_wake_read [''tmp''] DirNode) = (Inr demo_woken_db, demo_wake_w1, demo_hydrated demo_wake_home)"
proof -
  have "fst (fs_create_dir_all (fs_put demo_wake_read [''tmp''] DirNode) [''tmp'']) = Inr ()" by code_simp
  then have home: "fs_create_dir_all (fs_put demo_wake_read [''tmp''] DirNode) [''tmp''] = (Inr (), demo_wake_home)"
    by (metis demo_wake_home_def prod.collapse)
  have ready: "demo_ready demo_wake_home" by (rule demo_ready_code) code_simp+
  have tw: "tr_wake demo_subst [''tmp''] demo_wake_tier demo_wake_token demo_closed = (Inr (0, None), demo_wake_w1)"
    by (simp add: demo_wake_worlds demo_closed_def demo_wake_token_def)
  have "demo_head (store_pager (Tiered (0, None))) demo_wake_w1 = ManifestId [1]"
    by (simp add: demo_head_def demo_wake_worlds)
  note ko = demo_kernel_opens [OF this ready]
  show ?thesis unfolding flock_wake_def flock_wake_with_def demo_woken_db_def
    by (simp only: demo_wake_name home tw ko Let_def prod.case sum.case)
qed

lemma demo_wake_reopens:
  "flock_open demo_duck demo_subst [''pool''] ''b'' demo_wake_w1 demo_wake_closed =
     (Inr demo_rewoken_db, demo_wake_w2, demo_cleared (snd demo_wake_link))"
proof -
  let ?d = "[''pool'', ''dbs'', ''b'']" and ?h = "(1, Some [''pool'', ''dbs'', ''b'']) :: demo_handle"
  have "fst demo_wake_link = Inr ?d" by code_simp
  then have link: "link_db_to_shared_cas [''pool''] ''b'' demo_wake_closed = (Inr ?d, snd demo_wake_link)"
    by (metis demo_wake_link_def prod.collapse)
  have op: "sb_open demo_subst ?d demo_wake_w1 = (Inr ?h, demo_wake_w2)"
    by (simp add: demo_open_at_def demo_wake_worlds)
  have rec: "sb_recover demo_subst ?h demo_wake_w2 = (Inr (), demo_wake_w2)"
    by (simp add: demo_set_def demo_recorded_def demo_wake_worlds demo_closed_def)
  have head: "demo_head (store_pager (Local ?h)) demo_wake_w2 = ManifestId []"
    by (simp add: demo_head_def demo_wake_worlds)
  have "fs_faults (snd demo_wake_link) n = None" for n by code_simp
  then have quiet: "fs_quiet (snd demo_wake_link)" by (simp add: fs_quiet_def)
  have "fs_lookup (snd demo_wake_link) demo_scratch = None" by code_simp
  note ko = demo_kernel_opens_empty [OF head quiet this]
  show ?thesis unfolding flock_open_def flock_open_with_def demo_rewoken_db_def
    by (simp only: demo_wake_name link op rec ko Let_def prod.case sum.case)
qed

lemma demo_wake_restores:
  "db_restore demo_duck demo_subst demo_rewoken_db (ManifestId [1]) demo_wake_w2 (demo_cleared (snd demo_wake_link)) =
     (Inr (), demo_rewoken_db\<lparr>db_kernel := demo_kernel\<rparr>, demo_wake_w4, demo_wake_end)"
proof -
  have rw: "db_rewind_to demo_subst demo_rewoken_db (ManifestId [1]) demo_wake_w2 = (Inr (), demo_wake_w4)"
    by (simp add: db_rewind_to_def demo_rewoken_db_def demo_set_def demo_head_def map_err_def demo_wake_worlds)
  have ready: "demo_ready (demo_cleared (snd demo_wake_link))" by (rule demo_ready_code) code_simp+
  have "demo_head (store_pager (db_store demo_rewoken_db)) demo_wake_w4 = ManifestId [1]"
    by (simp add: demo_rewoken_db_def demo_head_def demo_wake_worlds)
  note ko = demo_kernel_opens [OF this ready]
  have parts: "db_opts demo_rewoken_db = opts_default" "db_kernel demo_rewoken_db = demo_kernel"
    by (simp_all add: demo_rewoken_db_def)
  have drop: "kernel_drop demo_kernel f = drop_scratch [''tmp''] f" for f by (simp add: kernel_drop_def demo_kernel_def)
  show ?thesis
    unfolding db_restore_def rw prod.case sum.case parts ko drop demo_wake_end_def by simp
qed

lemma demo_wake_files:
  "ce_flush demo_cli_env w (close_db demo_woken_db (demo_hydrated demo_wake_home)) = demo_wake_closed"
  "ce_reload demo_cli_env f w = w"
  by (simp_all add: demo_cli_env_def close_db_def demo_woken_db_def kernel_drop_def demo_kernel_def demo_wake_closed_def)

lemma demo_wake_adopts:
  "\<exists>f. adopt demo_duck demo_subst demo_cli_env demo_ws ''b'' demo_wake_rec [''tmp''] (ManifestId [1]) demo_wake_w1
     demo_wake_closed = Some (Ok (), demo_wake_w4, f, [SayAwake ''b'' 0 [''tier'']])"
proof -
  have "\<not> is_dir demo_wake_closed (join [''tmp''] ''pages'')" "\<not> is_dir demo_wake_closed (join [''tmp''] ''manifests'')"
    by code_simp+
  then have copies: "copy_tree (join [''tmp''] ''pages'') t demo_wake_closed = Some (Inr 0, demo_wake_closed)"
    "copy_tree (join [''tmp''] ''manifests'') t demo_wake_closed = Some (Inr 0, demo_wake_closed)" for t
    by (simp_all add: copy_tree_def)
  have "fst (remove_sleep_record demo_ws ''b'' demo_wake_end) = Inr ()" by code_simp
  then have rm: "remove_sleep_record demo_ws ''b'' demo_wake_end =
      (Inr (), snd (remove_sleep_record demo_ws ''b'' demo_wake_end))"
    by (metis prod.collapse)
  show ?thesis
    unfolding adopt_def Let_def copies option.case sum.case prod.case demo_wake_files demo_ws_root demo_wake_reopens
      demo_wake_restores
    by (subst rm) (simp add: demo_wake_rec_def)
qed

lemma demo_wakes:
  "\<exists>w' f'. cli_wake demo_duck demo_subst demo_cli_env demo_ws ''b'' demo_closed demo_cli =
     Some (Ok (), w', f', [SayAwake ''b'' 0 [''tier'']])"
proof -
  define f1 where "f1 = snd (ws_branches demo_ws demo_cli)"
  have ex: "ws_exists demo_ws demo_cli" by code_simp
  have "fst (ws_branches demo_ws demo_cli) = Inr [''a'', ''b'']" by code_simp
  then have br: "ws_branches demo_ws demo_cli = (Inr [''a'', ''b''], f1)" by (metis f1_def prod.collapse)
  have known: "''b'' \<in> set [''a'', ''b'']" by simp
  have as: "is_asleep demo_ws ''b'' f1" unfolding f1_def by code_simp
  have "fst (read_sleep_record (ce_json demo_cli_env) demo_ws ''b'' f1) = Inr demo_wake_rec" unfolding f1_def by code_simp
  then have rd: "read_sleep_record (ce_json demo_cli_env) demo_ws ''b'' f1 = (Inr demo_wake_rec, demo_wake_read)"
    by (metis demo_wake_read_def f1_def prod.collapse)
  have rem: "cli_remote_tier demo_cli_env (sr_tier demo_wake_rec) (sr_pool demo_wake_rec) = Inr demo_wake_tier"
    and tok: "js_to_token (ce_json demo_cli_env) (sr_token demo_wake_rec) = Inr demo_wake_token"
    and rt: "cli_runtime demo_cli_env = Inr ()"
    by (simp_all add: cli_remote_tier_def cli_runtime_def map_err_def demo_cli_env_def demo_wake_rec_def
        demo_wake_tier_def demo_wake_token_def)
  have temp: "duck_temp_dir demo_duck f = (Inr [''tmp''], fs_put f [''tmp''] DirNode)" for f by (simp add: demo_duck_def)
  have head: "db_head demo_subst demo_woken_db demo_wake_w1 = ManifestId [1]"
    by (simp add: db_head_def demo_woken_db_def store_head_def demo_head_def demo_wake_worlds)
  obtain f9 where ad: "adopt demo_duck demo_subst demo_cli_env demo_ws ''b'' demo_wake_rec [''tmp''] (ManifestId [1])
      demo_wake_w1 demo_wake_closed = Some (Ok (), demo_wake_w4, f9, [SayAwake ''b'' 0 [''tier'']])"
    using demo_wake_adopts by blast
  have "cli_wake demo_duck demo_subst demo_cli_env demo_ws ''b'' demo_closed demo_cli =
     Some (Ok (), demo_wake_w4, drop_scratch [''tmp''] f9, [SayAwake ''b'' 0 [''tier'']])"
    unfolding cli_wake_def
    by (simp only: ex br known as rd rem tok temp rt demo_wake_opens head demo_wake_files ad prod.case sum.case
        with_files_def option.map not_True_eq_False if_False)
  then show ?thesis by blast
qed

lemma wake_restores_branch_witness:
  "\<exists>w' f' out. cli_wake demo_duck demo_subst demo_cli_env demo_ws ''b'' demo_closed demo_cli = Some (Ok (), w', f', out) \<and>
     demo_recorded w' [''pool'', ''dbs'', ''b''] = ManifestId [1] \<and> \<not> is_asleep demo_ws ''b'' f'"
proof -
  obtain w' f' out where run: "cli_wake demo_duck demo_subst demo_cli_env demo_ws ''b'' demo_closed demo_cli =
     Some (Ok (), w', f', out)" using demo_wakes by blast
  have dir: "db_dir (ws_root demo_ws) ''b'' = [''pool'', ''dbs'', ''b'']" by (simp add: db_dir_def join_plain)
  have inv: "sv_inv demo_obs w" for w by simp
  have tok: "js_to_token (ce_json demo_cli_env) s = Inr t \<Longrightarrow> wt_manifest t = ManifestId [1]" for s t
    by (simp add: demo_cli_env_def) auto
  have tw: "tr_wake demo_subst d r t demo_closed = (Inr h, w2) \<Longrightarrow> pg_head demo_subst h w2 = wt_manifest t" for d t h w2
    and r :: "unit remote_tier"
    by (auto simp: demo_head_def demo_closed_def)
  from wake_restores_branch [OF demo_law inv inv run] show ?thesis
  proof (elim exE conjE, goal_cases)
    case (1 rec token remote cache db w1 f1 f2 f3 f4 pages)
    have "sv_recorded demo_obs w' (db_dir (ws_root demo_ws) ''b'') = wt_manifest token" using 1(8) tw by blast
    with tok [OF 1(3)] have "demo_recorded w' [''pool'', ''dbs'', ''b''] = ManifestId [1]" unfolding dir by simp
    with run 1(9) show ?thesis by blast
  qed
qed

end
