(* ===== verification/Cli_Main.thy ===== *)
theory Cli_Main
  imports Cli_Tier
begin

section \<open>The command line\<close>

text \<open>
  \<open>crates/flock-cli/src/cli.rs\<close> and \<open>main.rs\<close>: the parsed command line and what runs it. Parsing is
  \<open>clap\<close>'s; the process's exit code is the outcome's, and an error is what it prints on stderr.
\<close>

datatype command =
    Import string "string option"
  | Sql string
  | Branch string bool
  | Branches
  | Checkout string
  | Sleep "string option"
  | Wake string

record cli =
  cli_pool :: "string option"
  cli_branch :: "string option"
  cli_command :: command

definition cli_run :: "('c, 'a, 'b) duck_ops \<Rightarrow> ('w, 'h, 't, 'm, 'o) subst \<Rightarrow> ('w, 'a, 'b, 'col, 'o) cli_env \<Rightarrow>
    string option \<Rightarrow> cli \<Rightarrow> 'w \<Rightarrow> fs \<Rightarrow> 'w cli_result option" where
  "cli_run D B C flock_pool c w f =
     (let ws = locate (cli_pool c) flock_pool; branch = cli_branch c
      in case cli_command c of
           Import file_text table \<Rightarrow> Some (cli_import D B C ws branch file_text table w f)
         | Sql query \<Rightarrow> Some (cli_sql D B C ws branch query w f)
         | Branch name no_checkout \<Rightarrow> Some (cli_fork D B ws branch name no_checkout w f)
         | Branches \<Rightarrow> Some (cli_list ws w f)
         | Checkout name \<Rightarrow> Some (cli_checkout ws name w f)
         | Sleep tier \<Rightarrow> cli_sleep D B C ws branch tier w f
         | Wake name \<Rightarrow> cli_wake D B C ws name w f)"

text \<open>\<open>main\<close>: the exit code, and the error on stderr; a panic exits with 101.\<close>

definition cli_main :: "('c, 'a, 'b) duck_ops \<Rightarrow> ('w, 'h, 't, 'm, 'o) subst \<Rightarrow> ('w, 'a, 'b, 'col, 'o) cli_env \<Rightarrow>
    string option \<Rightarrow> cli \<Rightarrow> 'w \<Rightarrow> fs \<Rightarrow> (nat \<times> cli_error option \<times> 'w \<times> fs \<times> cli_line list) option" where
  "cli_main D B C flock_pool c w f =
     map_option (\<lambda>(r, w', f', out).
       case r of
         Ok _ \<Rightarrow> (0, None, w', f', out)
       | Err e \<Rightarrow> (1, Some e, w', f', out)
       | Panic \<Rightarrow> (101, None, w', f', out)) (cli_run D B C flock_pool c w f)"

end
