(* ===== verification/Py_Bindings.thy ===== *)
theory Py_Bindings
  imports Cli_Main
begin

section \<open>The Python bindings\<close>

text \<open>
  \<open>bindings/python/src/lib.rs\<close>: a handle on one branch and the methods Python calls on it. The mutex of a
  handle is recovered when a thread panicked under it, so a method always gets the database, and the
  threads that share a handle take turns: the calls are a sequence. A panic is Python's
  \<open>PanicException\<close>. Arrow, substrate's hex and Python's own modules are parameters (\<open>py_env\<close>). Errors
  carry the values of their messages. The \<open>repr\<close> of a handle, which quotes two strings, is left out.
\<close>

datatype py_error =
    PyFlock flock_error
  | PyListing path io_error
  | PyNotASnapshot string string
  | PyFormat string
  | PyEncode string
  | PyImportError string
  | PyRaised string

record ('a, 'b, 'wr, 'tbl, 'df) py_env =
  py_fields :: "'a \<Rightarrow> string list"
  py_num_rows :: "'b \<Rightarrow> nat"
  py_pretty :: "'a \<Rightarrow> 'b list \<Rightarrow> string + string"
  py_writer :: "'a \<Rightarrow> string + 'wr"
  py_write :: "'wr \<Rightarrow> 'b \<Rightarrow> string + 'wr"
  py_finish :: "'wr \<Rightarrow> string + bytes"
  py_to_hex :: "manifest_id \<Rightarrow> string"
  py_from_hex :: "string \<Rightarrow> string + manifest_id"
  py_import :: "string \<Rightarrow> bool"
  py_read_all :: "bytes \<Rightarrow> string + 'tbl"
  py_to_pandas :: "'tbl \<Rightarrow> string + 'df"

record ('h, 'c) py_db =
  py_inner :: "('h, 'c) db"
  py_root :: string

record ('a, 'b) py_rows =
  rows_schema :: 'a
  rows_batches :: "'b list"

subsection \<open>Handles\<close>

definition open_at :: "('c, 'a, 'b) duck_ops \<Rightarrow> ('w, 'h, 't, 'm, 'o) subst \<Rightarrow> string \<Rightarrow> string \<Rightarrow> 'w \<Rightarrow> fs \<Rightarrow>
    (py_error + ('h, 'c) py_db) \<times> 'w \<times> fs" where
  "open_at D B root branch w f =
     (case flock_open D B (components root) branch w f of
        (Inl e, w', f') \<Rightarrow> (Inl (PyFlock e), w', f')
      | (Inr db, w', f') \<Rightarrow> (Inr \<lparr>py_inner = db, py_root = root\<rparr>, w', f'))"

text \<open>The module's \<open>open\<close>, whose branch defaults to \<open>main\<close>.\<close>

definition py_open :: "('c, 'a, 'b) duck_ops \<Rightarrow> ('w, 'h, 't, 'm, 'o) subst \<Rightarrow> string \<Rightarrow> string option \<Rightarrow> 'w \<Rightarrow> fs \<Rightarrow>
    (py_error + ('h, 'c) py_db) \<times> 'w \<times> fs" where
  "py_open D B root branch = open_at D B root (case branch of Some b \<Rightarrow> b | None \<Rightarrow> ''main'')"

definition py_name :: "('h, 'c) py_db \<Rightarrow> string" where
  "py_name d = db_name (py_inner d)"

definition py_pool :: "('h, 'c) py_db \<Rightarrow> string" where
  "py_pool d = py_root d"

definition py_sql :: "('c, 'a, 'b) duck_ops \<Rightarrow> ('w, 'h, 't, 'm, 'o) subst \<Rightarrow> ('h, 'c) py_db \<Rightarrow> string \<Rightarrow> 'w \<Rightarrow> fs \<Rightarrow>
    (py_error, ('a, 'b) py_rows) outcome \<times> ('h, 'c) py_db \<times> 'w \<times> fs" where
  "py_sql D B d query w f =
     (case db_query D (py_inner d) query f of
        (Inl e, db, f1) \<Rightarrow> (Err (PyFlock e), d\<lparr>py_inner := db\<rparr>, w, f1)
      | (Inr rows, db, f1) \<Rightarrow>
          (case db_snapshot D B db w f1 of
             (Err e, db', w', f2) \<Rightarrow> (Err (PyFlock e), d\<lparr>py_inner := db'\<rparr>, w', f2)
           | (Panic, db', w', f2) \<Rightarrow> (Panic, d\<lparr>py_inner := db'\<rparr>, w', f2)
           | (Ok _, db', w', f2) \<Rightarrow>
               (Ok \<lparr>rows_schema = as_schema rows, rows_batches = as_batches rows\<rparr>, d\<lparr>py_inner := db'\<rparr>, w', f2)))"

definition py_branch :: "('c, 'a, 'b) duck_ops \<Rightarrow> ('w, 'h, 't, 'm, 'o) subst \<Rightarrow> ('h, 'c) py_db \<Rightarrow> string \<Rightarrow> 'w \<Rightarrow> fs \<Rightarrow>
    (py_error, ('h, 'c) py_db) outcome \<times> ('h, 'c) py_db \<times> 'w \<times> fs" where
  "py_branch D B d name w f =
     (case db_fork D B (py_inner d) name w f of
        (Err e, db, w', f') \<Rightarrow> (Err (PyFlock e), d\<lparr>py_inner := db\<rparr>, w', f')
      | (Panic, db, w', f') \<Rightarrow> (Panic, d\<lparr>py_inner := db\<rparr>, w', f')
      | (Ok forked, db, w', f') \<Rightarrow>
          (Ok \<lparr>py_inner = forked, py_root = py_root d\<rparr>, d\<lparr>py_inner := db\<rparr>, w', f'))"

definition py_checkout :: "('c, 'a, 'b) duck_ops \<Rightarrow> ('w, 'h, 't, 'm, 'o) subst \<Rightarrow> ('h, 'c) py_db \<Rightarrow> string \<Rightarrow> 'w \<Rightarrow> fs \<Rightarrow>
    (py_error + ('h, 'c) py_db) \<times> 'w \<times> fs" where
  "py_checkout D B d name w f = open_at D B (py_root d) name w f"

definition py_branches :: "('h, 'c) py_db \<Rightarrow> fs \<Rightarrow> (py_error + string list) \<times> fs" where
  "py_branches d f =
     (let dir = join (components (py_root d)) ''dbs''
      in case fs_read_dir f dir of
           (Inr entries, f') \<Rightarrow> (Inr (sort (map last entries)), f')
         | (Inl IoNotFound, f') \<Rightarrow> (Inr [], f')
         | (Inl e, f') \<Rightarrow> (Inl (PyListing dir e), f'))"

definition py_snapshot :: "('c, 'a, 'b) duck_ops \<Rightarrow> ('w, 'h, 't, 'm, 'o) subst \<Rightarrow> ('a, 'b, 'wr, 'tbl, 'df) py_env \<Rightarrow>
    ('h, 'c) py_db \<Rightarrow> 'w \<Rightarrow> fs \<Rightarrow> (py_error, string) outcome \<times> ('h, 'c) py_db \<times> 'w \<times> fs" where
  "py_snapshot D B P d w f =
     (case db_snapshot D B (py_inner d) w f of
        (Err e, db, w', f') \<Rightarrow> (Err (PyFlock e), d\<lparr>py_inner := db\<rparr>, w', f')
      | (Panic, db, w', f') \<Rightarrow> (Panic, d\<lparr>py_inner := db\<rparr>, w', f')
      | (Ok m, db, w', f') \<Rightarrow> (Ok (py_to_hex P m), d\<lparr>py_inner := db\<rparr>, w', f'))"

definition parse_manifest :: "('a, 'b, 'wr, 'tbl, 'df) py_env \<Rightarrow> string \<Rightarrow> py_error + manifest_id" where
  "parse_manifest P hex = map_err (PyNotASnapshot hex) (py_from_hex P hex)"

definition py_restore :: "('c, 'a, 'b) duck_ops \<Rightarrow> ('w, 'h, 't, 'm, 'o) subst \<Rightarrow> ('a, 'b, 'wr, 'tbl, 'df) py_env \<Rightarrow>
    ('h, 'c) py_db \<Rightarrow> string \<Rightarrow> 'w \<Rightarrow> fs \<Rightarrow> (py_error + unit) \<times> ('h, 'c) py_db \<times> 'w \<times> fs" where
  "py_restore D B P d snapshot w f =
     (case parse_manifest P snapshot of
        Inl e \<Rightarrow> (Inl e, d, w, f)
      | Inr m \<Rightarrow>
          (case db_restore D B (py_inner d) m w f of
             (r, db, w', f') \<Rightarrow> (map_err PyFlock r, d\<lparr>py_inner := db\<rparr>, w', f')))"

definition py_export_duckdb :: "('c, 'a, 'b) duck_ops \<Rightarrow> ('h, 'c) py_db \<Rightarrow> string \<Rightarrow> fs \<Rightarrow>
    (py_error + unit) \<times> ('h, 'c) py_db \<times> fs" where
  "py_export_duckdb D d p f =
     (case db_export_duckdb D (py_inner d) (components p) f of
        (r, db, f') \<Rightarrow> (map_err PyFlock r, d\<lparr>py_inner := db\<rparr>, f'))"

subsection \<open>Rows\<close>

definition rows_columns :: "('a, 'b, 'wr, 'tbl, 'df) py_env \<Rightarrow> ('a, 'b) py_rows \<Rightarrow> string list" where
  "rows_columns P r = py_fields P (rows_schema r)"

definition rows_len :: "('a, 'b, 'wr, 'tbl, 'df) py_env \<Rightarrow> ('a, 'b) py_rows \<Rightarrow> nat" where
  "rows_len P r = sum_list (map (py_num_rows P) (rows_batches r))"

definition rows_repr :: "('a, 'b, 'wr, 'tbl, 'df) py_env \<Rightarrow> ('a, 'b) py_rows \<Rightarrow> py_error + string" where
  "rows_repr P r =
     (if py_fields P (rows_schema r) = [] then Inr ''OK''
      else map_err PyFormat (py_pretty P (rows_schema r) (rows_batches r)))"

fun write_batches :: "('a, 'b, 'wr, 'tbl, 'df) py_env \<Rightarrow> 'wr \<Rightarrow> 'b list \<Rightarrow> string + 'wr" where
  "write_batches P wr [] = Inr wr"
| "write_batches P wr (batch # batches) =
     (case py_write P wr batch of Inl e \<Rightarrow> Inl e | Inr wr' \<Rightarrow> write_batches P wr' batches)"

definition rows_to_ipc :: "('a, 'b, 'wr, 'tbl, 'df) py_env \<Rightarrow> ('a, 'b) py_rows \<Rightarrow> py_error + bytes" where
  "rows_to_ipc P r =
     (case py_writer P (rows_schema r) of
        Inl e \<Rightarrow> Inl (PyEncode e)
      | Inr wr \<Rightarrow>
          (case write_batches P wr (rows_batches r) of
             Inl e \<Rightarrow> Inl (PyEncode e)
           | Inr wr' \<Rightarrow> map_err PyEncode (py_finish P wr')))"

definition rows_to_arrow :: "('a, 'b, 'wr, 'tbl, 'df) py_env \<Rightarrow> ('a, 'b) py_rows \<Rightarrow> py_error + 'tbl" where
  "rows_to_arrow P r =
     (if \<not> py_import P ''pyarrow.ipc'' then Inl (PyImportError ''to_arrow() needs pyarrow, which is not installed.'')
      else if \<not> py_import P ''pyarrow'' then Inl (PyImportError ''to_arrow() needs pyarrow.'')
      else
        (case rows_to_ipc P r of
           Inl e \<Rightarrow> Inl e
         | Inr ipc \<Rightarrow> map_err PyRaised (py_read_all P ipc)))"

definition rows_df :: "('a, 'b, 'wr, 'tbl, 'df) py_env \<Rightarrow> ('a, 'b) py_rows \<Rightarrow> py_error + 'df" where
  "rows_df P r =
     (if \<not> py_import P ''pandas'' then Inl (PyImportError ''df() needs pandas (and pyarrow), which are not installed.'')
      else
        (case rows_to_arrow P r of
           Inl e \<Rightarrow> Inl e
         | Inr table \<Rightarrow> map_err PyRaised (py_to_pandas P table)))"

subsection \<open>Two front ends\<close>

text \<open>What \<open>flock sql\<close> does, written over the Python interface: open the branch, run the query, print its rows.\<close>

fun cli_of_py :: "py_error \<Rightarrow> cli_error" where
  "cli_of_py (PyFlock e) = CFlock e"
| "cli_of_py (PyListing p e) = CIo ''list branches'' p e"
| "cli_of_py (PyNotASnapshot _ e) = CRender e"
| "cli_of_py (PyFormat e) = CRender e"
| "cli_of_py (PyEncode e) = CRender e"
| "cli_of_py (PyImportError e) = CRender e"
| "cli_of_py (PyRaised e) = CRender e"

definition sql_by_python :: "('c, 'a, 'b) duck_ops \<Rightarrow> ('w, 'h, 't, 'm, 'o) subst \<Rightarrow> ('a, 'b, 'wr, 'tbl, 'df) py_env \<Rightarrow>
    string \<Rightarrow> string \<Rightarrow> string \<Rightarrow> 'w \<Rightarrow> fs \<Rightarrow> 'w cli_result" where
  "sql_by_python D B P pool branch query w f =
     (case py_open D B pool (Some branch) w f of
        (Inl e, w1, f1) \<Rightarrow> (Err (cli_of_py e), w1, f1, [])
      | (Inr d, w1, f1) \<Rightarrow>
          (case py_sql D B d query w1 f1 of
             (r, d', w2, f2) \<Rightarrow>
               (case (case r of Ok rows \<Rightarrow> Ok (rows_repr P rows) | Err e \<Rightarrow> Err e | Panic \<Rightarrow> Panic) of
                  Ok (Inr t) \<Rightarrow> (Ok (), w2, close_db (py_inner d') f2, [SayRows t])
                | Ok (Inl e) \<Rightarrow> (Err (cli_of_py e), w2, close_db (py_inner d') f2, [])
                | Err e \<Rightarrow> (Err (cli_of_py e), w2, close_db (py_inner d') f2, [])
                | Panic \<Rightarrow> (Panic, w2, close_db (py_inner d') f2, []))))"

text \<open>C25: the command line and the Python module run SQL alike. Once it has resolved the branch, \<open>flock
  sql\<close> has the outcome, the output, the committed world and the files that opening the branch from
  Python, calling \<open>sql\<close> and printing the rows have, on every path.\<close>

theorem front_ends_agree:
  assumes "ce_fields C = py_fields P" "ce_pretty C = py_pretty P"
  shows "cli_sql D B C ws branch query w f =
    (case ws_resolve ws branch f of
       (Inl e, f1) \<Rightarrow> (Err e, w, f1, [])
     | (Inr name, f1) \<Rightarrow> sql_by_python D B P (ws_text ws) name query w f1)"
  using assms
  by (auto simp: cli_sql_def sql_by_python_def py_open_def open_at_def ws_root_def py_sql_def rows_repr_def
      render_table_def map_err_def split: sum.splits prod.splits outcome.splits if_splits)

definition demo_py :: "(unit, unit, unit, unit, unit) py_env" where
  "demo_py = \<lparr>py_fields = (\<lambda>_. [''n'']), py_num_rows = (\<lambda>_. 1), py_pretty = (\<lambda>_ _. Inr ''| n |''),
     py_writer = (\<lambda>_. Inr ()), py_write = (\<lambda>_ _. Inr ()), py_finish = (\<lambda>_. Inr []),
     py_to_hex = (\<lambda>_. ''01''), py_from_hex = (\<lambda>_. Inr (ManifestId [1])), py_import = (\<lambda>_. False),
     py_read_all = (\<lambda>_. Inr ()), py_to_pandas = (\<lambda>_. Inr ())\<rparr>"

lemma front_ends_agree_witness:
  "\<exists>w' f' f1. ws_resolve demo_ws (Some ''a'') demo_cli = (Inr ''a'', f1) \<and>
     cli_sql demo_duck demo_subst demo_cli_env demo_ws (Some ''a'') ''SELECT n FROM t'' demo_closed demo_cli =
       sql_by_python demo_duck demo_subst demo_py ''pool'' ''a'' ''SELECT n FROM t'' demo_closed f1"
proof -
  obtain f1 where res: "ws_resolve demo_ws (Some ''a'') demo_cli = (Inr ''a'', f1)" using demo_opens_cli(1) by blast
  have "ce_fields demo_cli_env = py_fields demo_py" "ce_pretty demo_cli_env = py_pretty demo_py"
    by (simp_all add: demo_cli_env_def demo_py_def)
  from front_ends_agree [OF this, of demo_duck demo_subst demo_ws "Some ''a''" "''SELECT n FROM t''" demo_closed demo_cli]
  show ?thesis using res by (simp add: demo_ws_def)
qed

end
