(* ===== verification/Spec2Isabelle.thy ===== *)
theory Spec2Isabelle
  imports Vfs_Prefetch Vfs_Fuzz Scheduler Faultshim Kernel_Trait Core_Handles Core_Replica Spike_Seeds Py_Bindings
begin

text \<open>
  FlockDB: databases that live as pages in a content-addressed store (substrate), are opened by
  copying a whole file out for DuckDB, forked and restored in constant time, put to sleep in object
  storage, woken page by page, and shipped commit by commit to followers. This library models its
  Rust crates and proves what makes each part correct. Substrate, DuckDB, the object store and the
  operating system are not in the repository: they are arguments of the definitions that use them,
  records of functions over a state, and what the code relies on them for is a named law
  (\<open>store_law\<close>, \<open>substrate_law\<close>, \<open>store_replays\<close>, \<open>log_on_disk\<close>, \<open>sleep_law\<close>, \<open>tokens_carry\<close>, \<open>wakes_from\<close>,
  \<open>opens_fresh\<close>, \<open>sleeps_whole\<close>, ...), each shown to hold of a small concrete instance (the \<open>demo_\<close> definitions).

  The parts, from the bottom.

  \<^item> \<open>crates/flock-vfs\<close>, reading a sleeping database page by page. \<open>Vfs_Source\<close>: the page source trait
    and its errors (\<open>source.rs\<close>, \<open>error.rs\<close>), with its contract as two locales. \<open>Vfs_Read\<close>: the read
    boundary \<open>serve_read\<close> (\<open>read.rs\<close>), an unsafe-in-spirit copy loop into a caller's buffer, whose panics
    are values. \<open>Vfs_Tiered\<close>: the source over a woken store (\<open>tiered.rs\<close>). \<open>Vfs_Prefetch\<close>: its prefetch,
    once as an operation and once as the interleaving of its worker threads, a step relation.
    \<open>Vfs_Ffi\<close>: tier selection (\<open>backend.rs\<close>) and the C interface (\<open>ffi.rs\<close>) over a heap of handles.
    \<open>Faultshim\<close>: the read path of the wake-latency spike, compared with the product's. \<open>Vfs_Fuzz\<close>: the
    fuzz target of the read boundary (\<open>fuzz_targets/serve_read.rs\<close>), its misbehaving source and oracle.
  \<^item> \<open>crates/flockd\<close>. \<open>Scheduler\<close>: the wake scheduler (\<open>scheduler.rs\<close>), its recording page source and the
    warm sets it prefetches.
  \<^item> \<open>crates/flock-kernel\<close>, between pages and DuckDB. \<open>Text_Format\<close> and \<open>Fs\<close>: paths, decimal and
    hexadecimal text, and \<open>std::fs\<close> as a tree with a schedule of faults: any call can fail, and a write,
    a copy, or the making or removal of a tree of directories can fail with part of it done.
    \<open>Kernel_Paging\<close>: \<open>hydrate\<close> and \<open>persist\<close> (\<open>paging.rs\<close>). \<open>Kernel_Duck\<close>: the engine over a scratch file (\<open>duck.rs\<close>, \<open>stream.rs\<close>,
    \<open>error.rs\<close>). \<open>Kernel_Trait\<close>: the trait they meet the product through (\<open>lib.rs\<close>).
  \<^item> \<open>crates/flock-sync\<close>, shipping commits. \<open>Sync_Log\<close>: segment names, torn tails and the log a source
    reads (\<open>source.rs\<close>, \<open>shipment.rs\<close>, \<open>error.rs\<close>). \<open>Sync_Source\<close>: from records to shipments and the
    position to resume after. \<open>Sync_Replica\<close>: the replay clock (\<open>clock.rs\<close>) and the follower
    (\<open>replica.rs\<close>).
  \<^item> \<open>crates/flock-core\<close>, the product. \<open>Core_Pool\<close>: names and the shared store of a pool (\<open>pool.rs\<close>,
    \<open>error.rs\<close>). \<open>Core_Store\<close>: the two kinds of store and their commit points (\<open>store.rs\<close>);
    \<open>Core_Handles\<close>: the whole of the page stores they hand out. \<open>Core_Db\<close>:
    open, wake, snapshot, fork, restore, export (\<open>db.rs\<close>). \<open>Core_Sleep\<close>: sleep (\<open>db.rs\<close>).
    \<open>Core_Replica\<close>: a follower that answers SQL (\<open>replica.rs\<close>). \<open>Core_Files\<close>: what all of these leave
    of the files of a pool. \<open>Tier_Read\<close>: sleep and the C interface put together over one tier.
  \<^item> \<open>spikes\<close>. \<open>Spike_Seeds\<close>: the programs that put a file to sleep for the two measurements
    (\<open>wake-query/seed/src/main.rs\<close>, \<open>wake-latency/seed/src/main.rs\<close>).
  \<^item> \<open>crates/flock-cli\<close>, the command line. \<open>Cli_Workspace\<close>: the pool as the user sees it, \<open>HEAD\<close>, the
    branches awake and asleep and the sleep records (\<open>workspace.rs\<close>, \<open>error.rs\<close>). \<open>Cli_Commands\<close>: fork,
    list, checkout and sql (\<open>cmd/branch.rs\<close>, \<open>cmd/sql.rs\<close>, \<open>render.rs\<close>). \<open>Cli_Import\<close>: the reader, the
    table name and the statements of an import (\<open>cmd/import.rs\<close>). \<open>Cli_Copy\<close> and \<open>Cli_Tier\<close>: sleep and
    wake, and the copy of fetched pages into a pool (\<open>cmd/tier.rs\<close>). \<open>Cli_Main\<close>: the dispatch and the exit
    code (\<open>cli.rs\<close>, \<open>main.rs\<close>). \<open>Cli_Demo\<close>: a concrete pool for the witnesses.
  \<^item> \<open>bindings/python\<close>. \<open>Py_Bindings\<close>: a handle on one branch, its results and their conversions
    (\<open>lib.rs\<close>).

  How they meet. A database is a store and a kernel; the kernel sees the store only through
  \<open>page_store\<close>, whose commit is the store's own commit point. \<open>Core_Store\<close> states that interface as
  three locales, one extending the other, and interprets them on both stores, so that what a
  checkpoint or an open leaves alone is proved once in \<open>Kernel_Paging\<close>'s terms and used by every
  operation of \<open>Core_Db\<close>. A read replica is a kernel and a follower of \<open>Sync_Replica\<close> on one handle. A
  sleeping database is read through \<open>Vfs_Tiered\<close> and \<open>serve_read\<close>, by the C interface and by the shim.
  The command line and the Python bindings are clients of \<open>Core_Db\<close> over a file system: a branch is a
  directory under \<open>dbs\<close>, a sleeping one a record under \<open>asleep\<close>, and a command closes what it opened on
  every path. What substrate has on disk is shown to the file system and back by \<open>ce_flush\<close> and
  \<open>ce_reload\<close>, since a sleep removes a branch by its directory and a wake adopts pages by copying files.

  What is shown.

  \<^item> Reading: no request and no source, however hostile, makes \<open>serve_read\<close> panic or write outside the
    window; over a woken store it is pread of the slept file; when it fails is characterised; the shim
    serves the same bytes; calls that follow the C interface's protocol are never undefined, and a
    handle is open from its open to its close.
  \<^item> Prefetching: two workers never fill one page at once, a finished prefetch is some sequential one,
    and it finishes. The scheduler's warm set is what a run read, and a second wake finds it warm.
  \<^item> Paging: persist then hydrate is the identity on files; a checkpoint stages the difference and no
    more; it is the whole database, nothing left in DuckDB's own log; checkpointing again changes
    nothing; an opened kernel runs on the head.
  \<^item> Shipping: shipments are the log's history from the position asked for; a follower converges to the
    primary, equals it at every prefix, restores exactly, and reports the state it is in, on every
    error too; every call returns.
  \<^item> Databases: a snapshot survives a restart byte for byte; a fork is isolated from its parent both
    ways under every sequence of operations; what a failed restore leaves behind, and that a failed
    fork keeps its name taken; names stay in the pool; a sleep returns and uploads everything reachable; a read replica's visible
    snapshot is whole and moves only when asked to.
  \<^item> End to end: when a sleep returns a token, whoever opens it over the same tier from C reads the
    file DuckDB left, at every offset and length; so does whoever opens a seeded file by the lines its
    seed printed. The token and the tier between the two halves are substrate's, by \<open>tokens_carry\<close> and
    \<open>wakes_from\<close>.
  \<^item> Front ends: every operation leaves what a pool holds (\<open>holds\<close>, under \<open>duck_law\<close>); a sleep never
    removes a branch before its record is on disk and its database whole in the tier; a wake restores
    the head it fetched; copying a tree returns, replaces nothing, is complete on success and leaves at
    most one file cut short on failure, which no later copy repairs; a query
    prints its rows, and an import reports its table, exactly when they are committed; the statements of
    an import read back as planned whatever the file is called; \<open>flock sql\<close> and Python agree on every
    path. Two names the code mishandles are shown, that of a sleeping branch and one that ends in
    \<open>.json\<close>.
  \<^item> The fuzz target's assertions hold for every input.

  Conventions. Machine integers keep their width (\<open>u64\<close>, \<open>u32\<close>, \<open>u8\<close> are words); \<open>usize\<close> is 64 bits, a
  \<open>nat\<close> where the value is the length of something in memory and a word where it can wrap. Errors are
  the left of a sum, panics a constructor of \<open>outcome\<close>. An operation returns the state it leaves on
  every path, so failures can be reasoned about. Loops that consume are \<open>fun\<close> or \<open>function\<close> with a
  measure; loops over a log, a graph of manifests or a directory tree, which an environment could make
  endless, are \<open>partial_function (option)\<close>, and that they return is a theorem (\<open>shipping_returns\<close>,
  \<open>sleep_uploads_ancestry\<close>, \<open>copy_tree_adopts\<close>). The one
  bound is that on following links, 40, which is Linux's own.

  Not modelled: the crate roots, which re-export; the C++ extension and C harnesses; the
  build script of the shim; tests and benches; the parsing of arguments (\<open>clap\<close>), of JSON
  (\<open>serde_json\<close>) and of fuzz inputs (\<open>arbitrary\<close>), which are libraries; the hints of the command line's
  messages and the \<open>repr\<close> of a Python handle. Messages of errors are kept where a caller sees or parses
  them and left out elsewhere; concurrency beyond the prefetch workers is what Rust's ownership leaves,
  which is none for a \<open>Db\<close> and a \<open>ReadReplica\<close>, whose operations take \<open>&mut self\<close>.
\<close>

end
